(* ===== verification/Prelude.thy ===== *)
theory Prelude
  imports Main "HOL-Library.Word" "HOL-Library.Sublist" "HOL-Library.Signed_Division"
begin

text \<open>
  What the components share: the theorem collections the proofs of the components use, the
  C view of characters and strings, byte arrays written at an offset, and pointers as
  optional indices.  A C string is a \<open>string\<close> without its terminating zero byte; an
  array of bytes that may hold zero bytes is a list of the same type, and \<open>cstr\<close> reads the C
  string at its start.
\<close>

named_theorems queue_simps \<open>how the queue operations change the links\<close>
named_theorems req_inv \<open>preservation of the request buffer invariant\<close>
named_theorems str_simps \<open>evaluation of the C string functions\<close>

type_synonym bytes = "char list"
type_synonym ptr = "nat option"

section \<open>Characters\<close>

abbreviation NUL :: char where "NUL \<equiv> CHR 0x00"
abbreviation LF :: char where "LF \<equiv> CHR 0x0A"
abbreviation CR :: char where "CR \<equiv> CHR 0x0D"
abbreviation QUOTE :: char where "QUOTE \<equiv> CHR 0x22"
abbreviation BACKSLASH :: char where "BACKSLASH \<equiv> CHR 0x5C"

text \<open>The value of a character as \<open>unsigned char\<close> and as (signed) \<open>char\<close>.\<close>

definition uchar :: "char \<Rightarrow> nat" where
  "uchar c = of_char c"

definition schar :: "char \<Rightarrow> int" where
  "schar c = (if uchar c < 128 then int (uchar c) else int (uchar c) - 256)"

definition chr_of :: "nat \<Rightarrow> char" where
  "chr_of n = char_of (n mod 256)"

lemma uchar_less [simp]: "uchar c < 256"
  by (simp add: uchar_def)

lemma uchar_chr_of [simp]: "uchar (chr_of n) = n mod 256"
  by (simp add: uchar_def chr_of_def)

lemma chr_of_uchar [simp]: "chr_of (uchar c) = c"
  by (simp add: uchar_def chr_of_def)

lemma uchar_inject [simp]: "uchar a = uchar b \<longleftrightarrow> a = b"
  by (simp add: uchar_def)

lemma chr_of_eq_iff: "chr_of n = c \<longleftrightarrow> n mod 256 = uchar c"
  by (metis chr_of_uchar uchar_chr_of chr_of_def)

lemma eq_chr_of_iff: "c = chr_of n \<longleftrightarrow> n mod 256 = uchar c"
  using chr_of_eq_iff by metis

text \<open>Evaluation of concrete characters.\<close>

lemmas char_eval = chr_of_eq_iff eq_chr_of_iff uchar_def schar_def

lemma schar_bounds: "-128 \<le> schar c" "schar c < 128"
  using uchar_less [of c] by (auto simp: schar_def simp del: uchar_less)

lemma schar_inject [simp]: "schar a = schar b \<longleftrightarrow> a = b"
  using uchar_less [of a] uchar_less [of b] uchar_inject [of a b]
  by (auto simp: schar_def simp del: uchar_less uchar_inject split: if_splits)

definition is_digit :: "char \<Rightarrow> bool" where
  "is_digit c \<longleftrightarrow> 48 \<le> uchar c \<and> uchar c \<le> 57"

definition is_lower :: "char \<Rightarrow> bool" where
  "is_lower c \<longleftrightarrow> 97 \<le> uchar c \<and> uchar c \<le> 122"

definition is_upper :: "char \<Rightarrow> bool" where
  "is_upper c \<longleftrightarrow> 65 \<le> uchar c \<and> uchar c \<le> 90"

definition is_space :: "char \<Rightarrow> bool" where
  "is_space c \<longleftrightarrow> uchar c = 32 \<or> (9 \<le> uchar c \<and> uchar c \<le> 13)"

definition toupper :: "char \<Rightarrow> char" where
  "toupper c = (if is_lower c then chr_of (uchar c - 32) else c)"

definition tolower :: "char \<Rightarrow> char" where
  "tolower c = (if is_upper c then chr_of (uchar c + 32) else c)"

lemma toupper_idem [simp]: "toupper (toupper c) = toupper c"
  by (auto simp: toupper_def is_lower_def)

section \<open>C strings\<close>

definition cstr :: "bytes \<Rightarrow> string" where
  "cstr s = takeWhile (\<lambda>c. c \<noteq> NUL) s"

lemma cstr_Nil [simp]: "cstr [] = []"
  by (simp add: cstr_def)

lemma cstr_no_nul [simp]: "NUL \<notin> set (cstr s)"
  by (auto simp: cstr_def dest: set_takeWhileD)

lemma cstr_id: "NUL \<notin> set s \<Longrightarrow> cstr s = s"
  by (auto simp: cstr_def takeWhile_eq_all_conv)

lemma cstr_idem [simp]: "cstr (cstr s) = cstr s"
  by (simp add: cstr_id)

lemma length_cstr_le: "length (cstr s) \<le> length s"
  by (simp add: cstr_def length_takeWhile_le)

text \<open>\<open>strcasecmp\<close> and \<open>strncasecmp\<close> as tests for equality, \<open>strcmp\<close> is equality.\<close>

definition strcaseeq :: "string \<Rightarrow> string \<Rightarrow> bool" where
  "strcaseeq s t \<longleftrightarrow> map toupper s = map toupper t"

definition strncaseeq :: "nat \<Rightarrow> string \<Rightarrow> string \<Rightarrow> bool" where
  "strncaseeq n s t \<longleftrightarrow> strcaseeq (take n s) (take n t)"

definition strneq :: "nat \<Rightarrow> string \<Rightarrow> string \<Rightarrow> bool" where
  "strneq n s t \<longleftrightarrow> take n s = take n t"

lemma strcaseeq_refl [simp]: "strcaseeq s s"
  by (simp add: strcaseeq_def)

lemma strcaseeq_sym: "strcaseeq s t \<Longrightarrow> strcaseeq t s"
  by (simp add: strcaseeq_def)

lemma strcaseeq_trans: "strcaseeq s t \<Longrightarrow> strcaseeq t u \<Longrightarrow> strcaseeq s u"
  by (simp add: strcaseeq_def)

lemma strneq_prefix: "strneq (length p) s p \<longleftrightarrow> prefix p s"
  by (metis strneq_def append_eq_conv_conj append_take_drop_id order_refl prefix_def take_all)

text \<open>\<open>strstr\<close>: the offset of the first occurrence.\<close>

fun strstr :: "string \<Rightarrow> string \<Rightarrow> nat option" where
  "strstr [] p = (if p = [] then Some 0 else None)"
| "strstr (c # s) p = (if prefix p (c # s) then Some 0 else map_option Suc (strstr s p))"

definition contains_str :: "string \<Rightarrow> string \<Rightarrow> bool" where
  "contains_str s p \<longleftrightarrow> strstr s p \<noteq> None"

lemma contains_str_iff_sublist: "contains_str s p \<longleftrightarrow> sublist p s"
  by (induction s) (auto simp: contains_str_def sublist_Cons_right)

lemma contains_str_append:
  "contains_str s p \<Longrightarrow> contains_str (t @ s) p"
  "contains_str s p \<Longrightarrow> contains_str (s @ t) p"
  by (metis contains_str_iff_sublist sublist_append)+

lemma strstr_Some:
  assumes "strstr s p = Some n"
  shows "n \<le> length s" "prefix p (drop n s)" "\<forall>m < n. \<not> prefix p (drop m s)"
  using assms
  by (induction s arbitrary: n)
     (auto split: if_splits simp: less_Suc_eq_0_disj)

lemma strstr_None: "strstr s p = None \<longleftrightarrow> \<not> sublist p s"
  using contains_str_iff_sublist [of s p] by (auto simp: contains_str_def)

lemma strstr_iff:
  "strstr s p = Some n \<longleftrightarrow>
     n + length p \<le> length s \<and> prefix p (drop n s) \<and> (\<forall>m < n. \<not> prefix p (drop m s))"
proof
  assume "strstr s p = Some n"
  then show "n + length p \<le> length s \<and> prefix p (drop n s) \<and> (\<forall>m < n. \<not> prefix p (drop m s))"
    using strstr_Some [of s p n] prefix_length_le [of p "drop n s"] by auto
next
  assume r: "n + length p \<le> length s \<and> prefix p (drop n s) \<and> (\<forall>m < n. \<not> prefix p (drop m s))"
  then have "sublist p s"
    by (metis append_take_drop_id prefix_imp_sublist sublist_append)
  then obtain m where m: "strstr s p = Some m" using strstr_None [of s p] by auto
  then show "strstr s p = Some n"
    using r strstr_Some [OF m] by (metis linorder_neqE_nat)
qed

text \<open>A text in front of a pattern in which (and across whose end) the pattern does not occur.\<close>

definition clear_of :: "string \<Rightarrow> string \<Rightarrow> bool" where
  "clear_of p s \<longleftrightarrow> \<not> sublist p (s @ butlast p)"

lemma clear_of_Nil: "p \<noteq> [] \<Longrightarrow> clear_of p []"
  using sublist_length_le [of p "butlast p"] by (cases p) (auto simp: clear_of_def)

lemma prefix_drop_less:
  assumes "prefix p (drop m (s @ p @ rest))" "m < length s" "p \<noteq> []"
  shows "prefix p (drop m (s @ butlast p))"
proof -
  have "length p \<le> length (drop m (s @ butlast p))" using assms(2,3) by (cases p) auto
  moreover have "prefix (drop m (s @ butlast p)) (drop m (s @ p @ rest))"
    using assms(2,3) by (cases p rule: rev_cases) (auto simp: prefix_def)
  ultimately show ?thesis using assms(1) by (meson prefix_length_prefix)
qed

lemma strstr_clear:
  assumes "clear_of p s" "p \<noteq> []"
  shows "strstr (s @ p @ rest) p = Some (length s)"
proof -
  have "\<not> prefix p (drop m (s @ p @ rest))" if "m < length s" for m
    using prefix_drop_less [OF _ that assms(2), of rest] assms(1)
    by (metis append_take_drop_id clear_of_def prefix_imp_sublist sublist_append)
  then show ?thesis by (auto simp: strstr_iff)
qed

fun strchr :: "string \<Rightarrow> char \<Rightarrow> nat option" where
  "strchr [] c = None"
| "strchr (d # s) c = (if d = c then Some 0 else map_option Suc (strchr s c))"

lemma strchr_None [simp]: "strchr s c = None \<longleftrightarrow> c \<notin> set s"
  by (induction s) auto

lemma strchr_Some:
  assumes "strchr s c = Some n"
  shows "n < length s" "s ! n = c" "c \<notin> set (take n s)"
  using assms by (induction s arbitrary: n) (auto split: if_splits)

lemma strchr_append:
  "c \<notin> set w \<Longrightarrow> strchr (w @ c # s) c = Some (length w)"
  by (induction w) auto

text \<open>\<open>strrchr\<close>: the offset of the last occurrence.\<close>

definition strrchr :: "string \<Rightarrow> char \<Rightarrow> nat option" where
  "strrchr s c = map_option (\<lambda>i. length s - 1 - i) (strchr (rev s) c)"

text \<open>\<open>atoi\<close>: leading white space, a sign, the digits that follow.\<close>

fun digits_val :: "nat \<Rightarrow> string \<Rightarrow> nat" where
  "digits_val acc [] = acc"
| "digits_val acc (c # s) =
     (if is_digit c then digits_val (10 * acc + (uchar c - 48)) s else acc)"

definition atoi :: "string \<Rightarrow> int" where
  "atoi s = (let t = dropWhile is_space s in
     case t of
       [] \<Rightarrow> 0
     | c # u \<Rightarrow> (if c = CHR ''-'' then - int (digits_val 0 u)
                else if c = CHR ''+'' then int (digits_val 0 u)
                else int (digits_val 0 t)))"

text \<open>\<open>printf\<close> of a decimal number.\<close>

fun digs :: "nat \<Rightarrow> string" where
  "digs n = (if n < 10 then [chr_of (48 + n)] else digs (n div 10) @ [chr_of (48 + n mod 10)])"

declare digs.simps [simp del]

definition show_nat :: "nat \<Rightarrow> string" where
  "show_nat n = digs n"

definition show_int :: "int \<Rightarrow> string" where
  "show_int i = (if i < 0 then CHR ''-'' # digs (nat (- i)) else digs (nat i))"

lemma is_digit_chr_of: "n < 10 \<Longrightarrow> is_digit (chr_of (48 + n))"
  by (simp add: is_digit_def)

lemma digs_digits: "\<forall>c \<in> set (digs n). is_digit c"
  by (induction n rule: digs.induct)
     (subst digs.simps, auto simp: is_digit_chr_of)

lemma digs_nonempty [simp]: "digs n \<noteq> []"
  by (subst digs.simps) simp

lemma digits_val_snoc:
  "\<forall>c \<in> set s. is_digit c \<Longrightarrow> is_digit d \<Longrightarrow>
   digits_val acc (s @ [d]) = 10 * digits_val acc s + (uchar d - 48)"
  by (induction s arbitrary: acc) auto

lemma digits_val_digs [simp]: "digits_val 0 (digs n) = n"
proof (induction n rule: digs.induct)
  case (1 n)
  show ?case
  proof (cases "n < 10")
    case True
    then show ?thesis by (subst digs.simps) (simp add: is_digit_chr_of)
  next
    case False
    then show ?thesis
      using 1 by (subst digs.simps) (simp add: digits_val_snoc digs_digits is_digit_chr_of)
  qed
qed

text \<open>String literals of the source that hold characters HOL literals cannot: a circumflex stands
  for the double quote, a back quote for the quote, a bar for a line feed, a tilde for carriage
  return and line feed.  \<open>utf8\<close> gives a literal by its bytes.\<close>

definition lit_char :: "char \<Rightarrow> string" where
  "lit_char c =
    (if c = CHR ''^'' then [QUOTE] else if c = CHR 0x60 then [CHR 0x27]
     else if c = CHR ''|'' then [LF] else if c = CHR ''~'' then [CR, LF] else [c])"

definition lit :: "string \<Rightarrow> string" where
  "lit s = concat (map lit_char s)"

definition utf8 :: "nat list \<Rightarrow> string" where
  "utf8 bs = map chr_of bs"

lemma lit_simps [simp]: "lit [] = []" "lit (c # s) = lit_char c @ lit s"
  by (simp_all add: lit_def)

section \<open>Byte arrays\<close>

text \<open>\<open>memcpy (buf + off, src, |src|)\<close> into an array.\<close>

definition mem_write :: "bytes \<Rightarrow> nat \<Rightarrow> bytes \<Rightarrow> bytes" where
  "mem_write buf off src = take off buf @ src @ drop (off + length src) buf"

lemma length_mem_write [simp]:
  "off + length src \<le> length buf \<Longrightarrow> length (mem_write buf off src) = length buf"
  by (simp add: mem_write_def)

lemma take_mem_write [simp]:
  "off \<le> length buf \<Longrightarrow> take (off + length src) (mem_write buf off src) = take off buf @ src"
  by (simp add: mem_write_def)

lemma take_mem_write_before [simp]:
  "n \<le> off \<Longrightarrow> off \<le> length buf \<Longrightarrow> take n (mem_write buf off src) = take n buf"
  by (simp add: mem_write_def min_def)

text \<open>The bytes between two offsets.\<close>

definition bslice :: "nat \<Rightarrow> nat \<Rightarrow> bytes \<Rightarrow> bytes" where
  "bslice i j buf = take (j - i) (drop i buf)"

lemma bslice_empty [simp]: "bslice i i buf = []"
  by (simp add: bslice_def)

lemma bslice_mem_write:
  "i \<le> off \<Longrightarrow> off \<le> length buf \<Longrightarrow>
   bslice i (off + length src) (mem_write buf off src) = bslice i off buf @ src"
  by (simp add: bslice_def mem_write_def drop_take)

lemma bslice_cut [simp]:
  "i + n \<le> j \<Longrightarrow> take n (bslice i j buf) @ bslice (i + n) j buf = bslice i j buf"
  using append_take_drop_id [of n "bslice i j buf"] by (simp add: bslice_def drop_take add.commute)

section \<open>Options\<close>

text \<open>Reading through a pointer with a value for the null pointer.\<close>

definition opt :: "'a \<Rightarrow> 'a option \<Rightarrow> 'a" where
  "opt d x = (case x of None \<Rightarrow> d | Some y \<Rightarrow> y)"

lemma opt_simps [simp]: "opt d None = d" "opt d (Some x) = x"
  by (simp_all add: opt_def)

end
