(* ===== verification/Types.thy ===== *)
theory Types
  imports Prelude
begin

text \<open>
  The data of the server: the constants of \<open>src/src/defines.h\<close> as datatypes, the
  \<open>struct request\<close> of \<open>src/src/globals.h\<close> as a record, and the global variables the
  request handling reads and writes (the three request queues, the two \<open>fd_set\<close>s of blocked
  descriptors, the counters of \<open>struct status\<close>) as the record \<open>server\<close>.  A request is named by
  a number, its address; the memory of all requests is a function from addresses.
\<close>

section \<open>Constants\<close>

datatype rstatus =
    READ_HEADER | ONE_CR | ONE_LF | TWO_CR | BODY_READ | BODY_WRITE
  | WRITE | PIPE_READ | PIPE_WRITE | CLOSE | REBOOT | LANIP_CHANGE

datatype cgi_status = CGI_READ | CGI_WRITE | CGI_CLOSE

datatype cgi_kind = NOT_CGI | CGI | NPH | JSON

datatype alias_type = ALIAS | SCRIPTALIAS | REDIRECT

datatype ka_status = KA_INACTIVE | KA_STOPPED | KA_ACTIVE

datatype http_method =
    M_INVALID | M_SHORT | M_GET | M_HEAD | M_PUT | M_POST | M_DELETE | M_LINK | M_UNLINK

text \<open>The numbering the code relies on when it compares statuses with \<open><\<close>.\<close>

fun status_num :: "rstatus \<Rightarrow> nat" where
  "status_num READ_HEADER = 0"
| "status_num ONE_CR = 1"
| "status_num ONE_LF = 2"
| "status_num TWO_CR = 3"
| "status_num BODY_READ = 4"
| "status_num BODY_WRITE = 5"
| "status_num WRITE = 6"
| "status_num PIPE_READ = 7"
| "status_num PIPE_WRITE = 8"
| "status_num CLOSE = 9"
| "status_num REBOOT = 10"
| "status_num LANIP_CHANGE = 11"

definition MAX_HEADER_LENGTH :: nat where "MAX_HEADER_LENGTH = 2048"
definition CLIENT_STREAM_SIZE :: nat where "CLIENT_STREAM_SIZE = 32768"
definition BUFFER_SIZE :: nat where "BUFFER_SIZE = CLIENT_STREAM_SIZE"
definition SOCKETBUF_SIZE :: nat where "SOCKETBUF_SIZE = 4096"
definition REQUEST_TIMEOUT :: int where "REQUEST_TIMEOUT = 60"

text \<open>An order on the statuses by their number.\<close>

lemma status_num_inject [simp]: "status_num a = status_num b \<longleftrightarrow> a = b"
  by (cases a; cases b) simp_all

instantiation rstatus :: linorder
begin

definition less_eq_rstatus :: "rstatus \<Rightarrow> rstatus \<Rightarrow> bool" where
  "less_eq_rstatus a b \<longleftrightarrow> status_num a \<le> status_num b"

definition less_rstatus :: "rstatus \<Rightarrow> rstatus \<Rightarrow> bool" where
  "less_rstatus a b \<longleftrightarrow> status_num a < status_num b"

instance
  by standard (auto simp: less_eq_rstatus_def less_rstatus_def)

end

definition CLIENT_WRITABLE :: "rstatus \<Rightarrow> bool" where
  "CLIENT_WRITABLE s \<longleftrightarrow> s = WRITE \<or> s = PIPE_WRITE"

definition CLIENT_READABLE :: "rstatus \<Rightarrow> bool" where
  "CLIENT_READABLE s \<longleftrightarrow> s < BODY_WRITE"

lemma CLIENT_READABLE_iff [simp]:
  "CLIENT_READABLE s \<longleftrightarrow> s \<in> {READ_HEADER, ONE_CR, ONE_LF, TWO_CR, BODY_READ}"
  by (cases s) (simp_all add: CLIENT_READABLE_def less_rstatus_def)

section \<open>The request\<close>

text \<open>
  Pointers into \<open>client_stream\<close> and \<open>buffer\<close> (\<open>header_line\<close>, \<open>header_end\<close>) are offsets, a
  pointer to an allocated C string is an optional string, the null terminated vector
  \<open>cgi_env\<close> is the list of its entries (so \<open>cgi_env_index\<close> is its length).
\<close>

record request =
  r_fd :: int
  r_pathname :: "string option"
  r_status :: rstatus
  r_simple :: bool
  r_keepalive :: ka_status
  r_kacount :: int
  r_data_fd :: int
  r_filesize :: nat
  r_filepos :: nat
  r_data_mem :: "bytes option"
  r_time_last :: int
  r_method :: http_method
  r_logline :: "string option"
  r_client_stream_pos :: nat
  r_pipeline_start :: nat
  r_header_line :: nat
  r_header_end :: nat
  r_buffer_start :: nat
  r_buffer_end :: nat
  r_buffer_conv :: nat
  r_http_version :: "string option"
  r_response_status :: nat
  r_if_modified_since :: "string option"
  r_remote_ip_addr :: string
  r_local_ip_addr :: "string option"
  r_remote_port :: int
  r_host :: "string option"
  r_last_modified :: int
  r_send_charset :: bool
  r_cgi_status :: cgi_status
  r_is_cgi :: cgi_kind
  r_cgi_env :: "string list"
  r_post_data_fd :: int
  r_post_file_name :: "string option"
  r_path_info :: "string option"
  r_path_translated :: "string option"
  r_script_name :: "string option"
  r_query_string :: "string option"
  r_cookie :: "string option"
  r_content_type :: "string option"
  r_content_length :: "string option"
  r_referer :: "string option"
  r_user_agent :: "string option"
  r_cp_name :: "string option"
  r_cp_table :: "bytes option"
  r_bytesconverted :: nat
  r_authorization :: "string option"
  r_user :: string
  r_request_from :: int
  r_max_buffer_size :: nat
  r_buffer :: bytes
  r_request_uri :: string
  r_client_stream :: bytes

text \<open>
  \<open>memset (req, 0, sizeof (request) - NO_ZERO_FILL_LENGTH)\<close>: every field up to (and with)
  \<open>max_buffer_size\<close> and the pointer \<open>buffer\<close> is zeroed, \<open>request_uri\<close> and \<open>client_stream\<close> are kept.
\<close>

definition zero_request :: "request \<Rightarrow> request" where
  "zero_request r = \<lparr>
     r_fd = 0, r_pathname = None, r_status = READ_HEADER, r_simple = False,
     r_keepalive = KA_INACTIVE, r_kacount = 0, r_data_fd = 0, r_filesize = 0, r_filepos = 0,
     r_data_mem = None, r_time_last = 0, r_method = M_SHORT, r_logline = None,
     r_client_stream_pos = 0, r_pipeline_start = 0, r_header_line = 0, r_header_end = 0,
     r_buffer_start = 0, r_buffer_end = 0, r_buffer_conv = 0, r_http_version = None,
     r_response_status = 0, r_if_modified_since = None, r_remote_ip_addr = [],
     r_local_ip_addr = None, r_remote_port = 0, r_host = None, r_last_modified = 0,
     r_send_charset = False, r_cgi_status = CGI_READ, r_is_cgi = NOT_CGI, r_cgi_env = [],
     r_post_data_fd = 0, r_post_file_name = None, r_path_info = None,
     r_path_translated = None, r_script_name = None, r_query_string = None, r_cookie = None,
     r_content_type = None, r_content_length = None, r_referer = None, r_user_agent = None,
     r_cp_name = None, r_cp_table = None, r_bytesconverted = 0, r_authorization = None,
     r_user = [], r_request_from = 0, r_max_buffer_size = 0, r_buffer = [],
     r_request_uri = r_request_uri r, r_client_stream = r_client_stream r \<rparr>"

definition blank_request :: request where
  "blank_request = \<lparr>
     r_fd = 0, r_pathname = None, r_status = READ_HEADER, r_simple = False,
     r_keepalive = KA_INACTIVE, r_kacount = 0, r_data_fd = 0, r_filesize = 0, r_filepos = 0,
     r_data_mem = None, r_time_last = 0, r_method = M_SHORT, r_logline = None,
     r_client_stream_pos = 0, r_pipeline_start = 0, r_header_line = 0, r_header_end = 0,
     r_buffer_start = 0, r_buffer_end = 0, r_buffer_conv = 0, r_http_version = None,
     r_response_status = 0, r_if_modified_since = None, r_remote_ip_addr = [],
     r_local_ip_addr = None, r_remote_port = 0, r_host = None, r_last_modified = 0,
     r_send_charset = False, r_cgi_status = CGI_READ, r_is_cgi = NOT_CGI, r_cgi_env = [],
     r_post_data_fd = 0, r_post_file_name = None, r_path_info = None,
     r_path_translated = None, r_script_name = None, r_query_string = None, r_cookie = None,
     r_content_type = None, r_content_length = None, r_referer = None, r_user_agent = None,
     r_cp_name = None, r_cp_table = None, r_bytesconverted = 0, r_authorization = None,
     r_user = [], r_request_from = 0, r_max_buffer_size = 0, r_buffer = [],
     r_request_uri = [], r_client_stream = [] \<rparr>"

section \<open>The server\<close>

datatype queue = Q_ready | Q_block | Q_free

record server =
  q_head :: "queue \<Rightarrow> ptr"
  q_next :: "nat \<Rightarrow> ptr"
  q_prev :: "nat \<Rightarrow> ptr"
  reqs :: "nat \<Rightarrow> request"
  block_read_fdset :: "int set"
  block_write_fdset :: "int set"
  st_requests :: int
  st_errors :: int
  st_connections :: int
  total_connections :: int

section \<open>Logged in users\<close>

text \<open>\<open>struct user_info\<close> and \<open>struct errlogin_entry\<close>, the members of two global lists.\<close>

record user_info =
  u_priv :: nat
  u_directory :: string
  u_last_time :: int
  u_remote_ip_addr :: string
  u_logouttime :: int
  u_session_id :: string

record errlogin_entry =
  el_login_count :: int
  el_last_time :: int
  el_remote_ip_addr :: string

section \<open>Configuration and tables\<close>

text \<open>\<open>struct alias\<close>, and the hash tables the configuration fills.  A table is a function from its
  index to the chain stored there, in the order of the \<open>next\<close> pointers.\<close>

record alias_rec =
  a_fakename :: string
  a_realname :: string
  a_type :: alias_type
  a_fake_len :: nat
  a_real_len :: nat

type_synonym chain = "(string \<times> string) list"

record browsermatch =
  bm_browser :: string
  bm_browser_len :: nat
  bm_type :: nat

record tables =
  mime_hashtable :: "int \<Rightarrow> chain"
  passwd_hashtable :: "int \<Rightarrow> chain"
  virtualhost_hashtable :: "int \<Rightarrow> chain"
  browsermatch_hashtable :: "int \<Rightarrow> browsermatch list"
  alias_hashtable :: "nat \<Rightarrow> alias_rec list"
  cp_url_hashtable :: "nat \<Rightarrow> alias_rec list"
  cp_hashtable :: "int \<Rightarrow> (string \<times> bytes) list"
  cp_browsers :: "(string \<times> string) list"
  virtualhost :: bool
  auth_hashtable :: "nat \<Rightarrow> string list"

definition tables_init :: tables where
  "tables_init = \<lparr>
     mime_hashtable = \<lambda>_. [], passwd_hashtable = \<lambda>_. [], virtualhost_hashtable = \<lambda>_. [],
     browsermatch_hashtable = \<lambda>_. [], alias_hashtable = \<lambda>_. [], cp_url_hashtable = \<lambda>_. [],
     cp_hashtable = \<lambda>_. [], cp_browsers = [], virtualhost = False,
     auth_hashtable = \<lambda>_. [] \<rparr>"

record config =
  server_name :: string
  server_port :: int
  server_admin :: string
  server_root :: string
  server_chroot :: "string option"
  document_root :: string
  user_dir :: "string option"
  dirmaker :: "string option"
  cachedir :: "string option"
  default_type :: string
  local_codepage :: "string option"
  ka_timeout :: int
  ka_max :: int
  lame_duck_mode :: nat

text \<open>A configuration for concrete evaluations.\<close>

definition sample_config :: config where
  "sample_config = \<lparr>
     server_name = ''gw'', server_port = 80, server_admin = ''root'', server_root = ''/etc/boa'',
     server_chroot = None, document_root = ''/var/www'', user_dir = Some ''public_html'',
     dirmaker = None, cachedir = None,
     default_type = ''text/plain'', local_codepage = None, ka_timeout = 10, ka_max = 1000,
     lame_duck_mode = 0 \<rparr>"

definition upd_req :: "nat \<Rightarrow> (request \<Rightarrow> request) \<Rightarrow> server \<Rightarrow> server" where
  "upd_req x f s = s \<lparr> reqs := (reqs s) (x := f (reqs s x)) \<rparr>"

end
