(* ===== verification/Queue.thy ===== *)
theory Queue
  imports Types
begin

text \<open>
  The request queues of \<open>src/src/queue.c\<close>: doubly linked lists threaded through the
  requests.  \<open>dequeue\<close>, \<open>enqueue\<close>, \<open>block_request\<close> and \<open>ready_request\<close> work on the links; the
  interface \<open>request_queues\<close> says what a queue promises to its clients in terms of the list of
  its members, and the interpretation \<open>rq\<close> shows that the links keep that promise.
\<close>

section \<open>Operations\<close>

definition dequeue :: "queue \<Rightarrow> nat \<Rightarrow> server \<Rightarrow> server" where
  "dequeue q x s =
    (let s = (if q_head s q = Some x then s \<lparr> q_head := (q_head s) (q := q_next s x) \<rparr> else s);
         s = (case q_prev s x of
                None \<Rightarrow> s
              | Some p \<Rightarrow> s \<lparr> q_next := (q_next s) (p := q_next s x) \<rparr>);
         s = (case q_next s x of
                None \<Rightarrow> s
              | Some n \<Rightarrow> s \<lparr> q_prev := (q_prev s) (n := q_prev s x) \<rparr>);
         s = s \<lparr> q_next := (q_next s) (x := None) \<rparr>
     in s \<lparr> q_prev := (q_prev s) (x := None) \<rparr>)"

definition enqueue :: "queue \<Rightarrow> nat \<Rightarrow> server \<Rightarrow> server" where
  "enqueue q x s =
    (let s = (case q_head s q of
                None \<Rightarrow> s
              | Some h \<Rightarrow> s \<lparr> q_prev := (q_prev s) (h := Some x) \<rparr>);
         s = s \<lparr> q_next := (q_next s) (x := q_head s q) \<rparr>;
         s = s \<lparr> q_prev := (q_prev s) (x := None) \<rparr>
     in s \<lparr> q_head := (q_head s) (q := Some x) \<rparr>)"

definition block_request :: "nat \<Rightarrow> server \<Rightarrow> server" where
  "block_request x s =
    (let s = enqueue Q_block x (dequeue Q_ready x s);
         r = reqs s x
     in if r_buffer_end r \<noteq> 0
        then s \<lparr> block_write_fdset := insert (r_fd r) (block_write_fdset s) \<rparr>
        else case r_status r of
          PIPE_WRITE \<Rightarrow> s \<lparr> block_write_fdset := insert (r_fd r) (block_write_fdset s) \<rparr>
        | WRITE \<Rightarrow> s \<lparr> block_write_fdset := insert (r_fd r) (block_write_fdset s) \<rparr>
        | PIPE_READ \<Rightarrow> s \<lparr> block_read_fdset := insert (r_data_fd r) (block_read_fdset s) \<rparr>
        | BODY_WRITE \<Rightarrow>
            s \<lparr> block_write_fdset := insert (r_post_data_fd r) (block_write_fdset s) \<rparr>
        | _ \<Rightarrow> s \<lparr> block_read_fdset := insert (r_fd r) (block_read_fdset s) \<rparr>)"

definition ready_request :: "nat \<Rightarrow> server \<Rightarrow> server" where
  "ready_request x s =
    (let s = enqueue Q_ready x (dequeue Q_block x s);
         r = reqs s x
     in if r_buffer_end r \<noteq> 0
        then s \<lparr> block_write_fdset := block_write_fdset s - {r_fd r} \<rparr>
        else case r_status r of
          PIPE_WRITE \<Rightarrow> s \<lparr> block_write_fdset := block_write_fdset s - {r_fd r} \<rparr>
        | WRITE \<Rightarrow> s \<lparr> block_write_fdset := block_write_fdset s - {r_fd r} \<rparr>
        | PIPE_READ \<Rightarrow> s \<lparr> block_read_fdset := block_read_fdset s - {r_data_fd r} \<rparr>
        | BODY_WRITE \<Rightarrow>
            s \<lparr> block_write_fdset := block_write_fdset s - {r_post_data_fd r} \<rparr>
        | _ \<Rightarrow> s \<lparr> block_read_fdset := block_read_fdset s - {r_fd r} \<rparr>)"

section \<open>The lists behind the links\<close>

text \<open>\<open>dll nx pv p h xs\<close>: the links from \<open>h\<close> on run through \<open>xs\<close>, whose first member has \<open>p\<close>
  before it.\<close>

fun dll :: "(nat \<Rightarrow> ptr) \<Rightarrow> (nat \<Rightarrow> ptr) \<Rightarrow> ptr \<Rightarrow> ptr \<Rightarrow> nat list \<Rightarrow> bool" where
  "dll nx pv p h [] \<longleftrightarrow> h = None"
| "dll nx pv p h (x # xs) \<longleftrightarrow> h = Some x \<and> pv x = p \<and> dll nx pv (Some x) (nx x) xs"

definition holds :: "server \<Rightarrow> queue \<Rightarrow> nat list \<Rightarrow> bool" where
  "holds s q xs \<longleftrightarrow> distinct xs \<and> dll (q_next s) (q_prev s) None (q_head s q) xs"

definition unlinked :: "server \<Rightarrow> nat \<Rightarrow> bool" where
  "unlinked s x \<longleftrightarrow> q_next s x = None \<and> q_prev s x = None"

text \<open>The three queues hold these lists, and no request is in two of them.\<close>

definition queues_ok :: "server \<Rightarrow> (queue \<Rightarrow> nat list) \<Rightarrow> bool" where
  "queues_ok s L \<longleftrightarrow> (\<forall>q. holds s q (L q)) \<and> (\<forall>q q'. q \<noteq> q' \<longrightarrow> set (L q) \<inter> set (L q') = {})"

lemma dll_cong:
  assumes "dll nx pv p h xs"
    and "\<And>x. x \<in> set xs \<Longrightarrow> nx' x = nx x" "\<And>x. x \<in> set xs \<Longrightarrow> pv' x = pv x"
  shows "dll nx' pv' p h xs"
  using assms by (induction xs arbitrary: p h) auto

lemma dll_append:
  "dll nx pv p h (xs @ y # ys) \<longleftrightarrow>
   (if xs = [] then h = Some y \<and> pv y = p
    else dll (nx (last xs := None)) pv p h xs \<and> nx (last xs) = Some y \<and> pv y = Some (last xs)) \<and>
   dll nx pv (Some y) (nx y) ys" if "distinct xs"
  using that
proof (induction xs arbitrary: p h)
  case (Cons a xs)
  show ?case
  proof (cases "xs = []")
    case True then show ?thesis by auto
  next
    case False
    then have "last xs \<in> set xs" by simp
    then have "a \<noteq> last xs" using Cons.prems by auto
    then show ?thesis using Cons False by auto
  qed
qed simp

lemma dll_unique: "dll nx pv p h xs \<Longrightarrow> dll nx pv p h ys \<Longrightarrow> xs = ys"
proof (induction xs arbitrary: p h ys)
  case Nil then show ?case by (cases ys) auto
next
  case (Cons x xs) then show ?case by (cases ys) auto
qed

lemma holds_unique: "holds s q xs \<Longrightarrow> holds s q ys \<Longrightarrow> xs = ys"
  by (auto simp: holds_def dest: dll_unique)

text \<open>Where a member of a queue sits: the links around it.\<close>

lemma dll_split:
  assumes "dll nx pv p h (as @ x # bs)" "distinct (as @ x # bs)"
  shows "pv x = (if as = [] then p else Some (last as))"
    and "nx x = (if bs = [] then None else Some (hd bs))"
    and "h = (if as = [] then Some x else Some (hd as))"
  using assms
proof (induction as arbitrary: p h)
  case Nil
  { case 1 then show ?case by simp }
  { case 2 then show ?case by (cases bs) auto }
  { case 3 then show ?case by simp }
next
  case (Cons a as)
  { case 1 with Cons(1) [of "Some a" "nx a"] show ?case by simp }
  { case 2 with Cons(2) [of "Some a" "nx a"] show ?case by simp }
  { case 3 then show ?case by simp }
qed

text \<open>Taking a member out of the links that run through it.\<close>

lemma dll_remove:
  assumes "dll nx pv p h (as @ x # bs)" "distinct (as @ x # bs)"
    and out: "\<And>y. y \<in> set as \<Longrightarrow> y \<noteq> last as \<Longrightarrow> nx' y = nx y"
             "as \<noteq> [] \<Longrightarrow> nx' (last as) = nx x"
             "\<And>y. y \<in> set bs \<Longrightarrow> nx' y = nx y"
             "\<And>y. y \<in> set as \<Longrightarrow> pv' y = pv y"
             "bs \<noteq> [] \<Longrightarrow> pv' (hd bs) = pv x"
             "\<And>y. y \<in> set bs \<Longrightarrow> y \<noteq> hd bs \<Longrightarrow> pv' y = pv y"
  shows "dll nx' pv' p (if as = [] then nx x else h) (as @ bs)"
  using assms
proof (induction as arbitrary: p h)
  case Nil
  show ?case
  proof (cases bs)
    case (Cons b bs')
    from Nil Cons have "b \<notin> set bs'" by auto
    have "dll nx pv (Some b) (nx b) bs'" using Nil Cons by auto
    then have "dll nx' pv' (Some b) (nx b) bs'"
      by (rule dll_cong) (use Nil Cons \<open>b \<notin> set bs'\<close> in auto)
    then show ?thesis using Nil Cons by auto
  qed (use Nil in auto)
next
  case (Cons a as)
  have "dll nx' pv' (Some a) (if as = [] then nx x else nx a) (as @ bs)"
    by (rule Cons.IH) (use Cons.prems in \<open>auto split: if_splits\<close>)
  then show ?case
  proof (cases "as = []")
    case False
    then have "last as \<in> set as" by simp
    moreover have "a \<notin> set as" using Cons.prems(2) by simp
    ultimately have "a \<noteq> last as" by blast
    then have "nx' a = nx a" using Cons.prems(3) [of a] False by simp
    moreover have "pv' a = pv a" using Cons.prems(6) [of a] by simp
    ultimately show ?thesis
      using Cons.prems(1) False
        \<open>dll nx' pv' (Some a) (if as = [] then nx x else nx a) (as @ bs)\<close> by simp
  qed (use Cons.prems in auto)
qed

lemma dequeue_head [queue_simps]:
  "q_head (dequeue q x s) =
   (if q_head s q = Some x then (q_head s) (q := q_next s x) else q_head s)"
  by (simp add: dequeue_def Let_def split: option.split)

lemma enqueue_head [queue_simps]: "q_head (enqueue q x s) = (q_head s) (q := Some x)"
  by (simp add: enqueue_def Let_def split: option.split)

lemma dequeue_reqs [simp]: "reqs (dequeue q x s) = reqs s"
  and enqueue_reqs [simp]: "reqs (enqueue q x s) = reqs s"
  by (simp_all add: dequeue_def enqueue_def Let_def split: option.split)

lemma dequeue_fdsets [simp]:
  "block_read_fdset (dequeue q x s) = block_read_fdset s"
  "block_write_fdset (dequeue q x s) = block_write_fdset s"
  "block_read_fdset (enqueue q x s) = block_read_fdset s"
  "block_write_fdset (enqueue q x s) = block_write_fdset s"
  by (simp_all add: dequeue_def enqueue_def Let_def split: option.split)

lemma dequeue_next [queue_simps]:
  "q_next (dequeue q x s) y =
   (if y = x then None else if q_prev s x = Some y then q_next s x else q_next s y)"
  by (auto simp: dequeue_def Let_def split: option.split)

lemma dequeue_prev [queue_simps]:
  assumes "q_prev s x \<noteq> Some x"
  shows "q_prev (dequeue q x s) y =
   (if y = x then None else if q_next s x = Some y then q_prev s x else q_prev s y)"
  using assms by (auto simp: dequeue_def Let_def split: option.split)

lemma enqueue_next [queue_simps]:
  "q_next (enqueue q x s) y = (if y = x then q_head s q else q_next s y)"
  by (auto simp: enqueue_def Let_def split: option.split)

lemma enqueue_prev [queue_simps]:
  "q_prev (enqueue q x s) y =
   (if y = x then None else if q_head s q = Some y then Some x else q_prev s y)"
  by (auto simp: enqueue_def Let_def split: option.split)

section \<open>The interface of the queues\<close>

text \<open>
  What the clients rely on: \<open>ok s L\<close> says that queue \<open>q\<close> holds the requests \<open>L q\<close> in this order
  and that no request is in two queues; removing and adding act on the lists.
\<close>

locale request_queues =
  fixes ok :: "'s \<Rightarrow> ('q \<Rightarrow> 'a list) \<Rightarrow> bool"
    and deq :: "'q \<Rightarrow> 'a \<Rightarrow> 's \<Rightarrow> 's"
    and enq :: "'q \<Rightarrow> 'a \<Rightarrow> 's \<Rightarrow> 's"
  assumes ok_distinct: "ok s L \<Longrightarrow> distinct (L q)"
    and ok_disjoint: "ok s L \<Longrightarrow> q \<noteq> q' \<Longrightarrow> set (L q) \<inter> set (L q') = {}"
    and deq_ok: "ok s L \<Longrightarrow> x \<in> set (L q) \<Longrightarrow> ok (deq q x s) (L (q := remove1 x (L q)))"
    and enq_ok: "ok s L \<Longrightarrow> \<forall>q'. x \<notin> set (L q') \<Longrightarrow> ok (enq q x s) (L (q := x # L q))"
begin

lemma removed: "ok s L \<Longrightarrow> x \<in> set (L q) \<Longrightarrow> \<forall>q'. x \<notin> set ((L (q := remove1 x (L q))) q')"
  using ok_distinct [of s L q] ok_disjoint [of s L q] by (auto simp: disjoint_iff)

lemma move_ok:
  assumes "ok s L" "x \<in> set (L q)"
  shows "ok (enq q' x (deq q x s))
           ((L (q := remove1 x (L q))) (q' := x # (L (q := remove1 x (L q))) q'))"
  by (rule enq_ok [OF deq_ok [OF assms] removed [OF assms]])

text \<open>A move between two queues keeps every other request where it was.\<close>

lemma move_members:
  assumes "ok s L" "x \<in> set (L q)" "q \<noteq> q'"
  defines "L' \<equiv> (L (q := remove1 x (L q))) (q' := x # L q')"
  shows "ok (enq q' x (deq q x s)) L'" "x \<in> set (L' q')" "x \<notin> set (L' q)"
    and "\<forall>y q''. y \<noteq> x \<longrightarrow> (y \<in> set (L' q'') \<longleftrightarrow> y \<in> set (L q''))"
  using move_ok [OF assms(1,2), of q'] ok_distinct [OF assms(1), of q] assms(3)
  by (auto simp: L'_def)

end

section \<open>The links implement the interface\<close>

lemma holds_enqueue_other:
  assumes "holds s q' ys" "x \<notin> set ys" "q' \<noteq> q" "holds s q xs" "set xs \<inter> set ys = {}"
  shows "holds (enqueue q x s) q' ys"
proof -
  have "q_head s q = Some y \<Longrightarrow> y \<in> set xs" for y
    using assms(4) by (cases xs) (auto simp: holds_def)
  then have "y \<in> set ys \<Longrightarrow> q_head s q \<noteq> Some y" for y
    using assms(5) by blast
  then have "y \<in> set ys \<Longrightarrow> q_next (enqueue q x s) y = q_next s y"
    "y \<in> set ys \<Longrightarrow> q_prev (enqueue q x s) y = q_prev s y" for y
    using assms(2) by (auto simp only: enqueue_next enqueue_prev split: if_splits)
  then have "dll (q_next (enqueue q x s)) (q_prev (enqueue q x s)) None (q_head s q') ys"
    using assms(1) dll_cong unfolding holds_def by metis
  then show ?thesis using assms(1,3) by (auto simp: holds_def queue_simps)
qed

lemma holds_enqueue:
  assumes "holds s q xs" "x \<notin> set xs"
  shows "holds (enqueue q x s) q (x # xs)"
proof (cases xs)
  case Nil
  then show ?thesis using assms by (auto simp: holds_def queue_simps)
next
  case (Cons a ys)
  have "dll (q_next (enqueue q x s)) (q_prev (enqueue q x s)) (Some a) (q_next s a) ys"
    by (rule dll_cong [where nx = "q_next s" and pv = "q_prev s"])
       (use assms Cons in \<open>auto simp: holds_def queue_simps\<close>)
  then show ?thesis using assms Cons by (auto simp: holds_def queue_simps)
qed

lemma holds_links:
  assumes "holds s q xs" "x \<in> set xs"
  obtains as bs where "xs = as @ x # bs" "distinct xs"
    "q_prev s x = (if as = [] then None else Some (last as))"
    "q_next s x = (if bs = [] then None else Some (hd bs))"
    "q_head s q = (if as = [] then Some x else Some (hd as))"
proof -
  obtain as bs where xs: "xs = as @ x # bs" using split_list [OF assms(2)] by blast
  have d: "dll (q_next s) (q_prev s) None (q_head s q) (as @ x # bs)" "distinct (as @ x # bs)"
    using assms(1) xs by (simp_all add: holds_def)
  show ?thesis using that [OF xs] dll_split [OF d] d(2) xs by simp
qed

lemma links_members:
  assumes "holds s q xs" "x \<in> set xs"
  shows "q_prev s x = Some y \<Longrightarrow> y \<in> set xs" "q_next s x = Some y \<Longrightarrow> y \<in> set xs"
    and "q_prev s x \<noteq> Some x"
  by (rule holds_links [OF assms], auto split: if_splits intro!: last_in_set hd_in_set)+

lemma holds_dequeue:
  assumes "holds s q xs" "x \<in> set xs"
  shows "holds (dequeue q x s) q (remove1 x xs)"
proof -
  from holds_links [OF assms] obtain as bs where xs: "xs = as @ x # bs" and dis: "distinct xs"
    and pv: "q_prev s x = (if as = [] then None else Some (last as))"
    and nx: "q_next s x = (if bs = [] then None else Some (hd bs))"
    and hd: "q_head s q = (if as = [] then Some x else Some (hd as))" .
  have np: "q_prev s x \<noteq> Some x" using links_members(3) [OF assms] .
  have "last as \<notin> set bs" if "as \<noteq> []"
    using dis xs that last_in_set [of as] by (auto simp: disjoint_iff)
  moreover have "hd bs \<notin> set as" if "bs \<noteq> []"
    using dis xs that hd_in_set [of bs] by (auto simp: disjoint_iff)
  ultimately
  have "dll (q_next (dequeue q x s)) (q_prev (dequeue q x s)) None
          (if as = [] then q_next s x else q_head s q) (as @ bs)"
    using assms(1) xs dis pv nx
    by (intro dll_remove [where nx = "q_next s" and pv = "q_prev s" and x = x])
       (auto simp: holds_def dequeue_next dequeue_prev [OF np] split: if_splits)
  moreover have "hd as \<noteq> x" if "as \<noteq> []"
    using dis xs hd_in_set [OF that] by auto
  ultimately show ?thesis
    using xs dis hd by (auto simp: holds_def dequeue_head remove1_append)
qed

lemma holds_dequeue_other:
  assumes "holds s q' ys" "q' \<noteq> q" "holds s q xs" "x \<in> set xs" "set xs \<inter> set ys = {}"
  shows "holds (dequeue q x s) q' ys"
proof -
  have np: "q_prev s x \<noteq> Some x" using links_members(3) [OF assms(3,4)] .
  note m = links_members(1,2) [OF assms(3,4)]
  have "dll (q_next (dequeue q x s)) (q_prev (dequeue q x s)) None (q_head s q') ys"
    by (rule dll_cong [where nx = "q_next s" and pv = "q_prev s"])
       (use assms m in \<open>auto simp: holds_def dequeue_next dequeue_prev [OF np]\<close>)
  then show ?thesis using assms(1,2) by (auto simp: holds_def dequeue_head)
qed

lemma queues_okD:
  assumes "queues_ok s L"
  shows "holds s q (L q)" "q \<noteq> q' \<Longrightarrow> set (L q) \<inter> set (L q') = {}"
  using assms by (auto simp: queues_ok_def)

interpretation rq: request_queues queues_ok dequeue enqueue
proof
  fix s :: server and L :: "queue \<Rightarrow> nat list" and q q' :: queue and x :: nat
  show "queues_ok s L \<Longrightarrow> distinct (L q)" by (auto simp: queues_ok_def holds_def)
  show "queues_ok s L \<Longrightarrow> q \<noteq> q' \<Longrightarrow> set (L q) \<inter> set (L q') = {}" by (auto simp: queues_ok_def)
  show "queues_ok (dequeue q x s) (L (q := remove1 x (L q)))"
    if ok: "queues_ok s L" and x: "x \<in> set (L q)"
  proof -
    have "holds (dequeue q x s) q'' ((L (q := remove1 x (L q))) q'')" for q''
      using holds_dequeue [OF queues_okD(1) [OF ok] x]
        holds_dequeue_other [OF queues_okD(1) [OF ok] _ queues_okD(1) [OF ok] x]
        queues_okD(2) [OF ok] by simp
    then show ?thesis
      using queues_okD(2) [OF ok] set_remove1_subset [of x "L q"]
      by (simp add: queues_ok_def) blast
  qed
  show "queues_ok (enqueue q x s) (L (q := x # L q))"
    if ok: "queues_ok s L" and x: "\<forall>q'. x \<notin> set (L q')"
  proof -
    have "holds (enqueue q x s) q'' ((L (q := x # L q)) q'')" for q''
      using holds_enqueue [OF queues_okD(1) [OF ok]]
        holds_enqueue_other [OF queues_okD(1) [OF ok] _ _ queues_okD(1) [OF ok]]
        queues_okD(2) [OF ok] x by simp
    then show ?thesis
      using queues_okD(2) [OF ok] x by (auto simp: queues_ok_def)
  qed
qed


section \<open>Blocking and waking a request\<close>

lemma queues_ok_cong:
  assumes "q_head s' = q_head s" "q_next s' = q_next s" "q_prev s' = q_prev s"
  shows "queues_ok s' L \<longleftrightarrow> queues_ok s L"
  using assms by (simp add: queues_ok_def holds_def)

lemma queues_ok_upd [simp]:
  "queues_ok (s \<lparr> block_read_fdset := R \<rparr>) L \<longleftrightarrow> queues_ok s L"
  "queues_ok (s \<lparr> block_write_fdset := R \<rparr>) L \<longleftrightarrow> queues_ok s L"
  "queues_ok (s \<lparr> reqs := H \<rparr>) L \<longleftrightarrow> queues_ok s L"
  "queues_ok (s \<lparr> st_errors := e \<rparr>) L \<longleftrightarrow> queues_ok s L"
  "queues_ok (s \<lparr> st_requests := e \<rparr>) L \<longleftrightarrow> queues_ok s L"
  "queues_ok (s \<lparr> st_connections := e \<rparr>) L \<longleftrightarrow> queues_ok s L"
  "queues_ok (s \<lparr> total_connections := e \<rparr>) L \<longleftrightarrow> queues_ok s L"
  "queues_ok (upd_req y f s) L \<longleftrightarrow> queues_ok s L"
  by (simp_all add: upd_req_def queues_ok_def holds_def)

text \<open>The descriptor a blocked request waits on, and whether it waits to write.\<close>

definition waits_on :: "request \<Rightarrow> bool \<times> int" where
  "waits_on r =
    (if r_buffer_end r \<noteq> 0 then (True, r_fd r)
     else case r_status r of
       PIPE_WRITE \<Rightarrow> (True, r_fd r)
     | WRITE \<Rightarrow> (True, r_fd r)
     | PIPE_READ \<Rightarrow> (False, r_data_fd r)
     | BODY_WRITE \<Rightarrow> (True, r_post_data_fd r)
     | _ \<Rightarrow> (False, r_fd r))"

lemma block_request_alt:
  "block_request x s =
    (let s' = enqueue Q_block x (dequeue Q_ready x s)
     in case waits_on (reqs s x) of
          (True, d) \<Rightarrow> s' \<lparr> block_write_fdset := insert d (block_write_fdset s) \<rparr>
        | (False, d) \<Rightarrow> s' \<lparr> block_read_fdset := insert d (block_read_fdset s) \<rparr>)"
  by (simp add: block_request_def waits_on_def Let_def split: rstatus.split)

lemma ready_request_alt:
  "ready_request x s =
    (let s' = enqueue Q_ready x (dequeue Q_block x s)
     in case waits_on (reqs s x) of
          (True, d) \<Rightarrow> s' \<lparr> block_write_fdset := block_write_fdset s - {d} \<rparr>
        | (False, d) \<Rightarrow> s' \<lparr> block_read_fdset := block_read_fdset s - {d} \<rparr>)"
  by (simp add: ready_request_def waits_on_def Let_def split: rstatus.split)

lemma block_request_reqs [simp]: "reqs (block_request x s) = reqs s"
  by (simp add: block_request_alt Let_def split: prod.split bool.split)

lemma ready_request_reqs [simp]: "reqs (ready_request x s) = reqs s"
  by (simp add: ready_request_alt Let_def split: prod.split bool.split)

text \<open>A server with three empty queues.\<close>

definition server_init :: server where
  "server_init = \<lparr>
     q_head = \<lambda>_. None, q_next = \<lambda>_. None, q_prev = \<lambda>_. None, reqs = \<lambda>_. blank_request,
     block_read_fdset = {}, block_write_fdset = {},
     st_requests = 0, st_errors = 0, st_connections = 0, total_connections = 0 \<rparr>"

lemma queues_ok_init [simp]: "queues_ok server_init (\<lambda>_. [])"
  by (simp add: queues_ok_def holds_def server_init_def)

lemma queues_ok_one: "queues_ok (enqueue q x server_init) ((\<lambda>_. []) (q := [x]))"
  using rq.enq_ok [OF queues_ok_init, of x q] by (simp add: fun_upd_def)

lemma block_ready_moves:
  assumes "queues_ok s L"
  shows "(x \<in> set (L Q_ready) \<longrightarrow>
           queues_ok (block_request x s)
             (L (Q_ready := remove1 x (L Q_ready), Q_block := x # L Q_block))) \<and>
         (x \<in> set (L Q_block) \<longrightarrow>
           queues_ok (ready_request x s)
             (L (Q_block := remove1 x (L Q_block), Q_ready := x # L Q_ready)))"
  using rq.move_members(1) [OF assms, of x Q_ready Q_block]
    rq.move_members(1) [OF assms, of x Q_block Q_ready]
  by (simp add: block_request_alt ready_request_alt Let_def split: prod.split bool.split)

text \<open>C6: Blocking a request takes it out of the ready list, puts it at the head of the
  blocked list and leaves every other link of the three lists consistent; waking it moves it back to
  the head of the ready list.  No request is lost, duplicated or in two lists.\<close>

theorem block_ready_queues:
  assumes "queues_ok s L"
  shows "(x \<in> set (L Q_ready) \<longrightarrow>
           queues_ok (block_request x s)
             (L (Q_ready := remove1 x (L Q_ready), Q_block := x # L Q_block))) \<and>
         (x \<in> set (L Q_block) \<longrightarrow>
           queues_ok (ready_request x s)
             (L (Q_block := remove1 x (L Q_block), Q_ready := x # L Q_ready)))"
  by (rule block_ready_moves [OF assms])

theorem block_ready_queues_witness:
  "queues_ok (block_request 7 (enqueue Q_ready 7 server_init))
     ((\<lambda>_. []) (Q_ready := [], Q_block := [7])) \<and>
   queues_ok (ready_request 7 (enqueue Q_block 7 server_init))
     ((\<lambda>_. []) (Q_block := [], Q_ready := [7]))"
  using block_ready_queues [OF queues_ok_one, of 7 Q_ready 7]
    block_ready_queues [OF queues_ok_one, of 7 Q_block 7]
  by (simp add: fun_upd_def cong: if_cong)

text \<open>While a request is blocked the server waits on exactly one of its descriptors, in
  the direction its state calls for; waking the unchanged request clears that descriptor again and
  no other.\<close>

theorem block_ready_fdsets:
  "snd (waits_on (reqs s x)) \<in>
     (if fst (waits_on (reqs s x)) then block_write_fdset (block_request x s)
      else block_read_fdset (block_request x s)) \<and>
   block_read_fdset (ready_request x (block_request x s)) =
     (if fst (waits_on (reqs s x)) then block_read_fdset s
      else block_read_fdset s - {snd (waits_on (reqs s x))}) \<and>
   block_write_fdset (ready_request x (block_request x s)) =
     (if fst (waits_on (reqs s x)) then block_write_fdset s - {snd (waits_on (reqs s x))}
      else block_write_fdset s) \<and>
   reqs (ready_request x (block_request x s)) = reqs s"
  by (auto simp: block_request_alt ready_request_alt Let_def split: prod.splits bool.splits)

end
