(* ===== verification/Util.thy ===== *)
theory Util
  imports Types
begin

text \<open>
  The string routines of \<open>src/src/util.c\<close>: cleaning and matching of paths, percent and
  HTML escaping, BASE64, numbers, dates.  Loops over a C string are recursions over the
  characters; routines that write in place return the new string.
\<close>

section \<open>Paths\<close>

text \<open>The inner loop of \<open>clean_pathname\<close>, which runs after each slash.\<close>

function skip_dots :: "string \<Rightarrow> string" where
  "skip_dots s =
    (if prefix ''/'' s then skip_dots (drop 1 s)
     else if prefix ''./'' s then skip_dots (drop 2 s)
     else if prefix ''../'' s then skip_dots (drop 3 s)
     else s)"
  by pat_completeness auto

termination
  by (relation "measure length") (auto simp: prefix_def)

declare skip_dots.simps [simp del]

lemma length_skip_dots: "length (skip_dots s) \<le> length s"
proof (induction s rule: skip_dots.induct)
  case (1 s)
  then show ?case by (subst skip_dots.simps) (auto intro: le_trans)
qed

function clean_from :: "bool \<Rightarrow> string \<Rightarrow> string" where
  "clean_from cgiarg [] = []"
| "clean_from cgiarg (c # s) =
    (if c = CHR ''/'' \<and> \<not> cgiarg then CHR ''/'' # clean_from cgiarg (skip_dots s)
     else c # clean_from (cgiarg \<or> c = CHR ''?'') s)"
  by pat_completeness auto

text \<open>It ends because the inner loop never lengthens the rest.\<close>

termination
  by (relation "measure (\<lambda>(_, s). length s)") (auto simp: less_Suc_eq_le length_skip_dots)

definition clean_pathname :: "string \<Rightarrow> string" where
  "clean_pathname p = clean_from False p"


lemma skip_dots_stops:
  "\<not> prefix ''/'' (skip_dots s) \<and> \<not> prefix ''./'' (skip_dots s) \<and> \<not> prefix ''../'' (skip_dots s)"
proof (induction s rule: skip_dots.induct)
  case (1 s)
  then show ?case by (subst (1 2 3) skip_dots.simps) auto
qed

lemma skip_dots_id:
  "\<not> prefix ''/'' s \<Longrightarrow> \<not> prefix ''./'' s \<Longrightarrow> \<not> prefix ''../'' s \<Longrightarrow> skip_dots s = s"
  by (subst skip_dots.simps) simp

lemma clean_from_True: "clean_from True s = s"
  by (induction s) auto

lemma length_clean_from: "length (clean_from g s) \<le> length s"
  by (induction g s rule: clean_from.induct) (auto intro: le_trans [OF _ length_skip_dots])

lemma dropWhile_skip_dots:
  "dropWhile (\<lambda>c. c \<noteq> CHR ''?'') (skip_dots s) = dropWhile (\<lambda>c. c \<noteq> CHR ''?'') s"
proof (induction s rule: skip_dots.induct)
  case (1 s)
  then show ?case by (subst skip_dots.simps) (auto simp: prefix_def)
qed

lemma dropWhile_clean_from:
  "dropWhile (\<lambda>c. c \<noteq> CHR ''?'') (clean_from False s) = dropWhile (\<lambda>c. c \<noteq> CHR ''?'') s"
proof (induction "False" s rule: clean_from.induct)
  case (2 c s)
  then show ?case by (cases "c = CHR ''?''") (auto simp: dropWhile_skip_dots clean_from_True)
qed simp

text \<open>A path in which a slash is not followed by a slash, by a dot and a slash, or by two dots
  and a slash, up to the first question mark.\<close>

fun clean :: "string \<Rightarrow> bool" where
  "clean [] \<longleftrightarrow> True"
| "clean (c # s) \<longleftrightarrow>
    c = CHR ''?'' \<or>
    (c = CHR ''/'' \<longrightarrow> \<not> prefix ''/'' s \<and> \<not> prefix ''./'' s \<and> \<not> prefix ''../'' s) \<and> clean s"

lemma clean_from_prefix:
  "clean_from False s = c # t \<Longrightarrow> \<exists>s'. s = c # s'"
  by (cases s) (auto split: if_splits)

lemma prefix_clean_from:
  "prefix ''/'' (clean_from False s) \<Longrightarrow> prefix ''/'' s"
  "prefix ''./'' (clean_from False s) \<Longrightarrow> prefix ''./'' s"
  "prefix ''../'' (clean_from False s) \<Longrightarrow> prefix ''../'' s"
    apply (cases s; force split: if_splits)
   apply (cases s; cases "tl s"; force split: if_splits)
  apply (cases s; cases "tl s"; cases "tl (tl s)"; force split: if_splits)
  done

lemma clean_clean_from: "\<not> g \<Longrightarrow> clean (clean_from g s)"
proof (induction g s rule: clean_from.induct)
  case (2 g c s)
  then show ?case
    using skip_dots_stops [of s] prefix_clean_from [of "skip_dots s"]
    by (cases "c = CHR ''?''") (auto simp: clean_from_True)
qed simp

lemma clean_from_clean: "clean s \<Longrightarrow> clean_from False s = s"
proof (induction s)
  case (Cons a s)
  then show ?case by (cases "a = CHR ''?''") (auto simp: skip_dots_id clean_from_True)
qed simp

lemma clean_sublist:
  assumes "clean (takeWhile (\<lambda>c. c \<noteq> CHR ''?'') s)" "p \<in> {''//'', ''/./'', ''/../''}"
  shows "\<not> sublist p (takeWhile (\<lambda>c. c \<noteq> CHR ''?'') s)"
  using assms
  by (induction s) (auto simp: sublist_Cons_right split: if_splits)

lemma clean_takeWhile: "clean s \<Longrightarrow> clean (takeWhile (\<lambda>c. c \<noteq> CHR ''?'') s)"
proof (induction s)
  case (Cons a s)
  have *: "prefix p (takeWhile (\<lambda>c. c \<noteq> CHR ''?'') s) \<Longrightarrow> prefix p s" for p
    using takeWhile_is_prefix [of "\<lambda>c. c \<noteq> CHR ''?''" s] prefix_order.trans by blast
  show ?case using Cons * by auto
qed simp

text \<open>C14: The path that \<open>clean_pathname\<close> leaves has none of the sequences \<open>//\<close>,
  \<open>/./\<close> and \<open>/../\<close> before its first question mark, what follows the question mark is untouched,
  it is never longer than the input (so the in-place write is safe), and cleaning it again changes
  nothing.\<close>

theorem clean_pathname_clean:
  "(\<forall>p \<in> {''//'', ''/./'', ''/../''}.
      \<not> sublist p (takeWhile (\<lambda>c. c \<noteq> CHR ''?'') (clean_pathname s))) \<and>
   dropWhile (\<lambda>c. c \<noteq> CHR ''?'') (clean_pathname s) = dropWhile (\<lambda>c. c \<noteq> CHR ''?'') s \<and>
   length (clean_pathname s) \<le> length s \<and>
   clean_pathname (clean_pathname s) = clean_pathname s"
  unfolding clean_pathname_def
  using clean_sublist [OF clean_takeWhile [OF clean_clean_from [of False s]]]
    length_clean_from [of False s] dropWhile_clean_from [of s] clean_from_clean [OF clean_clean_from [of False s]]
  by simp

theorem clean_pathname_clean_witness:
  "clean_pathname ''/a//./../b/?x=//'' = ''/a/b/?x=//'' \<and>
   \<not> sublist ''/../'' (takeWhile (\<lambda>c. c \<noteq> CHR ''?'') (clean_pathname ''/a//./../b/?x=//''))"
  using clean_pathname_clean [of "''/a//./../b/?x=//''"]
  by (simp add: clean_pathname_def skip_dots.simps)


section \<open>Wild cards\<close>

function strmatch :: "string \<Rightarrow> string \<Rightarrow> bool" where
  "strmatch str [] \<longleftrightarrow> str = []"
| "strmatch str (c # s2) \<longleftrightarrow>
    (if c = CHR ''*'' then
       s2 = [] \<or>
       (let rest = dropWhile (\<lambda>d. d = CHR ''*'') s2
        in list_ex (\<lambda>k. strmatch (drop k str) rest) [0..<length str] \<or> strmatch [] rest)
     else if c \<noteq> CHR ''?'' then
       (case str of [] \<Rightarrow> False | d # str' \<Rightarrow> d = c \<and> strmatch str' s2)
     else
       (case str of [] \<Rightarrow> False | d # str' \<Rightarrow> strmatch str' s2))"
  by pat_completeness auto

termination
  by (relation "measure (\<lambda>(_, s2). length s2)")
     (auto simp: less_Suc_eq_le length_dropWhile_le)

text \<open>What the comment of \<open>strmatch\<close> promises: a question mark is any character, a star is any
  sequence.\<close>

inductive glob :: "string \<Rightarrow> string \<Rightarrow> bool" where
  glob_end: "glob [] []"
| glob_star: "glob s p \<Longrightarrow> glob (u @ s) (CHR ''*'' # p)"
| glob_any: "glob s p \<Longrightarrow> glob (c # s) (CHR ''?'' # p)"
| glob_char: "c \<noteq> CHR ''*'' \<Longrightarrow> c \<noteq> CHR ''?'' \<Longrightarrow> glob s p \<Longrightarrow> glob (c # s) (c # p)"

inductive_cases glob_NilE: "glob s []"
inductive_cases glob_ConsE: "glob s (c # p)"

lemma glob_Nil [simp]: "glob s [] \<longleftrightarrow> s = []"
  by (auto intro: glob_end elim: glob_NilE)

lemma glob_Cons:
  "glob s (c # p) \<longleftrightarrow>
    (if c = CHR ''*'' then \<exists>k \<le> length s. glob (drop k s) p
     else \<exists>d s'. s = d # s' \<and> (c = CHR ''?'' \<or> d = c) \<and> glob s' p)"
proof -
  have "glob s (CHR ''*'' # p)" if "glob (drop k s) p" for k
    using glob_star [OF that, of "take k s"] by simp
  moreover have "\<exists>k \<le> length s. glob (drop k s) p" if "glob s (CHR ''*'' # p)"
    using that
  proof (rule glob_ConsE)
    fix s' u assume "s = u @ s'" "glob s' p"
    then show ?thesis by (intro exI [of _ "length u"]) simp
  qed auto
  moreover have "glob s (c # p) \<longleftrightarrow> (\<exists>d s'. s = d # s' \<and> (c = CHR ''?'' \<or> d = c) \<and> glob s' p)"
    if "c \<noteq> CHR ''*''"
    using that by (auto intro: glob_any glob_char elim!: glob_ConsE)
  ultimately show ?thesis by auto
qed

lemma glob_stars: "glob s (CHR ''*'' # dropWhile (\<lambda>d. d = CHR ''*'') p) \<longleftrightarrow> glob s (CHR ''*'' # p)"
proof (induction p arbitrary: s)
  case (Cons a p)
  show ?case
  proof (cases "a = CHR ''*''")
    case True
    have "(\<exists>k \<le> length s. \<exists>j \<le> length s - k. glob (drop (k + j) s) p)
          \<longleftrightarrow> (\<exists>k \<le> length s. glob (drop k s) p)"
      by (metis add_0 add_le_cancel_left le_add_diff_inverse le0 minus_nat.diff_0)
    then show ?thesis using Cons [of s] True by (simp add: glob_Cons add.commute)
  qed simp
qed simp

text \<open>\<open>strmatch\<close> answers exactly the wild card matching its comment describes, for
  every string and pattern (the elimination of double stars and the shortcut for a star at the end
  change nothing).\<close>

theorem strmatch_glob: "strmatch str p = glob str p"
proof (induction str p rule: strmatch.induct)
  case (2 str c s2)
  show ?case
  proof (cases "c = CHR ''*''")
    case star: True
    show ?thesis
    proof (cases "s2 = []")
      case True
      then show ?thesis using star by (auto simp: glob_Cons)
    next
      case False
      let ?rest = "dropWhile (\<lambda>d. d = CHR ''*'') s2"
      have ex: "(\<exists>k \<le> length str. glob (drop k str) ?rest)
            \<longleftrightarrow> (\<exists>k < length str. glob (drop k str) ?rest) \<or> glob [] ?rest"
        by (metis drop_all le_less order_refl)
      have "strmatch str (c # s2) \<longleftrightarrow>
             (\<exists>k < length str. glob (drop k str) ?rest) \<or> glob [] ?rest"
        using 2(1,2) star False
        by (simp add: list_ex_iff Let_def atLeast0LessThan Bex_def cong: conj_cong)
      also have "\<dots> \<longleftrightarrow> glob str (CHR ''*'' # ?rest)"
        by (simp add: glob_Cons [of str] ex)
      finally show ?thesis using star glob_stars by simp
    qed
  next
    case False
    then show ?thesis
      using 2(3,4) by (auto simp: glob_Cons split: list.split)
  qed
qed simp

section \<open>Numbers and case\<close>

definition to_upper :: "string \<Rightarrow> string" where
  "to_upper str = map (\<lambda>c. if c = CHR ''-'' then CHR ''_'' else toupper c) str"

text \<open>The loop of \<open>simple_itoa\<close>, which fills its buffer from the right; \<open>i % 10\<close> and \<open>i / 10\<close> are
  the truncating operations of C.\<close>

function itoa_loop :: "int \<Rightarrow> string \<Rightarrow> string" where
  "itoa_loop i acc =
    (let acc = chr_of (nat ((48 + i smod 10) mod 256)) # acc; i = i sdiv 10
     in if i > 0 then itoa_loop i acc else acc)"
  by pat_completeness auto

termination
proof (relation "measure (\<lambda>(i, _). nat i)", simp)
  fix i x xa :: int
  fix acc y :: string
  assume "xa = i sdiv 10" "0 < xa"
  then show "((xa, y), (i, acc)) \<in> measure (\<lambda>(i, _). nat i)"
    by (cases i "0 :: int" rule: linorder_cases)
       (auto simp: signed_divide_int_def sgn_if div_neg_pos_less0 dest: pos_imp_zdiv_pos_iff)
qed

declare itoa_loop.simps [simp del]

definition simple_itoa :: "int \<Rightarrow> string" where
  "simple_itoa i = itoa_loop i []"

lemma itoa_loop_nat: "itoa_loop (int n) acc = digs n @ acc"
proof (induction n arbitrary: acc rule: digs.induct)
  case (1 n)
  have d: "int n sdiv 10 = int (n div 10)" "int n smod 10 = int (n mod 10)"
    by (auto simp: signed_divide_int_def signed_modulo_int_def sgn_if of_nat_div of_nat_mod)
  show ?case
    using 1 by (subst itoa_loop.simps, subst digs.simps) (auto simp: d Let_def nat_add_distrib
      nat_mod_distrib)
qed


lemma atoi_digs: "atoi (digs n) = int n"
proof -
  obtain c u where d: "digs n = c # u" by (cases "digs n") auto
  have "is_digit c" using digs_digits [of n] d by simp
  then have "\<not> is_space c" "c \<noteq> CHR ''-''" "c \<noteq> CHR ''+''"
    by (auto simp: is_digit_def is_space_def uchar_def)
  then show ?thesis
    using digits_val_digs [of n] unfolding d atoi_def by simp
qed

text \<open>\<open>simple_itoa\<close> prints every non-negative number in decimal, so that \<open>atoi\<close> reads the
  same number back; for a negative number it prints one character only (no sign and no further digit).\<close>

theorem simple_itoa_decimal:
  "simple_itoa i = (if 0 \<le> i then show_int i else [chr_of (nat (48 + i smod 10))]) \<and>
   (0 \<le> i \<longrightarrow> atoi (simple_itoa i) = i)"
proof (cases "0 \<le> i")
  case True
  then obtain n where "i = int n" by (metis nonneg_int_cases)
  then show ?thesis by (simp add: simple_itoa_def itoa_loop_nat show_int_def atoi_digs)
next
  case False
  have "i sdiv 10 \<le> 0" using False by (auto simp: signed_divide_int_def sgn_if)
  moreover have "- 10 < i smod 10" "i smod 10 \<le> 0"
    using False by (auto simp: signed_modulo_int_def signed_divide_int_def sgn_if)
  ultimately show ?thesis
    using False by (simp add: simple_itoa_def itoa_loop.simps Let_def)
qed

theorem simple_itoa_decimal_witness:
  "atoi (simple_itoa 4096) = 4096 \<and> simple_itoa (- 42) = [chr_of 46]"
  using conjunct2 [OF simple_itoa_decimal [of 4096]]
    conjunct1 [OF simple_itoa_decimal [of "- 42"]]
  by (simp add: signed_modulo_int_def signed_divide_int_def)

section \<open>Searching in memory\<close>

text \<open>\<open>memstr\<close> and \<open>memcasestr\<close> keep the length of the needle in a \<open>char\<close>: the models are for the
  needles of at most 127 characters, on which that is its length.\<close>

definition memstr :: "bytes \<Rightarrow> string \<Rightarrow> nat \<Rightarrow> nat option" where
  "memstr haystack needle sz =
    (let needlesize = nat (schar (chr_of (length needle)))
     in if sz < needlesize then None
        else List.find (\<lambda>p. take needlesize (drop p haystack) = needle)
               [0..<sz - needlesize + 1])"

definition memcasestr :: "bytes \<Rightarrow> string \<Rightarrow> nat \<Rightarrow> nat option" where
  "memcasestr haystack needle sz =
    (let needlesize = nat (schar (chr_of (length needle)))
     in if sz < needlesize then None
        else List.find (\<lambda>p. map tolower (take needlesize (drop p haystack)) = map tolower needle)
               [0..<sz - needlesize + 1])"

lemma needlesize: "length n < 128 \<Longrightarrow> nat (schar (chr_of (length n))) = length n"
  by (simp add: schar_def)

lemma find_upt:
  "List.find P [0..<n] = Some p \<longleftrightarrow> p < n \<and> P p \<and> (\<forall>q < p. \<not> P q)"
  by (auto simp: find_Some_iff less_imp_le_nat intro!: exI [of _ p])

lemma prefix_take_iff: "take (length p) (xs :: string) = p \<longleftrightarrow> prefix p xs"
  using strneq_prefix [of p xs] by (simp add: strneq_def)

lemma prefix_drop_take:
  assumes "q + length p \<le> sz" "sz \<le> length (xs :: string)"
  shows "prefix p (drop q (take sz xs)) \<longleftrightarrow> prefix p (drop q xs)"
  using assms by (simp add: drop_take flip: prefix_take_iff)

lemma option_Some_iff: "(\<And>p. a = Some p \<longleftrightarrow> b = Some p) \<Longrightarrow> a = b"
  by (cases a; cases b) auto

lemma find_sub_strstr:
  assumes "k = length needle" "k \<le> sz" "sz \<le> length xs"
  shows "List.find (\<lambda>p. take k (drop p xs) = needle) [0..<sz - k + 1] = strstr (take sz xs) needle"
proof (rule option_Some_iff)
  fix p
  have l: "prefix needle (drop p (take sz xs)) \<Longrightarrow> p \<le> sz \<Longrightarrow> p + length needle \<le> sz"
    using prefix_length_le [of needle "drop p (take sz xs)"] assms by auto
  show "List.find (\<lambda>p. take k (drop p xs) = needle) [0..<sz - k + 1] = Some p \<longleftrightarrow>
      strstr (take sz xs) needle = Some p"
    using assms by (auto simp: find_upt strstr_iff prefix_take_iff prefix_drop_take simp del: upt_Suc)
qed

lemma memstr_strstr:
  assumes "length needle < 128" "sz \<le> length haystack"
  shows "memstr haystack needle sz = strstr (take sz haystack) needle"
proof (cases "sz < length needle")
  case True
  then have "\<not> sublist needle (take sz haystack)" using sublist_length_le by fastforce
  then show ?thesis using True by (simp add: memstr_def needlesize [OF assms(1)] strstr_None [THEN iffD2])
next
  case False
  then show ?thesis
    using find_sub_strstr [OF refl _ assms(2), of needle]
    by (simp add: memstr_def needlesize [OF assms(1)] Let_def del: upt_Suc)
qed

lemma memcasestr_strstr:
  assumes "length needle < 128" "sz \<le> length haystack"
  shows "memcasestr haystack needle sz = strstr (take sz (map tolower haystack)) (map tolower needle)"
proof (cases "sz < length needle")
  case True
  then have "\<not> sublist (map tolower needle) (take sz (map tolower haystack))"
    using sublist_length_le by fastforce
  then show ?thesis using True by (simp add: memcasestr_def needlesize [OF assms(1)] strstr_None [THEN iffD2])
next
  case False
  then show ?thesis
    using find_sub_strstr [of "length needle" "map tolower needle" sz "map tolower haystack"] assms(2)
    by (simp add: memcasestr_def needlesize [OF assms(1)] Let_def take_map drop_map del: upt_Suc)
qed

text \<open>In a buffer of \<open>sz\<close> bytes \<open>memstr\<close> finds the first occurrence of a needle of at
  most 127 characters, reads no byte beyond the buffer, and finds nothing only if there is none.\<close>

theorem memstr_first:
  assumes "length needle < 128" "length haystack = sz"
  shows "(memstr haystack needle sz = Some p \<longleftrightarrow>
           p + length needle \<le> sz \<and> prefix needle (drop p haystack) \<and>
           (\<forall>q < p. \<not> prefix needle (drop q haystack))) \<and>
         (memstr haystack needle sz = None \<longleftrightarrow> \<not> sublist needle haystack)"
proof -
  have *: "take (length needle) xs = needle \<longleftrightarrow> prefix needle xs" for xs
    by (metis strneq_def strneq_prefix order_refl take_all)
  have len: "prefix needle (drop q haystack) \<Longrightarrow> length needle \<le> sz - q" for q
    using assms(2) by (auto dest: prefix_length_le)
  have some: "memstr haystack needle sz = Some p \<longleftrightarrow>
           p + length needle \<le> sz \<and> prefix needle (drop p haystack) \<and>
           (\<forall>q < p. \<not> prefix needle (drop q haystack))" for p
    using len [of p] by (auto simp: memstr_def needlesize [OF assms(1)] Let_def * find_upt
      simp del: upt_Suc)
  have "memstr haystack needle sz = None \<longleftrightarrow> strstr haystack needle = None"
  proof (cases "strstr haystack needle")
    case (Some n)
    then show ?thesis using strstr_Some [OF Some] some [of n] len [of n] assms(2) by auto
  next
    case None
    have "\<not> prefix needle (drop p haystack)" for p
      using None contains_str_iff_sublist [of haystack needle]
      by (auto simp: contains_str_def sublist_def prefix_def) (metis append_take_drop_id)
    then have "memstr haystack needle sz \<noteq> Some p" for p using some [of p] by simp
    then show ?thesis using None by (cases "memstr haystack needle sz") auto
  qed
  then show ?thesis
    using some [of p] contains_str_iff_sublist [of haystack needle]
    by (cases "strstr haystack needle") (simp_all add: contains_str_def)
qed

theorem memstr_first_witness:
  "memstr ''xx--boundary'' ''--b'' 12 = Some 2 \<and> memstr ''xx--boundary'' ''--c'' 12 = None"
  using memstr_first [of "''--b''" "''xx--boundary''" 12 2]
    memstr_first [of "''--c''" "''xx--boundary''" 12 0]
  by (simp add: less_Suc_eq numeral_2_eq_2 sublist_Cons_right)

end
