(* ===== verification/Dates.thy ===== *)
theory Dates
  imports Util "HOL-Library.Product_Lexorder"
begin

text \<open>
  Dates in HTTP headers (\<open>src/src/util.c\<close>): the text of a \<open>Last-Modified\<close> header and the
  parsing of \<open>If-Modified-Since\<close>.  Of \<open>sscanf\<close> the directives that \<open>modified_since\<close> uses are
  modelled; \<open>gmtime\<close> is a parameter, its result a record like \<open>struct tm\<close>.
\<close>

record tm =
  tm_sec :: nat
  tm_min :: nat
  tm_hour :: nat
  tm_mday :: nat
  tm_mon :: nat
  tm_year :: int
  tm_wday :: nat

definition month_tab :: string where
  "month_tab = ''Jan Feb Mar Apr May Jun Jul Aug Sep Oct Nov Dec ''"

definition day_tab :: string where
  "day_tab = ''Sun,Mon,Tue,Wed,Thu,Fri,Sat,''"

section \<open>Printing\<close>

definition two_digits :: "nat \<Rightarrow> string" where
  "two_digits a = [chr_of (48 + a div 10), chr_of (48 + a mod 10)]"

text \<open>The characters that \<open>req_write_rfc822_time\<close> writes, from right to left in the code: the last
  one always goes to the 29th place, and the year takes as many digits as it has.\<close>

definition rfc822_text :: "tm \<Rightarrow> string" where
  "rfc822_text t =
    take 4 (drop (tm_wday t * 4) day_tab) @ '' '' @ two_digits (tm_mday t) @ '' '' @
    take 4 (drop (4 * tm_mon t) month_tab) @
    (let a = nat ((1900 + tm_year t) mod 2 ^ 32) in if a = 0 then [] else digs a) @ '' '' @
    two_digits (tm_hour t) @ '':'' @ two_digits (tm_min t) @ '':'' @ two_digits (tm_sec t) @ '' GMT''"

section \<open>Scanning\<close>

text \<open>The directives of \<open>sscanf\<close>: white space, a literal character, \<open>%*s\<close>, \<open>%d\<close> and \<open>%Ns\<close>.\<close>

datatype directive = D_space | D_lit char | D_skip | D_int | D_str nat

datatype conv = C_int int | C_str string

definition scan_int :: "string \<Rightarrow> (int \<times> string) option" where
  "scan_int s0 =
    (let s = dropWhile is_space s0;
         neg = (case s of c # _ \<Rightarrow> c = CHR ''-'' | [] \<Rightarrow> False);
         u = (case s of c # u \<Rightarrow> if c = CHR ''-'' \<or> c = CHR ''+'' then u else s | [] \<Rightarrow> s);
         ds = takeWhile is_digit u
     in if ds = [] then None
        else Some (if neg then - int (digits_val 0 ds) else int (digits_val 0 ds),
                   dropWhile is_digit u))"

definition scan_str :: "nat \<Rightarrow> string \<Rightarrow> (string \<times> string) option" where
  "scan_str n s0 =
    (let s = dropWhile is_space s0; w = take n (takeWhile (\<lambda>c. \<not> is_space c) s)
     in if w = [] then None else Some (w, drop (length w) s))"

text \<open>The converted values; their number is what \<open>sscanf\<close> returns.\<close>

fun sscanf :: "string \<Rightarrow> directive list \<Rightarrow> conv list" where
  "sscanf s [] = []"
| "sscanf s (D_space # ds) = sscanf (dropWhile is_space s) ds"
| "sscanf s (D_lit c # ds) = (case s of d # s' \<Rightarrow> if d = c then sscanf s' ds else [] | [] \<Rightarrow> [])"
| "sscanf s (D_skip # ds) =
    (case scan_str (length s) s of None \<Rightarrow> [] | Some (_, s') \<Rightarrow> sscanf s' ds)"
| "sscanf s (D_int # ds) =
    (case scan_int s of None \<Rightarrow> [] | Some (i, s') \<Rightarrow> C_int i # sscanf s' ds)"
| "sscanf s (D_str n # ds) =
    (case scan_str n s of None \<Rightarrow> [] | Some (w, s') \<Rightarrow> C_str w # sscanf s' ds)"

definition rfc1123_fmt :: "directive list" where
  "rfc1123_fmt =
    [D_skip, D_space, D_int, D_space, D_str 3, D_space, D_int, D_space, D_int, D_lit (CHR '':''),
     D_int, D_lit (CHR '':''), D_int, D_space, D_lit (CHR ''G''), D_lit (CHR ''M''), D_lit (CHR ''T'')]"

definition rfc1036_fmt :: "directive list" where
  "rfc1036_fmt =
    [D_int, D_lit (CHR ''-''), D_str 3, D_lit (CHR ''-''), D_int, D_space, D_int, D_lit (CHR '':''),
     D_int, D_lit (CHR '':''), D_int, D_space, D_lit (CHR ''G''), D_lit (CHR ''M''), D_lit (CHR ''T'')]"

definition asctime_fmt :: "directive list" where
  "asctime_fmt =
    [D_space, D_str 3, D_space, D_int, D_space, D_int, D_lit (CHR '':''), D_int, D_lit (CHR '':''),
     D_int, D_space, D_int]"

text \<open>A character of a C string past its end is the terminating zero.\<close>

definition char_at :: "string \<Rightarrow> nat \<Rightarrow> char" where
  "char_at s i = (if i < length s then s ! i else NUL)"

definition month2int :: "string \<Rightarrow> int" where
  "month2int monthname =
    (let c = char_at monthname 0 in
     if c = CHR ''A'' then (if char_at monthname 1 = CHR ''p'' then 3 else 7)
     else if c = CHR ''D'' then 11
     else if c = CHR ''F'' then 1
     else if c = CHR ''J'' then
       (if char_at monthname 1 = CHR ''a'' then 0
        else if char_at monthname 2 = CHR ''n'' then 5 else 6)
     else if c = CHR ''M'' then (if char_at monthname 2 = CHR ''r'' then 2 else 4)
     else if c = CHR ''N'' then 10
     else if c = CHR ''O'' then 9
     else if c = CHR ''S'' then 8
     else -1)"

text \<open>Day, month name, year, hour, minute and second of the header, \<open>None\<close> when no format has six
  conversions.\<close>

definition parse_ims :: "string \<Rightarrow> (int \<times> string \<times> int \<times> int \<times> int \<times> int) option" where
  "parse_ims ims_info =
    (case sscanf ims_info rfc1123_fmt of
       [C_int day, C_str mon, C_int year, C_int hour, C_int minute, C_int sec] \<Rightarrow>
         Some (day, mon, year, hour, minute, sec)
     | _ \<Rightarrow>
    (case sscanf ims_info rfc1036_fmt of
       [C_int day, C_str mon, C_int year, C_int hour, C_int minute, C_int sec] \<Rightarrow>
         Some (day, mon, year + 1900, hour, minute, sec)
     | _ \<Rightarrow>
    (case sscanf ims_info asctime_fmt of
       [C_str mon, C_int day, C_int hour, C_int minute, C_int sec, C_int year] \<Rightarrow>
         Some (day, mon, year, hour, minute, sec)
     | _ \<Rightarrow> None)))"

definition modified_since :: "tm \<Rightarrow> string \<Rightarrow> int" where
  "modified_since file_gmt if_modified_since =
    (case parse_ims if_modified_since of
       None \<Rightarrow> - 1
     | Some (day, monthname, year, hour, minute, sec) \<Rightarrow>
         (let month = month2int monthname; gt = (\<lambda>c. if c > 0 then 1 else 0 :: int) in
          if 1900 + tm_year file_gmt - year \<noteq> 0 then gt (1900 + tm_year file_gmt - year)
          else if int (tm_mon file_gmt) - month \<noteq> 0 then gt (int (tm_mon file_gmt) - month)
          else if int (tm_mday file_gmt) - day \<noteq> 0 then gt (int (tm_mday file_gmt) - day)
          else if int (tm_hour file_gmt) - hour \<noteq> 0 then gt (int (tm_hour file_gmt) - hour)
          else if int (tm_min file_gmt) - minute \<noteq> 0 then gt (int (tm_min file_gmt) - minute)
          else if int (tm_sec file_gmt) - sec \<noteq> 0 then gt (int (tm_sec file_gmt) - sec)
          else 0))"

section \<open>A date that was printed is read back\<close>

text \<open>The ranges of the fields that \<open>gmtime\<close> gives, for the years with four digits.\<close>

definition tm_ok :: "tm \<Rightarrow> bool" where
  "tm_ok t \<longleftrightarrow> tm_sec t \<le> 60 \<and> tm_min t < 60 \<and> tm_hour t < 24 \<and> 1 \<le> tm_mday t \<and> tm_mday t \<le> 31 \<and>
     tm_mon t < 12 \<and> 1000 \<le> 1900 + tm_year t \<and> 1900 + tm_year t \<le> 9999 \<and> tm_wday t < 7"


lemma not_space_digit: "is_digit c \<Longrightarrow> \<not> is_space c"
  by (auto simp: is_digit_def is_space_def)

lemma digit_sign: "is_digit c \<Longrightarrow> c \<noteq> CHR ''-'' \<and> c \<noteq> CHR ''+''"
  by (auto simp: is_digit_def uchar_def)

lemma scan_int_digits:
  assumes "\<forall>c \<in> set ds. is_digit c" "ds \<noteq> []" "rest = [] \<or> \<not> is_digit (hd rest)"
  shows "scan_int (ds @ rest) = Some (int (digits_val 0 ds), rest)"
proof -
  obtain c u where ds: "ds = c # u" using assms(2) by (cases ds) auto
  then have c: "is_digit c" using assms(1) by simp
  have "takeWhile is_digit (ds @ rest) = ds" "dropWhile is_digit (ds @ rest) = rest"
    using assms(1,3) by (cases rest; auto simp: takeWhile_append2 dropWhile_append2)+
  then show ?thesis
    using c not_space_digit [OF c] digit_sign [OF c] unfolding ds
    by (auto simp: scan_int_def Let_def)
qed

lemma scan_int_space: "is_space c \<Longrightarrow> scan_int (c # s) = scan_int s"
  by (simp add: scan_int_def)

lemma two_digits_digits: "a < 100 \<Longrightarrow> \<forall>c \<in> set (two_digits a). is_digit c"
  using is_digit_chr_of [of "a div 10"] is_digit_chr_of [of "a mod 10"]
  by (simp add: two_digits_def)

lemma digits_val_two: "a < 100 \<Longrightarrow> digits_val 0 (two_digits a) = a"
  using is_digit_chr_of [of "a div 10"] is_digit_chr_of [of "a mod 10"]
  by (simp add: two_digits_def)

lemma scan_int_two:
  "a < 100 \<Longrightarrow> rest = [] \<or> \<not> is_digit (hd rest) \<Longrightarrow> scan_int (two_digits a @ rest) = Some (int a, rest)"
  using scan_int_digits [OF two_digits_digits] digits_val_two by (simp add: two_digits_def)

lemma scan_int_digs:
  "rest = [] \<or> \<not> is_digit (hd rest) \<Longrightarrow> scan_int (digs n @ rest) = Some (int n, rest)"
  using scan_int_digits [OF digs_digits [of n]] by simp

lemma dropWhile_space_two [simp]: "a < 100 \<Longrightarrow> dropWhile is_space (two_digits a @ rest) = two_digits a @ rest"
  using not_space_digit [OF is_digit_chr_of [of "a div 10"]] by (simp add: two_digits_def)

lemma dropWhile_space_digs [simp]: "dropWhile is_space (digs n @ rest) = digs n @ rest"
proof (cases "digs n")
  case (Cons c u)
  then have "is_digit c" using digs_digits [of n] by simp
  then show ?thesis using Cons not_space_digit by auto
qed simp

lemma day_cases:
  assumes "w < 7"
  shows "let d = take 4 (drop (w * 4) day_tab) in
    d = [d ! 0, d ! 1, d ! 2, CHR '',''] \<and> \<not> is_space (d ! 0) \<and> \<not> is_space (d ! 1) \<and> \<not> is_space (d ! 2)"
proof -
  have "w = 0 \<or> w = 1 \<or> w = 2 \<or> w = 3 \<or> w = 4 \<or> w = 5 \<or> w = 6" using assms by arith
  then show ?thesis
    by (elim disjE) (simp_all add: day_tab_def is_space_def uchar_def)
qed

lemma day_text:
  assumes "w < 7"
  obtains a b c where "take 4 (drop (w * 4) day_tab) = [a, b, c, CHR '','']"
    "\<not> is_space a" "\<not> is_space b" "\<not> is_space c"
  using day_cases [OF assms] that unfolding Let_def by blast

lemma month_cases:
  assumes "m < 12"
  shows "let d = take 4 (drop (4 * m) month_tab) in
    d = [d ! 0, d ! 1, d ! 2, CHR '' ''] \<and> \<not> is_space (d ! 0) \<and> \<not> is_space (d ! 1) \<and>
    \<not> is_space (d ! 2) \<and> month2int [d ! 0, d ! 1, d ! 2] = int m"
proof -
  have "m = 0 \<or> m = 1 \<or> m = 2 \<or> m = 3 \<or> m = 4 \<or> m = 5 \<or> m = 6 \<or> m = 7 \<or> m = 8 \<or> m = 9 \<or>
        m = 10 \<or> m = 11" using assms by arith
  then show ?thesis
    by (elim disjE) (simp_all add: month_tab_def is_space_def uchar_def month2int_def char_at_def)
qed

lemma month_text:
  assumes "m < 12"
  obtains a b c where "take 4 (drop (4 * m) month_tab) = [a, b, c, CHR '' '']"
    "\<not> is_space a" "\<not> is_space b" "\<not> is_space c" "month2int [a, b, c] = int m"
  using month_cases [OF assms] that unfolding Let_def by blast

lemma year_text:
  assumes "1000 \<le> 1900 + tm_year t" "1900 + tm_year t \<le> 9999"
  shows "nat ((1900 + tm_year t) mod 2 ^ 32) = nat (1900 + tm_year t)" "nat (1900 + tm_year t) \<noteq> 0"
  using assms by simp_all

lemma is_space_blank [simp]: "is_space (CHR '' '')"
  by (simp add: is_space_def uchar_def)

lemma not_digit_seps [simp]:
  "\<not> is_digit (CHR '' '')" "\<not> is_digit (CHR '':'')"
  "\<not> is_space (CHR '','')" "\<not> is_space (CHR ''G'')"
  by (simp_all add: is_digit_def is_space_def uchar_def)

lemma parse_ims_rfc822:
  assumes "tm_ok t"
  obtains mon where "month2int mon = int (tm_mon t)"
    "parse_ims (rfc822_text t) = Some (int (tm_mday t), mon, 1900 + tm_year t, int (tm_hour t),
       int (tm_min t), int (tm_sec t))"
proof -
  note ok = assms [unfolded tm_ok_def]
  obtain a b c where d: "take 4 (drop (tm_wday t * 4) day_tab) = [a, b, c, CHR '','']"
    "\<not> is_space a" "\<not> is_space b" "\<not> is_space c"
    using day_text [of "tm_wday t"] ok by blast
  obtain e f g where m: "take 4 (drop (4 * tm_mon t) month_tab) = [e, f, g, CHR '' '']"
    "\<not> is_space e" "\<not> is_space f" "\<not> is_space g" "month2int [e, f, g] = int (tm_mon t)"
    using month_text [of "tm_mon t"] ok by blast
  have l: "tm_mday t < 100" "tm_hour t < 100" "tm_min t < 100" "tm_sec t < 100" using ok by auto
  have y: "nat ((1900 + tm_year t) mod 2 ^ 32) = nat (1900 + tm_year t)"
    "nat (1900 + tm_year t) \<noteq> 0"
    using ok year_text by auto
  have tx: "rfc822_text t =
    a # b # c # CHR '','' # CHR '' '' # two_digits (tm_mday t) @ CHR '' '' # e # f # g # CHR '' '' #
    digs (nat (1900 + tm_year t)) @ CHR '' '' # two_digits (tm_hour t) @ CHR '':'' #
    two_digits (tm_min t) @ CHR '':'' # two_digits (tm_sec t) @ '' GMT''"
    unfolding rfc822_text_def Let_def y(1) using y(2) d(1) m(1) by simp
  have "sscanf (rfc822_text t) rfc1123_fmt =
    [C_int (int (tm_mday t)), C_str [e, f, g], C_int (int (nat (1900 + tm_year t))),
     C_int (int (tm_hour t)), C_int (int (tm_min t)), C_int (int (tm_sec t))]"
    unfolding tx rfc1123_fmt_def
    using d m l by (simp add: scan_str_def scan_int_two scan_int_digs scan_int_space)
  then show ?thesis using that [of "[e, f, g]"] m(5) ok by (simp add: parse_ims_def)
qed

text \<open>The moment a record stands for, ordered lexicographically.\<close>

definition stamp :: "tm \<Rightarrow> int \<times> nat \<times> nat \<times> nat \<times> nat \<times> nat" where
  "stamp t = (tm_year t, tm_mon t, tm_mday t, tm_hour t, tm_min t, tm_sec t)"

text \<open>C17: A client that sends back, as \<open>If-Modified-Since\<close>, the date the server printed in
  \<open>Last-Modified\<close> gets the answer that the file was not modified; in general \<open>modified_since\<close>
  compares the moment of the file with the moment printed, for every date of a four digit year.\<close>

theorem modified_since_printed:
  assumes "tm_ok t"
  shows "modified_since f (rfc822_text t) = (if stamp t < stamp f then 1 else 0)"
proof -
  obtain mon where "month2int mon = int (tm_mon t)"
    "parse_ims (rfc822_text t) = Some (int (tm_mday t), mon, 1900 + tm_year t, int (tm_hour t),
       int (tm_min t), int (tm_sec t))"
    using parse_ims_rfc822 [OF assms] .
  then show ?thesis
    by (auto simp: modified_since_def Let_def stamp_def)
qed

definition sample_tm :: tm where
  "sample_tm = \<lparr> tm_sec = 37, tm_min = 49, tm_hour = 8, tm_mday = 6, tm_mon = 10, tm_year = 94,
     tm_wday = 0 \<rparr>"

theorem modified_since_printed_witness:
  "modified_since sample_tm (rfc822_text sample_tm) = 0 \<and>
   modified_since (sample_tm \<lparr> tm_hour := 9 \<rparr>) (rfc822_text sample_tm) = 1"
  using modified_since_printed [of sample_tm sample_tm]
    modified_since_printed [of sample_tm "sample_tm \<lparr> tm_hour := 9 \<rparr>"]
  by (simp add: tm_ok_def sample_tm_def stamp_def)

text \<open>Of the three date formats of RFC 2616 only the first is understood: the RFC 1036 and
  the \<open>asctime\<close> example of the RFC are answered with the error value, so the file is sent again
  although the comments of the formats name both.\<close>

theorem modified_since_other_formats:
  "modified_since f ''Sunday, 06-Nov-94 08:49:37 GMT'' = - 1 \<and>
   modified_since f ''Sun Nov  6 08:49:37 1994'' = - 1"
proof -
  have "parse_ims ''Sunday, 06-Nov-94 08:49:37 GMT'' = None"
    "parse_ims ''Sun Nov  6 08:49:37 1994'' = None"
    by (simp_all add: parse_ims_def rfc1123_fmt_def rfc1036_fmt_def asctime_fmt_def scan_str_def
        scan_int_def is_space_def is_digit_def uchar_def Let_def)
  then show ?thesis by (simp add: modified_since_def)
qed

lemma length_digs4:
  assumes "1000 \<le> n" "n < 10000"
  shows "length (digs n) = 4"
proof -
  have r: "10 \<le> m \<Longrightarrow> length (digs m) = Suc (length (digs (m div 10)))"
    "m < 10 \<Longrightarrow> length (digs m) = 1" for m
    by (subst digs.simps, simp)+
  have "10 \<le> n" "10 \<le> n div 10" "10 \<le> n div 10 div 10" "n div 10 div 10 div 10 < 10"
    using assms by linarith+
  then show ?thesis by (simp only: r)
qed

lemma length_rfc822_text: "tm_ok t \<Longrightarrow> length (rfc822_text t) = 29"
proof -
  assume ok: "tm_ok t"
  then obtain a b c where d: "take 4 (drop (tm_wday t * 4) day_tab) = [a, b, c, CHR '','']"
    using day_text [of "tm_wday t"] unfolding tm_ok_def by blast
  obtain e f g where m: "take 4 (drop (4 * tm_mon t) month_tab) = [e, f, g, CHR '' '']"
    using month_text [of "tm_mon t"] ok unfolding tm_ok_def by blast
  have "nat (1900 + tm_year t) \<ge> 1000" "nat (1900 + tm_year t) < 10000"
    using ok by (auto simp: tm_ok_def)
  then have "length (digs (nat (1900 + tm_year t))) = 4"
    by (rule length_digs4)
  then show ?thesis
    using ok d m year_text [of t] by (simp add: rfc822_text_def two_digits_def tm_ok_def)
qed

end
