(* ===== verification/Buffer.thy ===== *)
theory Buffer
  imports Dates
begin

text \<open>
  The output buffer of a request (\<open>req_write\<close>, \<open>req_write_rfc822_time\<close>, \<open>req_flush\<close> of
  \<open>src/src/util.c\<close>, \<open>nls_convert\<close> of \<open>src/src/nls.c\<close>) and the environment the
  request handlers run in.  The system calls are fields of the record \<open>env\<close>, the global variables
  the handlers change are fields of \<open>globals\<close>.
\<close>

text \<open>The outcome of \<open>read\<close> and \<open>write\<close>: a count, \<open>EAGAIN\<close> (or \<open>EWOULDBLOCK\<close>), another error.\<close>

datatype io_result = IO_ok nat | IO_again | IO_err

text \<open>What \<open>stat\<close> and \<open>fstat\<close> report of a file.\<close>

record file_stat =
  st_isreg :: bool
  st_isdir :: bool
  st_size :: nat
  st_mtime :: int

text \<open>What \<open>read\<close> gives: bytes (none at the end of the file) or an error by its \<open>errno\<close>; what
  \<open>open\<close> gives.\<close>

datatype read_result = RD_data bytes | RD_again | RD_intr | RD_badf | RD_err

datatype open_result = OP_fd int | OP_noent | OP_acces | OP_err

record env =
  e_cfg :: config
  e_now :: int
  e_gmtime :: "int \<Rightarrow> tm"
  e_time_counter :: int
  e_write :: "int \<Rightarrow> bytes \<Rightarrow> io_result"
  e_lan_lla :: string
  e_rand :: "int \<Rightarrow> nat \<Rightarrow> int"
  e_getpwnam :: "string \<Rightarrow> string option"
  e_stat :: "string \<Rightarrow> file_stat option"
  e_access_rx :: "string \<Rightarrow> bool"
  e_stack :: bytes
  e_access_f :: "string \<Rightarrow> bool"
  e_read :: "int \<Rightarrow> nat \<Rightarrow> read_result"
  e_file :: "int \<Rightarrow> bytes"
  e_open :: "string \<Rightarrow> open_result"
  e_fstat :: "int \<Rightarrow> file_stat"
  e_mmap :: "int \<Rightarrow> bytes option"
  e_mmap_room :: nat
  e_pipe :: "(int \<times> int) option"
  e_fcntl :: bool
  e_fork :: "int option"
  e_mkstemp :: "(int \<times> string) option"

record globals =
  g_waitsec :: int
  g_lasttime :: int
  g_tab :: tables
  user_login_list :: "user_info list"
  errlogin_list :: "errlogin_entry list"
  g_login_username :: string
  g_filesize :: int
  g_max_upload_size :: int
  g_directory_index :: "string option"
  g_upgrade_firmware :: bool

type_synonym st = "request \<times> globals"

section \<open>Writing\<close>

text \<open>\<open>req_write\<close> returns 1 when the message is in the buffer and 0 when there is no room.\<close>

definition req_write :: "request \<Rightarrow> string \<Rightarrow> int \<times> request" where
  "req_write req msg =
    (let msg_len = length msg in
     if msg_len = 0 then (1, req)
     else if r_buffer_end req + msg_len > r_max_buffer_size req then (0, req)
     else (1, req \<lparr> r_buffer := mem_write (r_buffer req) (r_buffer_end req) msg,
                    r_buffer_end := r_buffer_end req + msg_len \<rparr>))"

text \<open>Most callers ignore the result.\<close>

definition wr :: "string \<Rightarrow> request \<Rightarrow> request" where
  "wr msg req = snd (req_write req msg)"

definition wrs :: "string list \<Rightarrow> request \<Rightarrow> request" where
  "wrs msgs req = fold wr msgs req"

definition req_write_rfc822_time :: "env \<Rightarrow> int \<Rightarrow> request \<Rightarrow> nat \<times> request" where
  "req_write_rfc822_time env s req =
    (if r_buffer_end req + 29 > r_max_buffer_size req then (0, req)
     else
       let t = (if s = 0 then e_gmtime env (e_now env) else e_gmtime env s);
           date = rfc822_text t
       in (29, req \<lparr> r_buffer := mem_write (r_buffer req) (r_buffer_end req + 29 - length date) date,
                     r_buffer_end := r_buffer_end req + 29 \<rparr>))"

definition wr_time :: "env \<Rightarrow> int \<Rightarrow> request \<Rightarrow> request" where
  "wr_time env s req = snd (req_write_rfc822_time env s req)"

section \<open>Flushing\<close>

definition nls_convert :: "bytes \<Rightarrow> bytes \<Rightarrow> nat \<Rightarrow> bytes" where
  "nls_convert buf table count =
    map (\<lambda>c. table ! uchar c) (take count buf) @ drop count buf"

text \<open>The conversion of the part of the buffer that is not converted yet.\<close>

definition convert_buffer :: "request \<Rightarrow> request" where
  "convert_buffer req =
    (case r_cp_table req of
       None \<Rightarrow> req
     | Some table \<Rightarrow>
         req \<lparr> r_buffer := take (r_buffer_conv req) (r_buffer req) @
                 nls_convert (drop (r_buffer_conv req) (r_buffer req)) table
                   (r_buffer_end req - r_buffer_conv req),
               r_buffer_conv := r_buffer_end req \<rparr>)"

definition flush_reset :: "request \<Rightarrow> request" where
  "flush_reset req =
    (if r_buffer_start req = r_buffer_end req
     then req \<lparr> r_buffer_start := 0, r_buffer_end := 0, r_buffer_conv := 0 \<rparr> else req)"

definition req_flush :: "env \<Rightarrow> st \<Rightarrow> int \<times> st" where
  "req_flush env st =
    (let (req, g) = st; bytes_to_write = r_buffer_end req - r_buffer_start req in
     if bytes_to_write = 0 then (1, flush_reset req, g)
     else
       let req = convert_buffer req;
           g = (if g_waitsec g = 0
                then g \<lparr> g_waitsec := 10, g_lasttime := e_time_counter env \<rparr> else g);
           res = e_write env (r_fd req)
                   (bslice (r_buffer_start req) (r_buffer_end req) (r_buffer req))
       in case res of
            IO_ok bytes_written \<Rightarrow>
              (1, flush_reset (req \<lparr> r_buffer_start := r_buffer_start req + bytes_written \<rparr>),
               g \<lparr> g_waitsec := 0 \<rparr>)
          | _ \<Rightarrow>
              let g = g \<lparr> g_waitsec := g_waitsec g - (e_time_counter env - g_lasttime g),
                          g_lasttime := e_time_counter env \<rparr>
              in if g_waitsec g = 0 then (0, req \<lparr> r_buffer_start := 0, r_buffer_end := 0 \<rparr>, g)
                 else if res = IO_again then (-1, req, g)
                 else (0, req \<lparr> r_buffer_start := 0, r_buffer_end := 0, r_buffer_conv := 0 \<rparr>, g))"

definition flush :: "env \<Rightarrow> st \<Rightarrow> st" where
  "flush env st = snd (req_flush env st)"

section \<open>The buffer invariant\<close>

definition buf_ok :: "request \<Rightarrow> bool" where
  "buf_ok r \<longleftrightarrow> r_buffer_start r \<le> r_buffer_end r \<and> r_buffer_end r \<le> r_max_buffer_size r \<and>
     r_max_buffer_size r \<le> length (r_buffer r)"

text \<open>The bytes that wait to be sent.\<close>

definition pending :: "request \<Rightarrow> bytes" where
  "pending r = bslice (r_buffer_start r) (r_buffer_end r) (r_buffer r)"

definition room :: "request \<Rightarrow> nat" where
  "room r = r_max_buffer_size r - r_buffer_end r"

lemma length_pending: "buf_ok r \<Longrightarrow> length (pending r) = r_buffer_end r - r_buffer_start r"
  by (auto simp: pending_def bslice_def buf_ok_def)

lemma req_write_ok [req_inv]: "buf_ok r \<Longrightarrow> buf_ok (snd (req_write r m))"
  by (auto simp: req_write_def buf_ok_def Let_def)

lemma wr_ok [req_inv, simp]: "buf_ok r \<Longrightarrow> buf_ok (wr m r)"
  by (simp add: wr_def req_write_ok)

lemma wr_time_ok [req_inv, simp]:
  "buf_ok r \<Longrightarrow> tm_ok (e_gmtime env (if s = 0 then e_now env else s)) \<Longrightarrow> buf_ok (wr_time env s r)"
  using length_rfc822_text
  by (auto simp: wr_time_def req_write_rfc822_time_def buf_ok_def Let_def split: if_splits)

lemma req_write_outcome:
  assumes "buf_ok r"
  shows "req_write r m =
           (if length m \<le> room r \<or> m = [] then (1, wr m r) else (0, r)) \<and>
         pending (wr m r) = pending r @ (if length m \<le> room r then m else []) \<and>
         length (r_buffer (wr m r)) = length (r_buffer r) \<and> buf_ok (wr m r)"
proof -
  have "pending (wr m r) = pending r @ (if length m \<le> room r then m else [])"
    using assms bslice_mem_write [of "r_buffer_start r" "r_buffer_end r" "r_buffer r" m]
    by (auto simp: wr_def req_write_def room_def pending_def buf_ok_def Let_def)
  then show ?thesis
    using assms by (auto simp: wr_def req_write_def room_def buf_ok_def Let_def)
qed

text \<open>C7: Writing to a request appends the whole message to the bytes that wait to be sent, or
  nothing if it does not fit (then 0 is returned and the request is unchanged); no byte that
  waits is changed and nothing is written behind the end of the buffer.\<close>

theorem req_write_appends:
  assumes "buf_ok r"
  shows "req_write r m =
           (if length m \<le> room r \<or> m = [] then (1, wr m r) else (0, r)) \<and>
         pending (wr m r) = pending r @ (if length m \<le> room r then m else []) \<and>
         length (r_buffer (wr m r)) = length (r_buffer r) \<and> buf_ok (wr m r)"
  by (rule req_write_outcome [OF assms])

text \<open>A fresh request with an empty buffer of \<open>n\<close> bytes.\<close>

definition fresh_request :: "nat \<Rightarrow> request" where
  "fresh_request n = blank_request \<lparr> r_max_buffer_size := n, r_buffer := replicate (n + 1) NUL \<rparr>"

lemma fresh_request_ok [simp]:
  "buf_ok (fresh_request n)" "pending (fresh_request n) = []" "room (fresh_request n) = n"
  by (simp_all add: fresh_request_def buf_ok_def pending_def room_def blank_request_def)

theorem req_write_appends_witness:
  "pending (wr ''cd'' (wr ''ab'' (fresh_request 4))) = ''abcd'' \<and>
   req_write (wr ''ab'' (fresh_request 4)) ''cde'' = (0, wr ''ab'' (fresh_request 4))"
proof -
  have 1: "buf_ok (wr ''ab'' (fresh_request 4))" "pending (wr ''ab'' (fresh_request 4)) = ''ab''"
    using req_write_appends [of "fresh_request 4" "''ab''"] by simp_all
  have "room (wr ''ab'' (fresh_request 4)) = 2"
    by (simp add: wr_def req_write_def room_def fresh_request_def blank_request_def)
  then show ?thesis
    using 1 req_write_appends [OF 1(1), of "''cd''"] req_write_appends [OF 1(1), of "''cde''"]
    by simp
qed

lemma wr_time_pending:
  assumes "buf_ok r" "29 \<le> room r" "tm_ok (e_gmtime env (if s = 0 then e_now env else s))"
  shows "pending (wr_time env s r) =
           pending r @ rfc822_text (e_gmtime env (if s = 0 then e_now env else s))"
  using assms length_rfc822_text [OF assms(3)]
    bslice_mem_write [of "r_buffer_start r" "r_buffer_end r" "r_buffer r"
      "rfc822_text (e_gmtime env (if s = 0 then e_now env else s))"]
  by (auto simp: wr_time_def req_write_rfc822_time_def room_def pending_def buf_ok_def Let_def)

section \<open>What a flush does\<close>

lemma convert_buffer_ok: "buf_ok r \<Longrightarrow> buf_ok (convert_buffer r)"
  by (auto simp: convert_buffer_def buf_ok_def nls_convert_def split: option.split)

lemma flush_reset_ok: "buf_ok r \<Longrightarrow> buf_ok (flush_reset r)"
  by (simp add: flush_reset_def buf_ok_def)

lemma flush_reset_pending: "pending (flush_reset r) = pending r"
  by (simp add: flush_reset_def pending_def)

lemma convert_buffer_fields:
  "r_buffer_start (convert_buffer r) = r_buffer_start r"
  "r_buffer_end (convert_buffer r) = r_buffer_end r"
  "r_fd (convert_buffer r) = r_fd r"
  by (simp_all add: convert_buffer_def split: option.split)

lemma pending_advance:
  "r_buffer_start r + n \<le> r_buffer_end r \<Longrightarrow>
   pending (r \<lparr> r_buffer_start := r_buffer_start r + n \<rparr>) = drop n (pending r)"
  by (simp add: pending_def bslice_def drop_take add.commute)

lemma req_flush_outcome:
  assumes "buf_ok r" "pending r \<noteq> []"
    and res: "e_write env (r_fd r) (pending (convert_buffer r)) = res"
    and taken: "\<And>n. res = IO_ok n \<Longrightarrow> n \<le> length (pending r)"
    and out: "req_flush env (r, g) = (ret, r', g')"
  shows "buf_ok r' \<and>
    (case res of
       IO_ok n \<Rightarrow> ret = 1 \<and> pending r' = drop n (pending (convert_buffer r))
     | IO_again \<Rightarrow> (if g_waitsec g' = 0 then ret = 0 \<and> pending r' = []
                    else ret = - 1 \<and> pending r' = pending (convert_buffer r))
     | IO_err \<Rightarrow> ret = 0 \<and> pending r' = [])"
proof -
  let ?c = "convert_buffer r"
  have ne: "r_buffer_end r - r_buffer_start r \<noteq> 0"
    using assms(1,2) length_pending [OF assms(1)] by (metis length_0_conv)
  have c: "buf_ok ?c" using convert_buffer_ok [OF assms(1)] .
  have len: "length (pending r) = r_buffer_end r - r_buffer_start r"
    using length_pending [OF assms(1)] .
  have e: "pending ?c = bslice (r_buffer_start r) (r_buffer_end r) (r_buffer ?c)"
    by (simp add: pending_def convert_buffer_fields)
  show ?thesis
  proof (cases res)
    case (IO_ok n)
    then have n: "r_buffer_start ?c + n \<le> r_buffer_end ?c"
      using taken [OF IO_ok] len ne by (simp add: convert_buffer_fields)
    have "ret = 1" "r' = flush_reset (?c \<lparr> r_buffer_start := r_buffer_start ?c + n \<rparr>)"
      using out ne res IO_ok by (auto simp: req_flush_def Let_def convert_buffer_fields e)
    moreover have "buf_ok (?c \<lparr> r_buffer_start := r_buffer_start ?c + n \<rparr>)"
      using c n by (simp add: buf_ok_def)
    ultimately show ?thesis
      using IO_ok n by (simp add: flush_reset_ok flush_reset_pending pending_advance)
  next
    case IO_again
    then show ?thesis
      using out ne res c
      by (auto simp: req_flush_def Let_def convert_buffer_fields e buf_ok_def pending_def
          split: if_splits)
  next
    case IO_err
    then show ?thesis
      using out ne res c
      by (auto simp: req_flush_def Let_def convert_buffer_fields e buf_ok_def pending_def
          split: if_splits)
  qed
qed

text \<open>C8: A flush sends the bytes that wait, converted to the code page of the client, in their
  order and each at most once: when the system takes some of them exactly the rest still waits, when
  it takes none (\<open>EAGAIN\<close>) all of them do, and after an error or when the time for the socket is used
  up the buffer is empty.  The result is 1, -1 and 0 in these cases, and the buffer invariant holds
  afterwards.\<close>

theorem req_flush_sends:
  assumes "buf_ok r" "pending r \<noteq> []"
    and res: "e_write env (r_fd r) (pending (convert_buffer r)) = res"
    and taken: "\<And>n. res = IO_ok n \<Longrightarrow> n \<le> length (pending r)"
    and out: "req_flush env (r, g) = (ret, r', g')"
  shows "buf_ok r' \<and>
    (case res of
       IO_ok n \<Rightarrow> ret = 1 \<and> pending r' = drop n (pending (convert_buffer r))
     | IO_again \<Rightarrow> (if g_waitsec g' = 0 then ret = 0 \<and> pending r' = []
                    else ret = - 1 \<and> pending r' = pending (convert_buffer r))
     | IO_err \<Rightarrow> ret = 0 \<and> pending r' = [])"
  by (rule req_flush_outcome [OF assms])

text \<open>An environment for concrete evaluations: the socket takes everything.\<close>

definition sample_env :: env where
  "sample_env = \<lparr>
     e_cfg = sample_config, e_now = 784111777, e_gmtime = \<lambda>_. sample_tm, e_time_counter = 100,
     e_write = \<lambda>_ bs. IO_ok (length bs), e_lan_lla = ''fe80::1'', e_rand = \<lambda>seed i. seed + int i,
     e_getpwnam = \<lambda>_. None, e_stat = \<lambda>_. None, e_access_rx = \<lambda>_. False, e_stack = [],
     e_access_f = \<lambda>_. False, e_read = \<lambda>_ _. RD_again, e_file = \<lambda>_. [], e_open = \<lambda>_. OP_noent,
     e_fstat = \<lambda>_. \<lparr> st_isreg = True, st_isdir = False, st_size = 0, st_mtime = 0 \<rparr>,
     e_mmap = \<lambda>_. None, e_mmap_room = 0, e_pipe = Some (5, 6), e_fcntl = True, e_fork = Some 100,
     e_mkstemp = Some (7, ''/tmp/rtktmpabc123'') \<rparr>"

definition globals_init :: globals where
  "globals_init = \<lparr> g_waitsec = 0, g_lasttime = 0, g_tab = tables_init, user_login_list = [], errlogin_list = [],
     g_login_username = [], g_filesize = 0, g_max_upload_size = 0, g_directory_index = Some ''index.html'',
     g_upgrade_firmware = False \<rparr>"

theorem req_flush_sends_witness:
  "pending (fst (snd (req_flush (sample_env \<lparr> e_write := \<lambda>_ _. IO_ok 3 \<rparr>)
      (wr ''hello'' (fresh_request 10), globals_init)))) = ''lo''"
proof -
  let ?r = "wr ''hello'' (fresh_request 10)"
  let ?env = "sample_env \<lparr> e_write := \<lambda>_ _. IO_ok 3 \<rparr>"
  have p: "pending ?r = ''hello''" "buf_ok ?r"
    using req_write_outcome [of "fresh_request 10" "''hello''"] by simp_all
  have "r_cp_table ?r = None"
    by (simp add: wr_def req_write_def fresh_request_def blank_request_def)
  then have c: "convert_buffer ?r = ?r" by (simp add: convert_buffer_def)
  obtain ret r' g' where out: "req_flush ?env (?r, globals_init) = (ret, r', g')"
    using prod_cases3 by blast
  have "pending r' = drop 3 ''hello''"
    using req_flush_sends [OF p(2) _ _ _ out, of "IO_ok 3"] p c by simp
  then show ?thesis using out by simp
qed

lemma flush_ok [req_inv, simp]:
  assumes "buf_ok r" "\<And>bs n. e_write env (r_fd r) bs = IO_ok n \<Longrightarrow> n \<le> length bs"
  shows "buf_ok (fst (flush env (r, g)))"
proof (cases "r_buffer_end r - r_buffer_start r = 0")
  case True
  then show ?thesis using assms(1) by (simp add: flush_def req_flush_def flush_reset_ok)
next
  case False
  have "length (pending (convert_buffer r)) = length (pending r)"
    using length_pending [OF assms(1)] length_pending [OF convert_buffer_ok [OF assms(1)]]
    by (simp add: convert_buffer_fields)
  moreover have "pending r \<noteq> []" using length_pending [OF assms(1)] False by auto
  ultimately show ?thesis
    using req_flush_outcome [OF assms(1) _ refl, of env g] assms(2)
    by (auto simp: flush_def) (metis prod.collapse)
qed

end
