(* ===== verification/Encode.thy ===== *)
theory Encode
  imports Util
begin

text \<open>
  The encodings of \<open>src/src/util.c\<close>: percent encoding (\<open>escape_string\<close>, \<open>unescape_uri\<close>),
  BASE64 as the \<open>Authorization\<close> header uses it, and the HTML entities that keep values out of
  the mark-up of a page.
\<close>

section \<open>Percent encoding\<close>

text \<open>\<open>HEX_TO_DECIMAL\<close> on two (signed) characters, stored into a \<open>char\<close>.\<close>

definition hex_val :: "char \<Rightarrow> int" where
  "hex_val c = (if schar c \<ge> 65 then (if uchar c \<ge> 96 then schar c - 32 else schar c) - 65 + 10
                else schar c - 48)"

definition hex_to_decimal :: "char \<Rightarrow> char \<Rightarrow> char" where
  "hex_to_decimal c1 c2 = chr_of (nat ((hex_val c1 * 16 + hex_val c2) mod 256))"

text \<open>The second loop of \<open>unescape_uri\<close>; \<open>None\<close> is the return value 0 of an incomplete escape.\<close>

fun unescape_loop :: "string \<Rightarrow> string option" where
  "unescape_loop [] = Some []"
| "unescape_loop (c # s) =
    (if c = CHR ''%'' then
       (case s of
          c1 # c2 # s' \<Rightarrow> map_option (\<lambda>t. hex_to_decimal c1 c2 # t) (unescape_loop s')
        | _ \<Rightarrow> None)
     else map_option (\<lambda>t. c # t) (unescape_loop s))"

text \<open>The first loop advances \<open>uri\<close> to the first line feed or carriage return, or to the end.  The
  string that is read afterwards ends at a decoded zero byte.\<close>

definition unescape_uri :: "string \<Rightarrow> string option" where
  "unescape_uri uri =
    (let crlf = (\<lambda>c. c = CR \<or> c = LF)
     in map_option (\<lambda>t. cstr (takeWhile (\<lambda>c. \<not> crlf c) uri @ t))
          (unescape_loop (dropWhile (\<lambda>c. \<not> crlf c) uri)))"

text \<open>The bit table of \<open>src/src/escape.h\<close>.\<close>

definition needs_escape_tab :: "nat list" where
  "needs_escape_tab =
    [0xffffffff, 0x780000fd, 0x78000001, 0xb8000001, 0xffffffff, 0xffffffff, 0xffffffff, 0xffffffff]"

definition needs_escape :: "char \<Rightarrow> bool" where
  "needs_escape c = odd ((needs_escape_tab ! (uchar c div 32)) div 2 ^ (uchar c mod 32))"

definition int_to_hex :: "nat \<Rightarrow> char" where
  "int_to_hex x = (if x \<ge> 10 then chr_of (65 + (x - 10)) else chr_of (48 + x))"

definition escape_char :: "char \<Rightarrow> string" where
  "escape_char c =
    (if needs_escape c then [CHR ''%'', int_to_hex (uchar c div 16), int_to_hex (uchar c mod 16)]
     else [c])"

text \<open>\<open>escape_string (inp, buf)\<close>: \<open>buf\<close> says whether the caller gave a buffer; with none and
  nothing to allocate the result is the null pointer.\<close>

definition escape_string :: "string \<Rightarrow> bool \<Rightarrow> string option" where
  "escape_string inp buf =
    (if \<not> buf \<and> length inp * 3 = 0 then None else Some (concat (map escape_char inp)))"

lemma hex_val_int_to_hex: "x < 16 \<Longrightarrow> hex_val (int_to_hex x) = int x"
  by (auto simp: hex_val_def int_to_hex_def schar_def)

lemma hex_to_decimal_int_to_hex:
  "hex_to_decimal (int_to_hex (uchar c div 16)) (int_to_hex (uchar c mod 16)) = c"
proof -
  have "uchar c div 16 < 16" using uchar_less [of c] by linarith
  moreover have "int (uchar c div 16) * 16 + int (uchar c mod 16) = int (uchar c)"
    by (metis div_mult_mod_eq of_nat_add of_nat_mult of_nat_numeral)
  ultimately show ?thesis
    by (simp add: hex_to_decimal_def hex_val_int_to_hex)
qed

lemma unescape_escape_append:
  "unescape_loop (escape_char c @ s) = map_option (\<lambda>t. c # t) (unescape_loop s)"
  if "needs_escape (CHR ''%'')"
  using that by (auto simp: escape_char_def hex_to_decimal_int_to_hex)

lemma needs_escape_percent: "needs_escape (CHR ''%'')"
  by (simp add: needs_escape_def needs_escape_tab_def uchar_def)

lemma unescape_escape: "unescape_loop (concat (map escape_char s)) = Some s"
  by (induction s) (auto simp: unescape_escape_append needs_escape_percent)

lemma escape_char_safe:
  "d \<in> set (escape_char c) \<Longrightarrow> d = CHR ''%'' \<or> \<not> needs_escape d"
proof (cases "needs_escape c")
  case True
  assume d: "d \<in> set (escape_char c)"
  have hex: "\<not> needs_escape (int_to_hex x)" if "x < 16" for x
  proof -
    have "x = 0 \<or> x = 1 \<or> x = 2 \<or> x = 3 \<or> x = 4 \<or> x = 5 \<or> x = 6 \<or> x = 7 \<or> x = 8 \<or> x = 9 \<or>
          x = 10 \<or> x = 11 \<or> x = 12 \<or> x = 13 \<or> x = 14 \<or> x = 15"
      using that by arith
    then show ?thesis
      by (elim disjE) (simp_all add: needs_escape_def needs_escape_tab_def int_to_hex_def)
  qed
  have "uchar c div 16 < 16" using uchar_less [of c] by linarith
  then show ?thesis using d True hex by (auto simp: escape_char_def)
qed (simp add: escape_char_def)

lemma escape_safe:
  "c \<in> set (concat (map escape_char s)) \<Longrightarrow> c = CHR ''%'' \<or> \<not> needs_escape c"
  using escape_char_safe by auto

lemma escape_no_breaks:
  "set (concat (map escape_char s)) \<inter> {LF, CR, CHR '' '', QUOTE, CHR ''<'', CHR ''>''} = {}"
proof -
  have all: "\<forall>c \<in> {LF, CR, CHR '' '', QUOTE, CHR ''<'', CHR ''>''}. needs_escape c \<and> c \<noteq> CHR ''%''"
    by (simp add: needs_escape_def needs_escape_tab_def uchar_def)
  have "c \<notin> {LF, CR, CHR '' '', QUOTE, CHR ''<'', CHR ''>''}"
    if "c \<in> set (concat (map escape_char s))" for c
    using escape_safe [OF that] all by blast
  then show ?thesis by (rule disjoint_iff [THEN iffD2, OF allI, OF impI])
qed

lemma length_escape: "length (concat (map escape_char s)) \<le> 3 * length s"
  by (induction s) (auto simp: escape_char_def)

text \<open>C15: The decoding loop inverts \<open>escape_string\<close> on every string, and what
  \<open>escape_string\<close> produces holds no character of the escape table apart from the percent sign: no
  white space, no line break, no quote and no angle bracket reaches a redirect or a page.\<close>

theorem escape_string_roundtrip:
  assumes "escape_string inp buf = Some out"
  shows "unescape_loop out = Some inp \<and>
         (\<forall>c \<in> set out. c = CHR ''%'' \<or> \<not> needs_escape c) \<and>
         set out \<inter> {LF, CR, CHR '' '', QUOTE, CHR ''<'', CHR ''>''} = {} \<and>
         length out \<le> 3 * length inp"
proof -
  have out: "out = concat (map escape_char inp)"
    using assms by (auto simp: escape_string_def split: if_splits)
  show ?thesis
    unfolding out
    by (intro conjI ballI unescape_escape escape_safe escape_no_breaks length_escape)
qed

theorem escape_string_roundtrip_witness:
  "escape_string ''a b<c>'' True = Some ''a%20b%3Cc%3E'' \<and>
   unescape_loop ''a%20b%3Cc%3E'' = Some ''a b<c>''"
proof -
  have e: "escape_string ''a b<c>'' True = Some ''a%20b%3Cc%3E''"
    by (simp add: escape_string_def escape_char_def needs_escape_def needs_escape_tab_def
        int_to_hex_def char_eval)
  show ?thesis using e escape_string_roundtrip [OF e] by simp
qed

lemma unescape_uri_plain:
  assumes "LF \<notin> set uri" "CR \<notin> set uri" "NUL \<notin> set uri"
  shows "unescape_uri uri = Some uri"
proof -
  have *: "\<forall>c \<in> set uri. c \<noteq> CR \<and> c \<noteq> LF" using assms by auto
  have "dropWhile (\<lambda>c. c \<noteq> CR \<and> c \<noteq> LF) uri = []" "takeWhile (\<lambda>c. c \<noteq> CR \<and> c \<noteq> LF) uri = uri"
    using * by (simp_all only: dropWhile_eq_Nil_conv takeWhile_eq_all_conv)
  then show ?thesis using assms(3)
    by (simp only: unescape_uri_def Let_def de_Morgan_disj unescape_loop.simps option.map
        append_Nil2 cstr_id [OF assms(3)])
qed

text \<open>On a URI with no line break in it (the request line is cut at its line break, so no
  URI of a request has one) \<open>unescape_uri\<close> decodes nothing: escapes such as \<open>%2e\<close> reach the file
  system unchanged, where the comment promises the decoded character.\<close>

theorem unescape_uri_identity:
  assumes "LF \<notin> set uri" "CR \<notin> set uri" "NUL \<notin> set uri"
  shows "unescape_uri uri = Some uri"
  by (rule unescape_uri_plain [OF assms])

theorem unescape_uri_identity_witness:
  "unescape_uri ''/a%20b'' = Some ''/a%20b'' \<and> unescape_loop ''/a%20b'' = Some ''/a b''"
proof
  show "unescape_uri ''/a%20b'' = Some ''/a%20b''"
    by (rule unescape_uri_identity) simp_all
  show "unescape_loop ''/a%20b'' = Some ''/a b''"
    by (simp add: hex_to_decimal_def hex_val_def char_eval)
qed

section \<open>BASE64\<close>

definition b64_val :: "char \<Rightarrow> int" where
  "b64_val c =
    (let v = schar c in
     if 65 \<le> v \<and> v \<le> 90 then v - 65
     else if 97 \<le> v \<and> v \<le> 122 then v - 97 + 26
     else if 48 \<le> v \<and> v \<le> 57 then v - 48 + 52
     else if c = CHR ''+'' then 62
     else if c = CHR ''-'' then 63
     else -1)"

text \<open>One pass of the loop of \<open>base64decode\<close>: \<open>bitval\<close>, \<open>bits\<close> and the bytes written so far.
  Between two characters fewer than 8 bits are pending, so the inner \<open>while\<close> runs at most once.\<close>

fun b64_drain :: "nat \<Rightarrow> nat \<Rightarrow> nat \<Rightarrow> bytes \<Rightarrow> nat \<times> nat \<times> bytes" where
  "b64_drain maxlen bitval bits dst =
    (if bits \<ge> 8 then
       let dst = (if length dst < maxlen then dst @ [chr_of (drop_bit (bits - 8) bitval)] else dst);
           bits = bits - 8
       in b64_drain maxlen (take_bit bits bitval) bits dst
     else (bitval, bits, dst))"

declare b64_drain.simps [simp del]

definition b64_step :: "nat \<Rightarrow> char \<Rightarrow> nat \<times> nat \<times> bytes \<Rightarrow> nat \<times> nat \<times> bytes" where
  "b64_step maxlen c st =
    (case st of (bitval, bits, dst) \<Rightarrow>
      (if b64_val c \<ge> 0
       then b64_drain maxlen (push_bit 6 bitval + nat (b64_val c)) (bits + 6) dst
       else st))"

definition base64decode :: "string \<Rightarrow> nat \<Rightarrow> bytes" where
  "base64decode src maxlen =
    (let (bitval, bits, dst) = fold (b64_step maxlen) src (0, 0, [])
     in if length dst < maxlen then dst @ [NUL] else dst)"

definition base64chars :: string where
  "base64chars = ''abcdefghijklmnopqrstuvwxyzABCDEFGHIJKLMNOPQRSTUVWXYZ0123456789./''"

text \<open>\<open>base64encode\<close> takes groups of at most three bytes; a short last group is not shifted to
  the left.\<close>

fun base64encode :: "bytes \<Rightarrow> string" where
  "base64encode from =
    (if from = [] then []
     else let k = foldl (\<lambda>k c. (k * 256) + uchar c) 0 (take 3 from)
          in [base64chars ! (k div 2 ^ 18 mod 64), base64chars ! (k div 2 ^ 12 mod 64),
              base64chars ! (k div 2 ^ 6 mod 64), base64chars ! (k mod 64)]
             @ base64encode (drop 3 from))"

declare base64encode.simps [simp del]


text \<open>The alphabet that \<open>base64decode\<close> reads (a minus sign, not a slash, is 63) and the encoding of
  RFC 4648 over it.\<close>

definition b64_chr :: "nat \<Rightarrow> char" where
  "b64_chr i =
    (if i < 26 then chr_of (65 + i) else if i < 52 then chr_of (97 + (i - 26))
     else if i < 62 then chr_of (48 + (i - 52)) else if i = 62 then CHR ''+'' else CHR ''-'')"

fun b64_encode :: "bytes \<Rightarrow> string" where
  "b64_encode [] = []"
| "b64_encode [a] = [b64_chr (uchar a div 4), b64_chr (uchar a mod 4 * 16), CHR ''='', CHR ''='']"
| "b64_encode [a, b] =
    [b64_chr (uchar a div 4), b64_chr (uchar a mod 4 * 16 + uchar b div 16),
     b64_chr (uchar b mod 16 * 4), CHR ''='']"
| "b64_encode (a # b # c # s) =
    [b64_chr (uchar a div 4), b64_chr (uchar a mod 4 * 16 + uchar b div 16),
     b64_chr (uchar b mod 16 * 4 + uchar c div 64), b64_chr (uchar c mod 64)] @ b64_encode s"

lemma b64_val_chr: "i < 64 \<Longrightarrow> b64_val (b64_chr i) = int i"
proof -
  assume "i < 64"
  have sc: "n < 128 \<Longrightarrow> schar (chr_of n) = int n" for n by (simp add: schar_def)
  consider "i < 26" | "26 \<le> i" "i < 52" | "52 \<le> i" "i < 62" | "i = 62" | "i = 63"
    using \<open>i < 64\<close> by linarith
  then show ?thesis
    by cases (simp_all add: b64_val_def b64_chr_def Let_def sc, simp_all add: schar_def uchar_def)
qed

lemma b64_val_pad: "b64_val (CHR ''='') = - 1"
  by (simp add: b64_val_def Let_def schar_def uchar_def)

lemma b64_step_chr:
  "i < 64 \<Longrightarrow>
   b64_step maxlen (b64_chr i) (bitval, bits, dst) = b64_drain maxlen (bitval * 64 + i) (bits + 6) dst"
  by (simp add: b64_step_def b64_val_chr push_bit_eq_mult)

lemma b64_step_pad: "b64_step maxlen (CHR ''='') st = st"
  by (simp add: b64_step_def b64_val_pad split: prod.split)

definition put_byte :: "nat \<Rightarrow> bytes \<Rightarrow> char \<Rightarrow> bytes" where
  "put_byte maxlen dst c = (if length dst < maxlen then dst @ [c] else dst)"

lemma b64_drain_unfold:
  "bits < 8 \<Longrightarrow> b64_drain maxlen v bits dst = (v, bits, dst)"
  "8 \<le> bits \<Longrightarrow> b64_drain maxlen v bits dst =
     b64_drain maxlen (take_bit (bits - 8) v) (bits - 8)
       (if length dst < maxlen then dst @ [chr_of (drop_bit (bits - 8) v)] else dst)"
  by (subst b64_drain.simps, simp add: Let_def)+

lemma b64_drain_simps:
  "b64_drain maxlen v 6 dst = (v, 6, dst)"
  "b64_drain maxlen v 12 dst = (v mod 16, 4, put_byte maxlen dst (chr_of (v div 16)))"
  "b64_drain maxlen v 10 dst = (v mod 4, 2, put_byte maxlen dst (chr_of (v div 4)))"
  "b64_drain maxlen v 8 dst = (0, 0, put_byte maxlen dst (chr_of v))"
  by (simp_all add: b64_drain_unfold Let_def put_byte_def take_bit_eq_mod drop_bit_eq_div)

lemma sextets:
  assumes "a < 256" "b < 256" "c < (256 :: nat)"
  shows "a div 4 < 64" "a mod 4 * 16 + b div 16 < 64" "b mod 16 * 4 + c div 64 < 64"
    "(a div 4 * 64 + (a mod 4 * 16 + b div 16)) div 16 = a"
    "(a div 4 * 64 + (a mod 4 * 16 + b div 16)) mod 16 = b div 16"
    "(b div 16 * 64 + (b mod 16 * 4 + c div 64)) div 4 = b"
    "(b div 16 * 64 + (b mod 16 * 4 + c div 64)) mod 4 = c div 64"
    "c div 64 * 64 + c mod 64 = c"
proof -
  have e: "a div 4 * 64 + (a mod 4 * 16 + b div 16) = b div 16 + a * 16"
    "b div 16 * 64 + (b mod 16 * 4 + c div 64) = c div 64 + b * 4"
    using div_mult_mod_eq [of a 4] div_mult_mod_eq [of b 16] by linarith+
  have l: "b div 16 < 16" "c div 64 < 4" using assms by linarith+
  show "a div 4 < 64" "a mod 4 * 16 + b div 16 < 64" "b mod 16 * 4 + c div 64 < 64"
    using assms l mod_less_divisor [of 4 a] mod_less_divisor [of 16 b] by linarith+
  show "(a div 4 * 64 + (a mod 4 * 16 + b div 16)) div 16 = a"
    "(a div 4 * 64 + (a mod 4 * 16 + b div 16)) mod 16 = b div 16"
    "(b div 16 * 64 + (b mod 16 * 4 + c div 64)) div 4 = b"
    "(b div 16 * 64 + (b mod 16 * 4 + c div 64)) mod 4 = c div 64"
    unfolding e using l by simp_all
  show "c div 64 * 64 + c mod 64 = c" by simp
qed

lemma put_byte_take: "put_byte m (take m xs) c = take m (xs @ [c])"
  by (cases "m - length xs") (auto simp: put_byte_def min_def)

lemma b64_group:
  "fold (b64_step m) [b64_chr (uchar a div 4), b64_chr (uchar a mod 4 * 16 + uchar b div 16),
     b64_chr (uchar b mod 16 * 4 + uchar c div 64), b64_chr (uchar c mod 64)] (0, 0, take m xs)
   = (0, 0, take m (xs @ [a, b, c]))"
  using sextets [OF uchar_less [of a] uchar_less [of b] uchar_less [of c]]
  by (simp add: b64_step_chr b64_drain_simps put_byte_take del: take_append)

lemma b64_fold:
  "\<exists>v k. fold (b64_step m) (b64_encode s) (0, 0, take m xs) = (v, k, take m (xs @ s))"
proof (induction s arbitrary: xs rule: b64_encode.induct)
  case (2 a)
  then show ?case
    using sextets [OF uchar_less [of a], of 0 0]
    by (simp add: b64_step_chr b64_drain_simps put_byte_take b64_step_pad del: take_append)
next
  case (3 a b)
  then show ?case
    using sextets [OF uchar_less [of a] uchar_less [of b], of 0]
    by (simp add: b64_step_chr b64_drain_simps put_byte_take b64_step_pad del: take_append)
next
  case (4 a b c s)
  show ?case
    using 4 [of "xs @ [a, b, c]"] by (simp only: b64_encode.simps fold_append comp_apply b64_group)
      simp
qed simp

text \<open>\<open>base64decode\<close> inverts the BASE64 encoding, with padding, over the alphabet it reads
  (the standard one with a minus sign in the place of the slash); the output is cut to the size of
  the destination and terminated by a zero byte when that fits.\<close>

theorem base64decode_encode: "base64decode (b64_encode s) maxlen = take maxlen (s @ [NUL])"
proof -
  obtain v k where f: "fold (b64_step maxlen) (b64_encode s) (0, 0, []) = (v, k, take maxlen s)"
    using b64_fold [of maxlen s "[]"] by auto
  have "put_byte maxlen (take maxlen s) NUL = take maxlen (s @ [NUL])" by (rule put_byte_take)
  then show ?thesis by (simp add: base64decode_def f put_byte_def)
qed

text \<open>The slash of the standard alphabet is skipped like padding: the standard encoding of
  three question marks loses its last byte.\<close>

lemma base64decode_slash: "base64decode ''Pz8/'' 8 = [CHR ''?'', CHR ''?'', NUL]"
  by (simp add: base64decode_def b64_step_def b64_val_def push_bit_eq_mult take_bit_eq_mod
      drop_bit_eq_div b64_drain_unfold Let_def char_eval)

lemma length_base64encode: "length (base64encode s) = 4 * ((length s + 2) div 3)"
proof (induction s rule: base64encode.induct)
  case (1 s)
  show ?case
  proof (cases "s = []")
    case False
    then have "length s = 1 \<or> length s = 2 \<or> 3 \<le> length s" by (cases s rule: b64_encode.cases) auto
    then show ?thesis using 1 False
      by (subst base64encode.simps) (auto simp: Let_def le_div_geq)
  qed (simp add: base64encode.simps)
qed

section \<open>HTML entities\<close>

definition htmlTagCharMapping :: "(char \<times> string) list" where
  "htmlTagCharMapping =
    [(CHR ''&'', ''&amp;''), (CHR ''<'', ''&lt;''), (CHR ''>'', ''&gt;''),
     (QUOTE, ''&quot;''), (CHR 0x27, ''&#39;'')]"

definition calcHtmlStrSize :: "string \<Rightarrow> nat" where
  "calcHtmlStrSize str =
    fold (\<lambda>c len. case map_of htmlTagCharMapping c of
                    Some m \<Rightarrow> len + length m
                  | None \<Rightarrow> len + 1) str 0"

text \<open>The copying loop: an entity is appended only when it still fits into \<open>data_len\<close> bytes.\<close>

definition escape_html_step :: "nat \<Rightarrow> char \<Rightarrow> string \<Rightarrow> string" where
  "escape_html_step data_len c data =
    (case map_of htmlTagCharMapping c of
       Some m \<Rightarrow> if data_len - length data > length m then data @ m else data
     | None \<Rightarrow> data @ [c])"

definition escapeHtmlstr :: "string option \<Rightarrow> string option" where
  "escapeHtmlstr str =
    (case str of
       None \<Rightarrow> None
     | Some s \<Rightarrow>
         (let data_len = calcHtmlStrSize s + 1
          in Some (take (data_len - 1) (fold (escape_html_step data_len) s []))))"

definition strContainXSSChar :: "string option \<Rightarrow> bool" where
  "strContainXSSChar str =
    (case str of None \<Rightarrow> False
     | Some s \<Rightarrow> list_ex (\<lambda>c. map_of htmlTagCharMapping c \<noteq> None) s)"

text \<open>\<open>strValToASP\<close>: the parameter says whether \<open>addASPTempStr\<close> could record the new string.\<close>

definition strValToASP :: "bool \<Rightarrow> string option \<Rightarrow> string option" where
  "strValToASP addASPTempStr_ok str =
    (if strContainXSSChar str then
       (case escapeHtmlstr str of
          None \<Rightarrow> str
        | Some dst \<Rightarrow> if addASPTempStr_ok then Some dst else str)
     else str)"

definition html_char :: "char \<Rightarrow> string" where
  "html_char c = (case map_of htmlTagCharMapping c of Some m \<Rightarrow> m | None \<Rightarrow> [c])"

lemma calcHtmlStrSize_eq: "calcHtmlStrSize s = length (concat (map html_char s))"
proof -
  have "fold (\<lambda>c len. case map_of htmlTagCharMapping c of Some m \<Rightarrow> len + length m | None \<Rightarrow> len + 1)
          s n = n + length (concat (map html_char s))" for n
    by (induction s arbitrary: n) (auto simp: html_char_def split: option.split)
  then show ?thesis by (simp add: calcHtmlStrSize_def)
qed

lemma escape_html_fold:
  "n > length data + length (concat (map html_char s)) \<Longrightarrow>
   fold (escape_html_step n) s data = data @ concat (map html_char s)"
proof (induction s arbitrary: data)
  case (Cons c s)
  have "escape_html_step n c data = data @ html_char c"
    using Cons.prems by (auto simp: escape_html_step_def html_char_def split: option.splits)
  then show ?case using Cons by simp
qed simp

lemma html_char_safe: "\<forall>d \<in> set (html_char c). d \<notin> {CHR ''<'', CHR ''>'', QUOTE, CHR 0x27}"
  by (auto simp: html_char_def htmlTagCharMapping_def)

text \<open>C16: \<open>escapeHtmlstr\<close> computes the buffer size it needs exactly, so no entity is dropped and
  nothing is cut: the result is the concatenation of the entities, and no angle bracket or quote
  is left in it.  A value that \<open>strValToASP\<close> hands out is free of them, unless the table of
  temporary strings is full.\<close>

theorem escapeHtmlstr_exact:
  "escapeHtmlstr (Some s) = Some (concat (map html_char s)) \<and>
   set (concat (map html_char s)) \<inter> {CHR ''<'', CHR ''>'', QUOTE, CHR 0x27} = {} \<and>
   strValToASP True (Some s) = Some (concat (map html_char s))"
proof -
  have e: "escapeHtmlstr (Some s) = Some (concat (map html_char s))"
    by (simp add: escapeHtmlstr_def Let_def calcHtmlStrSize_eq escape_html_fold)
  have "concat (map html_char s) = s" if "\<not> strContainXSSChar (Some s)"
    using that by (induction s) (auto simp: strContainXSSChar_def html_char_def)
  then show ?thesis
    using e html_char_safe by (auto simp: strValToASP_def disjoint_iff)
qed

end
