(* ===== verification/Hash.thy ===== *)
theory Hash
  imports Util
begin

text \<open>
  The hash tables of \<open>src/src/hash.c\<close>: mime types by file extension, home directories by
  user name, document roots by host name, and the matching of browsers.  The interface
  \<open>first_wins_table\<close> is what the configuration relies on: after loading a list of pairs a lookup
  finds the first pair with its key.
\<close>

definition MIME_HASHTABLE_SIZE :: int where "MIME_HASHTABLE_SIZE = 47"
definition PASSWD_HASHTABLE_SIZE :: int where "PASSWD_HASHTABLE_SIZE = 47"
definition VIRTUALHOST_HASHTABLE_SIZE :: int where "VIRTUALHOST_HASHTABLE_SIZE = 47"
definition BROWSERMATCH_HASHTABLE_SIZE :: int where "BROWSERMATCH_HASHTABLE_SIZE = 47"

section \<open>Hash values\<close>

text \<open>The sum is over signed characters and \<open>%\<close> truncates: the result can be negative.\<close>

definition get_mime_hash_value :: "string \<Rightarrow> int" where
  "get_mime_hash_value extension = fold (\<lambda>c hash. hash + schar c) extension 0 smod MIME_HASHTABLE_SIZE"

definition passwd_hash :: "string \<Rightarrow> int" where
  "passwd_hash name =
    (if length name < 4 then 0
     else (schar (name ! 0) + schar (name ! 1) + schar (name ! 2) + schar (name ! 3))
            smod PASSWD_HASHTABLE_SIZE)"

text \<open>The first character, the terminating zero byte when the string is empty.\<close>

definition get_browser_hash_value :: "string \<Rightarrow> int" where
  "get_browser_hash_value browser =
    (case browser of [] \<Rightarrow> 0 | c # _ \<Rightarrow> schar c smod BROWSERMATCH_HASHTABLE_SIZE)"

section \<open>Chains\<close>

text \<open>The walk of \<open>add_mime_type\<close> and \<open>add_virtual_host\<close>: stop at an equal key, append at the end.\<close>

fun chain_add :: "string \<Rightarrow> 'v \<Rightarrow> (string \<times> 'v) list \<Rightarrow> (string \<times> 'v) list" where
  "chain_add k v [] = [(k, v)]"
| "chain_add k v ((k', v') # rest) =
    (if k' = k then (k', v') # rest else (k', v') # chain_add k v rest)"

fun chain_find :: "(string \<Rightarrow> string \<Rightarrow> bool) \<Rightarrow> string \<Rightarrow> (string \<times> 'v) list \<Rightarrow> 'v option" where
  "chain_find eq k [] = None"
| "chain_find eq k ((k', v) # rest) = (if eq k' k then Some v else chain_find eq k rest)"

definition add_mime_type :: "string option \<Rightarrow> string \<Rightarrow> tables \<Rightarrow> tables" where
  "add_mime_type extension ty t =
    (case extension of
       None \<Rightarrow> t
     | Some e \<Rightarrow>
         (let hash = get_mime_hash_value e
          in t \<lparr> mime_hashtable :=
                 (mime_hashtable t) (hash := chain_add e ty (mime_hashtable t hash)) \<rparr>))"

definition find_mime :: "tables \<Rightarrow> string \<Rightarrow> string option" where
  "find_mime t e = chain_find (=) e (mime_hashtable t (get_mime_hash_value e))"

definition get_mime_type :: "config \<Rightarrow> tables \<Rightarrow> string \<Rightarrow> string" where
  "get_mime_type cfg t filename =
    (case strrchr filename (CHR ''.'') of
       None \<Rightarrow> default_type cfg
     | Some i \<Rightarrow>
         (let extension = drop (i + 1) filename
          in if extension = [] then default_type cfg
             else opt (default_type cfg) (find_mime t extension)))"

text \<open>\<open>getpwnam\<close> is a parameter: the home directory of a user, if there is such a user.\<close>

definition get_home_dir ::
  "config \<Rightarrow> (string \<Rightarrow> string option) \<Rightarrow> string \<Rightarrow> tables \<Rightarrow> string option \<times> tables" where
  "get_home_dir cfg getpwnam name t =
    (if server_chroot cfg \<noteq> None then (None, t)
     else
       let hash = passwd_hash name;
           current = passwd_hashtable t hash
       in case chain_find (=) name current of
            Some dir \<Rightarrow> (Some dir, t)
          | None \<Rightarrow>
              (case getpwnam name of
                 None \<Rightarrow> (None, t)
               | Some dir \<Rightarrow>
                   (Some dir,
                    t \<lparr> passwd_hashtable := (passwd_hashtable t) (hash := current @ [(name, dir)]) \<rparr>)))"

definition dump_mime :: "tables \<Rightarrow> tables" where
  "dump_mime t = t \<lparr> mime_hashtable :=
     (\<lambda>i. if 0 \<le> i \<and> i < MIME_HASHTABLE_SIZE then [] else mime_hashtable t i) \<rparr>"

definition dump_passwd :: "tables \<Rightarrow> tables" where
  "dump_passwd t = t \<lparr> passwd_hashtable :=
     (\<lambda>i. if 0 \<le> i \<and> i < PASSWD_HASHTABLE_SIZE then [] else passwd_hashtable t i) \<rparr>"

section \<open>Browsers\<close>

definition BM_NOCHARSET :: nat where "BM_NOCHARSET = 1"

text \<open>\<open>None\<close> is \<open>exit (1)\<close> on an action that is not known.\<close>

definition add_browsermatch :: "string \<Rightarrow> string \<Rightarrow> tables \<Rightarrow> tables option" where
  "add_browsermatch browser action t =
    (if strcaseeq action ''No-Charset'' \<or> strcaseeq action ''NoCharset'' then
       (let hash = get_browser_hash_value browser;
            bm = \<lparr> bm_browser = browser, bm_browser_len = length browser, bm_type = BM_NOCHARSET \<rparr>
        in Some (t \<lparr> browsermatch_hashtable :=
             (browsermatch_hashtable t) (hash := bm # browsermatch_hashtable t hash) \<rparr>))
     else None)"

definition browser_match_request :: "tables \<Rightarrow> request \<Rightarrow> request" where
  "browser_match_request t req =
    (case r_user_agent req of
       None \<Rightarrow> req
     | Some ua \<Rightarrow>
         fold (\<lambda>bm req.
             if length ua \<ge> bm_browser_len bm \<and> strncaseeq (bm_browser_len bm) ua (bm_browser bm)
                \<and> bm_type bm = BM_NOCHARSET
             then req \<lparr> r_send_charset := False \<rparr> else req)
           (browsermatch_hashtable t (get_browser_hash_value ua)) req)"

section \<open>Virtual hosts\<close>

definition add_virtual_host :: "string option \<Rightarrow> string \<Rightarrow> tables \<Rightarrow> tables" where
  "add_virtual_host name docroot t =
    (case name of
       None \<Rightarrow> t
     | Some n \<Rightarrow>
         (let hash = get_mime_hash_value n;
              current = virtualhost_hashtable t hash
          in if n \<in> fst ` set current then t
             else t \<lparr> virtualhost_hashtable :=
                       (virtualhost_hashtable t) (hash := chain_add n docroot current),
                     virtualhost := True \<rparr>))"

text \<open>\<open>chroot_virtual_hosts\<close> cuts the prefix \<open>server_chroot\<close> from every document root that has it.\<close>

definition cut_prefix :: "string \<Rightarrow> string \<Rightarrow> string" where
  "cut_prefix root path =
    (if strneq (length root) path root then drop (length root) path else path)"

definition chroot_virtual_hosts :: "config \<Rightarrow> tables \<Rightarrow> tables" where
  "chroot_virtual_hosts cfg t =
    (case server_chroot cfg of
       None \<Rightarrow> t
     | Some root \<Rightarrow>
         t \<lparr> virtualhost_hashtable :=
           (\<lambda>hash. if 0 \<le> hash \<and> hash < VIRTUALHOST_HASHTABLE_SIZE
                   then map (\<lambda>(k, v). (k, cut_prefix root v)) (virtualhost_hashtable t hash)
                   else virtualhost_hashtable t hash) \<rparr>)"

definition get_virtual_host :: "tables \<Rightarrow> string \<Rightarrow> string option" where
  "get_virtual_host t name =
    chain_find strcaseeq name (virtualhost_hashtable t (get_mime_hash_value name))"

section \<open>The interface of the tables\<close>

text \<open>
  A table whose first entry for a key stays: inserting a key that is there changes nothing.  The
  laws are for the keys in \<open>key_ok\<close>.
\<close>

definition load_table :: "('k \<Rightarrow> 'v \<Rightarrow> 't \<Rightarrow> 't) \<Rightarrow> ('k \<times> 'v) list \<Rightarrow> 't \<Rightarrow> 't" where
  "load_table add kvs t = fold (\<lambda>(k, v). add k v) kvs t"

locale first_wins_table =
  fixes key_ok :: "'k \<Rightarrow> bool"
    and emp :: "'t"
    and ins :: "'k \<Rightarrow> 'v \<Rightarrow> 't \<Rightarrow> 't"
    and look :: "'t \<Rightarrow> 'k \<Rightarrow> 'v option"
  assumes look_emp: "key_ok k \<Longrightarrow> look emp k = None"
    and look_ins: "key_ok k \<Longrightarrow> key_ok k' \<Longrightarrow>
      look (ins k v t) k' =
        (case look t k' of Some w \<Rightarrow> Some w | None \<Rightarrow> if k' = k then Some v else None)"
begin

lemma look_load:
  assumes "\<forall>k \<in> fst ` set kvs. key_ok k" "key_ok k'"
  shows "look (load_table ins kvs t) k' = (case look t k' of Some w \<Rightarrow> Some w | None \<Rightarrow> map_of kvs k')"
  using assms
proof (induction kvs arbitrary: t)
  case Nil
  then show ?case by (simp add: load_table_def split: option.split)
next
  case (Cons kv kvs)
  obtain k v where kv: "kv = (k, v)" by fastforce
  have "look (load_table ins (kv # kvs) t) k' = look (load_table ins kvs (ins k v t)) k'"
    by (simp add: load_table_def kv)
  also have "\<dots> = (case look (ins k v t) k' of Some w \<Rightarrow> Some w | None \<Rightarrow> map_of kvs k')"
    by (rule Cons.IH) (use Cons.prems in auto)
  also have "\<dots> = (case look t k' of Some w \<Rightarrow> Some w | None \<Rightarrow> map_of (kv # kvs) k')"
    using look_ins [of k k' v t] Cons.prems by (auto simp: kv split: option.splits)
  finally show ?case .
qed

corollary look_loaded:
  "\<forall>k \<in> fst ` set kvs. key_ok k \<Longrightarrow> key_ok k' \<Longrightarrow> look (load_table ins kvs emp) k' = map_of kvs k'"
  by (simp add: look_load look_emp)

end


lemma chain_find_add:
  "chain_find eq k' (chain_add k v xs) =
    (case chain_find eq k' xs of Some w \<Rightarrow> Some w | None \<Rightarrow> if eq k k' then Some v else None)"
  by (induction k v xs rule: chain_add.induct) (auto split: option.splits)

lemma chain_find_map_of: "chain_find (=) k xs = map_of xs k"
  by (induction "(=) :: string \<Rightarrow> string \<Rightarrow> bool" k xs rule: chain_find.induct) auto

lemma chain_find_append:
  "chain_find eq k (xs @ ys) =
    (case chain_find eq k xs of Some w \<Rightarrow> Some w | None \<Rightarrow> chain_find eq k ys)"
  by (induction eq k xs rule: chain_find.induct) auto

text \<open>The keys whose bytes are all ASCII: their hash is an index of the table.\<close>

definition ascii :: "string \<Rightarrow> bool" where
  "ascii s \<longleftrightarrow> list_all (\<lambda>c. uchar c < 128) s"

lemma ascii_Cons [simp]: "ascii (c # s) \<longleftrightarrow> uchar c < 128 \<and> ascii s" "ascii []"
  by (simp_all add: ascii_def)

lemma ascii_sum: "ascii s \<Longrightarrow> 0 \<le> n \<Longrightarrow> 0 \<le> fold (\<lambda>c hash. hash + schar c) s n"
  by (induction s arbitrary: n) (auto simp: schar_def)

lemma smod_pos: "0 \<le> n \<Longrightarrow> 0 < m \<Longrightarrow> n smod m = n mod (m :: int)"
  by (auto simp: signed_modulo_int_def signed_divide_int_def sgn_if minus_div_mult_eq_mod)

lemma get_mime_hash_value_range:
  "ascii s \<Longrightarrow> 0 \<le> get_mime_hash_value s \<and> get_mime_hash_value s < MIME_HASHTABLE_SIZE"
  using ascii_sum [of s 0]
  by (simp add: get_mime_hash_value_def MIME_HASHTABLE_SIZE_def smod_pos)

lemma passwd_hash_range:
  "ascii s \<Longrightarrow> 0 \<le> passwd_hash s \<and> passwd_hash s < PASSWD_HASHTABLE_SIZE"
  by (cases "length s < 4", simp add: passwd_hash_def PASSWD_HASHTABLE_SIZE_def)
     (fastforce simp: passwd_hash_def PASSWD_HASHTABLE_SIZE_def smod_pos schar_def ascii_def list_all_length)

interpretation mime: first_wins_table ascii tables_init "\<lambda>k. add_mime_type (Some k)" find_mime
  by unfold_locales
     (auto simp: find_mime_def add_mime_type_def tables_init_def Let_def chain_find_add
       split: option.split)

text \<open>Names without upper case letters: \<open>strcasecmp\<close> on them is equality.\<close>

definition lower_ascii :: "string \<Rightarrow> bool" where
  "lower_ascii s \<longleftrightarrow> ascii s \<and> list_all (\<lambda>c. \<not> is_upper c) s"

lemma uchar_toupper: "uchar (toupper c) = (if is_lower c then uchar c - 32 else uchar c)"
  using uchar_less [of c] by (auto simp: toupper_def simp del: uchar_less)

lemma toupper_lower_inj:
  assumes "\<not> is_upper a" "\<not> is_upper b"
  shows "toupper a = toupper b \<longleftrightarrow> a = b"
proof -
  have "toupper a = toupper b \<longleftrightarrow> uchar (toupper a) = uchar (toupper b)" by simp
  also have "\<dots> \<longleftrightarrow> uchar a = uchar b"
    using assms by (auto simp: uchar_toupper is_lower_def is_upper_def simp del: uchar_inject)
  finally show ?thesis by simp
qed

lemma strcaseeq_lower: "lower_ascii s \<Longrightarrow> lower_ascii t \<Longrightarrow> strcaseeq s t \<longleftrightarrow> s = t"
proof (induction s arbitrary: t)
  case Nil
  then show ?case by (auto simp: strcaseeq_def)
next
  case (Cons a s)
  then show ?case
    by (cases t) (auto simp: strcaseeq_def lower_ascii_def toupper_lower_inj)
qed

lemma chain_add_present: "k \<in> fst ` set xs \<Longrightarrow> chain_add k v xs = xs"
  by (induction xs rule: chain_add.induct) auto

lemma chain_find_present: "(k, v) \<in> set xs \<Longrightarrow> chain_find strcaseeq k xs \<noteq> None"
  by (induction strcaseeq k xs rule: chain_find.induct) auto

interpretation vhost:
  first_wins_table lower_ascii tables_init "\<lambda>k. add_virtual_host (Some k)" get_virtual_host
  by unfold_locales
     (auto simp: get_virtual_host_def add_virtual_host_def tables_init_def Let_def
       chain_find_add [where eq = strcaseeq] strcaseeq_lower chain_add_present
       dest: chain_find_present
       dest: strcaseeq_lower split: option.split)

text \<open>Loading the mime types of the configuration file gives, for every file name with a
  non-empty ASCII extension, the type on the first line for that extension, and the default type if
  there is none; the same lookup on the virtual hosts gives the document root on the first line for
  the host (for host names in lower case).\<close>

theorem mime_vhost_first_line:
  assumes "\<forall>k \<in> fst ` set kvs. ascii k" "ascii e" "e \<noteq> []" "CHR ''.'' \<notin> set e"
    and hosts: "\<forall>k \<in> fst ` set hosts. lower_ascii k" "lower_ascii h"
  shows "get_mime_type cfg (load_table (\<lambda>k. add_mime_type (Some k)) kvs tables_init) (base @ ''.'' @ e)
           = opt (default_type cfg) (map_of kvs e) \<and>
         get_virtual_host (load_table (\<lambda>k. add_virtual_host (Some k)) hosts tables_init) h
           = map_of hosts h"
proof -
  have "strchr (rev e @ CHR ''.'' # rev base) (CHR ''.'') = Some (length e)"
    using assms(4)
  proof (induction e rule: rev_induct)
    case (snoc x xs)
    then show ?case by auto
  qed simp
  then have "strrchr (base @ ''.'' @ e) (CHR ''.'') = Some (length base)"
    by (simp add: strrchr_def)
  then show ?thesis
    using assms mime.look_loaded [OF assms(1,2)] vhost.look_loaded [OF hosts]
    by (simp add: get_mime_type_def)
qed

theorem mime_vhost_first_line_witness:
  "get_mime_type sample_config (load_table (\<lambda>k. add_mime_type (Some k))
      [(''html'', ''text/html''), (''js'', ''text/js''), (''html'', ''x'')] tables_init) ''/a.b.html''
     = ''text/html'' \<and>
   get_virtual_host (load_table (\<lambda>k. add_virtual_host (Some k)) [(''a.org'', ''/w'')] tables_init)
     ''a.org'' = Some ''/w''"
  using mime_vhost_first_line
      [of "[(''html'', ''text/html''), (''js'', ''text/js''), (''html'', ''x'')]"
        "''html''" "[(''a.org'', ''/w'')]" "''a.org''" sample_config "''/a.b''"]
  by (simp add: lower_ascii_def ascii_def uchar_def is_upper_def)

text \<open>The hash of a key of ASCII bytes is an index of its table, for the mime types, the
  host names, the user names and the browsers; for a file extension or an agent string that starts
  with a byte from 128 on, C's signed remainder is negative and the access is outside the table.\<close>

theorem hash_index_range:
  "(ascii s \<longrightarrow> 0 \<le> get_mime_hash_value s \<and> get_mime_hash_value s < MIME_HASHTABLE_SIZE) \<and>
   (ascii s \<longrightarrow> 0 \<le> passwd_hash s \<and> passwd_hash s < PASSWD_HASHTABLE_SIZE) \<and>
   (ascii s \<longrightarrow> 0 \<le> get_browser_hash_value s \<and> get_browser_hash_value s < BROWSERMATCH_HASHTABLE_SIZE) \<and>
   get_mime_hash_value [chr_of 233] = - 23 \<and> get_browser_hash_value [chr_of 233] = - 23"
proof -
  have "0 \<le> get_browser_hash_value s \<and> get_browser_hash_value s < BROWSERMATCH_HASHTABLE_SIZE"
    if "ascii s"
    using that by (cases s)
      (auto simp: get_browser_hash_value_def BROWSERMATCH_HASHTABLE_SIZE_def smod_pos schar_def)
  moreover have "get_mime_hash_value [chr_of 233] = - 23" "get_browser_hash_value [chr_of 233] = - 23"
    by (simp_all add: get_mime_hash_value_def get_browser_hash_value_def schar_def
        MIME_HASHTABLE_SIZE_def BROWSERMATCH_HASHTABLE_SIZE_def)
  ultimately show ?thesis using get_mime_hash_value_range passwd_hash_range by simp
qed

theorem hash_index_range_witness:
  "0 \<le> get_mime_hash_value ''html'' \<and> get_mime_hash_value ''html'' < MIME_HASHTABLE_SIZE"
  using hash_index_range [of "''html''"] by (simp add: ascii_def uchar_def)


section \<open>Home directories\<close>

definition passwd_ok :: "(string \<Rightarrow> string option) \<Rightarrow> tables \<Rightarrow> bool" where
  "passwd_ok getpwnam t \<longleftrightarrow>
    (\<forall>h. \<forall>(k, v) \<in> set (passwd_hashtable t h). getpwnam k = Some v)"

lemma chain_find_in: "chain_find (=) k xs = Some v \<Longrightarrow> (k, v) \<in> set xs"
  by (simp add: chain_find_map_of map_of_SomeD)

text \<open>The table of home directories is a cache of the password file: as long as the file
  does not change, \<open>get_home_dir\<close> answers what \<open>getpwnam\<close> answers, whether it finds the user in the
  table or not, and what it stores keeps the table a cache; in a changed root directory it answers
  that there is no user and stores nothing.\<close>

theorem get_home_dir_cache:
  assumes "passwd_ok getpwnam t"
  shows "fst (get_home_dir cfg getpwnam name t) =
           (if server_chroot cfg = None then getpwnam name else None) \<and>
         passwd_ok getpwnam (snd (get_home_dir cfg getpwnam name t)) \<and>
         (server_chroot cfg \<noteq> None \<longrightarrow> snd (get_home_dir cfg getpwnam name t) = t)"
proof (cases "chain_find (=) name (passwd_hashtable t (passwd_hash name))")
  case (Some dir)
  then have "getpwnam name = Some dir"
    using assms chain_find_in [OF Some] unfolding passwd_ok_def by blast
  then show ?thesis using assms Some by (simp add: get_home_dir_def)
next
  case None
  then show ?thesis
    using assms by (auto simp: get_home_dir_def passwd_ok_def Let_def split: option.split)
qed

theorem get_home_dir_cache_witness:
  "fst (get_home_dir sample_config [''root'' \<mapsto> ''/root''] ''root'' tables_init) = Some ''/root''"
  using get_home_dir_cache [of "[''root'' \<mapsto> ''/root'']" tables_init sample_config "''root''"]
  by (simp add: passwd_ok_def tables_init_def sample_config_def)

end
