(* ===== verification/Response.thy ===== *)
theory Response
  imports Buffer Encode Hash
begin

text \<open>
  The responses of \<open>src/src/response.c\<close>: the HTTP headers every response shares, and one
  operation per status code.  Each writes the real text of the source through \<open>wr\<close> into the buffer
  of the request and ends with a flush.  The \<open>Set-Cookie\<close> header also stores the session in the
  list of logged in users.
\<close>

section \<open>Headers\<close>

text \<open>\<open>srand\<close> and \<open>rand\<close> are a parameter: \<open>e_rand env seed i\<close> is the \<open>i\<close>-th number after the seed.  The
  sum is a 32 bit \<open>int\<close>.\<close>

definition generateRandomNumber :: "env \<Rightarrow> int \<Rightarrow> int" where
  "generateRandomNumber env seed =
    sint (word_of_int (fold (\<lambda>i n. n * 10 + e_rand env seed i smod 10) [0..<10] 0) :: 32 word)"

text \<open>The \<open>sscanf\<close> conversion \<open>%[^;]\<close> after the word \<open>sessionid=\<close>: it has no width.\<close>

definition get_sessionid_from_cookie :: "request \<Rightarrow> string option" where
  "get_sessionid_from_cookie req =
    (case r_cookie req of
       None \<Rightarrow> None
     | Some cookie \<Rightarrow>
         (case strstr cookie ''sessionid='' of
            None \<Rightarrow> None
          | Some i \<Rightarrow>
              (let id = takeWhile (\<lambda>c. c \<noteq> CHR '';'') (drop (i + 10) cookie)
               in if id = [] then None else Some id)))"

fun update_first :: "('a \<Rightarrow> bool) \<Rightarrow> ('a \<Rightarrow> 'a) \<Rightarrow> 'a list \<Rightarrow> 'a list" where
  "update_first P f [] = []"
| "update_first P f (x # xs) = (if P x then f x # xs else x # update_first P f xs)"

definition print_set_cookie :: "env \<Rightarrow> st \<Rightarrow> st" where
  "print_set_cookie env st =
    (let (req, g) = st;
         req = wr ''Set-Cookie: '' req;
         id = (case get_sessionid_from_cookie req of
                 Some sessionid \<Rightarrow> sessionid
               | None \<Rightarrow> show_int (generateRandomNumber env (e_time_counter env)));
         buf = take 63 (''sessionid='' @ id @ ''; Path=/; '');
         sessionid = takeWhile (\<lambda>c. c \<noteq> CHR '';'') (drop 10 buf);
         g = g \<lparr> user_login_list :=
               update_first (\<lambda>u. u_remote_ip_addr u = r_remote_ip_addr req)
                 (\<lambda>u. u \<lparr> u_session_id := take 31 sessionid \<rparr>) (user_login_list g) \<rparr>
     in (wr (lit ''~'') (wr buf req), g))"

definition DEFAULT_CHARSET :: string where "DEFAULT_CHARSET = ''iso-8859-1''"

definition print_content_type :: "env \<Rightarrow> globals \<Rightarrow> request \<Rightarrow> request" where
  "print_content_type env g req =
    (let req = wr ''Content-Type: '' req;
         req = (case r_content_type req of
                  Some ct \<Rightarrow> wr ct req
                | None \<Rightarrow> wr (get_mime_type (e_cfg env) (g_tab g) (r_request_uri req)) req);
         req = (if r_send_charset req
                then
                  let req = wr ''; charset='' req
                  in (case r_cp_name req of
                        Some cp \<Rightarrow> wr cp req
                      | None \<Rightarrow> (case local_codepage (e_cfg env) of
                                   Some cp \<Rightarrow> wr cp req
                                 | None \<Rightarrow> wr DEFAULT_CHARSET req))
                else req)
     in wr (lit ''~'') req)"

definition print_content_length :: "request \<Rightarrow> request" where
  "print_content_length req =
    wr (lit ''~'') (wr (simple_itoa (int (r_filesize req))) (wr ''Content-Length: '' req))"

definition print_last_modified :: "env \<Rightarrow> request \<Rightarrow> request" where
  "print_last_modified env req =
    (let req = wr ''Last-Modified: '' req
     in wr (lit ''~'') (wr_time env (r_last_modified req) req))"

definition print_http_headers :: "env \<Rightarrow> request \<Rightarrow> request" where
  "print_http_headers env req =
    (let req = wr ''Date: '' req;
         req = wr_time env 0 req;
         req = wr (lit ''~Server: Boa/0.93.15~'') req;
         req = wr (lit ''X-Frame-Options: SAMEORIGIN~'') req;
         req = (if r_keepalive req = KA_ACTIVE
                then wr (lit ''~'') (wr (simple_itoa (ka_max (e_cfg env))) (wr '', max=''
                       (wr (simple_itoa (ka_timeout (e_cfg env)))
                         (wr (lit ''Connection: Keep-Alive~Keep-Alive: timeout='') req))))
                else wr (lit ''Connection: close~'') req)
     in if r_is_cgi req \<noteq> NOT_CGI then wr (lit ''Cache-Control: no-cache~'') req else req)"

section \<open>Responses\<close>

definition send_r_request_ok :: "env \<Rightarrow> st \<Rightarrow> st" where
  "send_r_request_ok env st =
    (let (req, g) = st; req = req \<lparr> r_response_status := 200 \<rparr> in
     if r_simple req then (req, g)
     else
       let req = wr (lit ''HTTP/1.0 200 OK~'') req;
           req = wr (lit ''X-XSS-Protection: 1;mode=block~'') req;
           req = print_http_headers env req;
           (req, g) = (if strneq 2 (r_request_uri req) ''//'' then print_set_cookie env (req, g)
                       else (req, g));
           req = (if r_is_cgi req \<noteq> NOT_CGI
                  then
                    let req = (if contains_str (r_request_uri req) ''.js''
                               then req \<lparr> r_content_type := Some ''text/javascript'' \<rparr>
                               else if contains_str (r_request_uri req) ''.css''
                               then req \<lparr> r_content_type := Some ''text/css'' \<rparr>
                               else case r_content_type req of
                                 None \<Rightarrow> req \<lparr> r_content_type := Some ''text/html'' \<rparr>
                               | Some ct \<Rightarrow> if contains_str ct ''text/'' then req
                                            else req \<lparr> r_content_type := Some ''text/html'' \<rparr>);
                        req = print_content_type env g req
                    in (case r_cookie req of
                          None \<Rightarrow> req
                        | Some c \<Rightarrow> wr (lit ''~'') (wr c req))
                  else print_last_modified env (print_content_length (print_content_type env g req)))
       in (wr (lit ''~'') req, g))"

text \<open>The scheme of the responses with a fixed page: status line and headers unless the request is
  a simple one, the page unless the method is \<open>HEAD\<close>.\<close>

definition page_msg ::
  "env \<Rightarrow> nat \<Rightarrow> string \<Rightarrow> (request \<Rightarrow> string list) \<Rightarrow> (request \<Rightarrow> string list) \<Rightarrow> request \<Rightarrow> request" where
  "page_msg env code status_line headers page req =
    (let req = req \<lparr> r_response_status := code \<rparr>;
         req = (if r_simple req then req
                else wrs (headers req) (print_http_headers env (wr status_line req)))
     in if r_method req \<noteq> M_HEAD then wrs (page req) req else req)"

definition send_page ::
  "env \<Rightarrow> nat \<Rightarrow> string \<Rightarrow> (request \<Rightarrow> string list) \<Rightarrow> (request \<Rightarrow> string list) \<Rightarrow> st \<Rightarrow> st" where
  "send_page env code status_line headers page st =
    flush env (page_msg env code status_line headers page (fst st), snd st)"

text \<open>\<open>escape_string\<close> with the static buffer \<open>e_s\<close>.\<close>

definition escaped :: "string \<Rightarrow> string" where
  "escaped url = opt [] (escape_string url True)"

definition html_headers :: "request \<Rightarrow> string list" where
  "html_headers req = [lit ''Content-Type: text/html~~'']"

definition redirect_perm_headers :: "string \<Rightarrow> string list" where
  "redirect_perm_headers url = [lit ''Content-Type: text/html~'', ''Location: '', escaped url, lit ''~~'']"

definition redirect_perm_page :: "string \<Rightarrow> string list" where
  "redirect_perm_page url =
    [lit ''<HTML><HEAD><TITLE>301 Moved Permanently</TITLE></HEAD>|<BODY>|<H1>301 Moved</H1>The '' @
     lit ''document has moved|<A HREF=^'',
     escaped url, lit ''^>here</A>.|</BODY></HTML>|'']"

definition redirect_perm_msg :: "env \<Rightarrow> string \<Rightarrow> request \<Rightarrow> request" where
  "redirect_perm_msg env url =
    page_msg env 301 (lit ''HTTP/1.0 301 Moved Permanently~'')
      (\<lambda>_. redirect_perm_headers url) (\<lambda>_. redirect_perm_page url)"

definition send_redirect_perm :: "env \<Rightarrow> string \<Rightarrow> st \<Rightarrow> st" where
  "send_redirect_perm env url st = flush env (redirect_perm_msg env url (fst st), snd st)"

definition redirect_temp_headers :: "env \<Rightarrow> string \<Rightarrow> string list" where
  "redirect_temp_headers env url =
    [lit ''Content-Type: text/html~'', ''Location: '',
     if contains_str url (e_lan_lla env) then url else escaped url, lit ''~~'']"

definition redirect_temp_page :: "string list" where
  "redirect_temp_page =
    [lit ''<HTML><HEAD><TITLE>302 Moved Temporarily</TITLE></HEAD>|<BODY>|<H1>302 Moved</H1>The '' @
     lit ''document has moved|'',
     lit ''</BODY></HTML>|'']"

definition redirect_temp_msg :: "env \<Rightarrow> string \<Rightarrow> request \<Rightarrow> request" where
  "redirect_temp_msg env url =
    page_msg env 302 (lit ''HTTP/1.0 302 Moved Temporarily~'')
      (\<lambda>_. redirect_temp_headers env url) (\<lambda>_. redirect_temp_page)"

definition send_redirect_temp :: "env \<Rightarrow> string \<Rightarrow> st \<Rightarrow> st" where
  "send_redirect_temp env url st = flush env (redirect_temp_msg env url (fst st), snd st)"

definition send_r_not_modified :: "env \<Rightarrow> st \<Rightarrow> st" where
  "send_r_not_modified env st =
    (let (req, g) = st;
         req = wr (lit ''HTTP/1.0 304 Not Modified~'') req;
         req = req \<lparr> r_response_status := 304 \<rparr>;
         req = print_http_headers env req;
         req = print_content_type env g req
     in flush env (wr (lit ''~'') req, g))"

definition send_r_bad_request :: "env \<Rightarrow> st \<Rightarrow> st" where
  "send_r_bad_request env =
    send_page env 400 (lit ''HTTP/1.0 400 Bad Request~'') html_headers
      (\<lambda>_. [lit ''<HTML><HEAD><TITLE>400 Bad Request</TITLE></HEAD>|<BODY><H1>400 Bad Request</H1>|Your '' @
     lit ''client has issued a malformed or illegal request.|</BODY></HTML>|''])"

definition send_r_bad_request_2 :: "env \<Rightarrow> st \<Rightarrow> st" where
  "send_r_bad_request_2 env st =
    (let (req, g) = st;
         req = req \<lparr> r_response_status := 400 \<rparr>;
         req = wr (lit ''HTTP/1.0 400 Bad Request~'') req;
         req = print_http_headers env req;
         req = wr (lit ''Content-Type: text/html~~'') req
     in flush env (wr (lit ''<HTML><HEAD><TITLE>400 Bad Request</TITLE><META http-equiv=content-type '' @
     lit ''content=^text/html; charset=utf-8^></HEAD>|<BODY>|<script '' @
     lit ''type=^text/javascript^>setTimeout(`countdown()`, 1000);|function countdown() {|var s = '' @
     lit ''document.getElementById(`timer`);|s.innerHTML = s.innerHTML - 1;|if (s.innerHTML == '' @
     lit ''0)|window.location = `/admin/login.asp`;|else|setTimeout(`countdown()`, '' @
     lit ''1000);|}|</script>|<H1>400 Bad Request</H1>|'' @
     utf8 [229, 174, 162, 230, 136, 183, 231, 171, 175, 229, 188, 130, 229, 184, 184] @
     lit '', '' @
     utf8 [232, 175, 183, 233, 135, 141, 230, 150, 176, 230, 147, 141, 228, 189, 156] @
     lit ''|<br><br>'' @
     utf8 [231, 179, 187, 231, 187, 159, 229, 176, 134, 228, 186, 142] @
     lit ''<span id=`timer`>5</span>'' @
     utf8 [231, 167, 146, 229, 144, 142] @
     lit '', '' @
     utf8 [228, 184, 186, 230, 130, 168, 232, 135, 170, 229, 138, 168, 232, 191, 148, 229, 155, 158, 233, 166, 150, 233, 161, 181] @
     lit ''|</BODY></HTML>|'') req, g))"

definition send_r_unauthorized :: "env \<Rightarrow> string \<Rightarrow> st \<Rightarrow> st" where
  "send_r_unauthorized env realm_name =
    send_page env 401 (lit ''HTTP/1.0 401 Unauthorized~'')
      (\<lambda>_. [lit ''WWW-Authenticate: Basic realm=^'', realm_name, lit ''^~'',
           lit ''Content-Type: text/html~~''])
      (\<lambda>req. [lit ''<HTML><HEAD><TITLE>401 Unauthorized</TITLE></HEAD>|<BODY><H1>401 Unauthorized</H1>|Your '' @
     lit ''client does not have permission to get URL '',
             escaped (r_request_uri req), lit '' from this server.|</BODY></HTML>|''])"

definition send_r_forbidden :: "env \<Rightarrow> st \<Rightarrow> st" where
  "send_r_forbidden env =
    send_page env 403 (lit ''HTTP/1.0 403 Forbidden~'') html_headers
      (\<lambda>req. [lit ''<HTML><HEAD><TITLE>403 Forbidden</TITLE></HEAD>|<BODY><H1>403 Forbidden</H1>|Your '' @
     lit ''client does not have permission to get URL '',
             escaped (r_request_uri req), lit '' from this server.|</BODY></HTML>|''])"

text \<open>\<open>snprintf\<close> into 50 bytes.\<close>

definition send_r_forbidden3 :: "env \<Rightarrow> int \<Rightarrow> st \<Rightarrow> st" where
  "send_r_forbidden3 env time_last =
    send_page env 403 (lit ''HTTP/1.0 403 Forbidden~'') html_headers
      (\<lambda>_. [lit ''<HTML><HEAD><TITLE>403 Forbidden</TITLE><META http-equiv=content-type '' @
     lit ''content=^text/html; charset=utf-8^></HEAD>|'',
     lit ''<BODY>|<script type=^text/javascript^>setTimeout(`countdown()`, 1000);|function '' @
     lit ''countdown() {|var s = document.getElementById(^timer^);|if (s.innerHTML <= '' @
     lit ''0)|window.location.replace(^/admin/login.asp^);|else|setTimeout(`countdown()`, '' @
     lit ''1000);|if (s.innerHTML > 0)|s.innerHTML = s.innerHTML - 1;|}|</script>|'' @
     lit ''<H1>403 Forbidden</H1>|'' @
     utf8 [230, 130, 168, 229, 183, 178, 229, 176, 157, 232, 175, 149, 229, 164, 154, 230, 172, 161] @
     lit '', '' @
     utf8 [232, 175, 183, 231, 168, 141, 229, 144, 142, 229, 134, 141, 231, 153, 187, 229, 133, 165] @
     lit ''|'',
     lit ''<br><br>'' @
     utf8 [231, 179, 187, 231, 187, 159, 229, 176, 134, 228, 186, 142] @
     lit ''<span id=`timer`>'',
     take 49 (show_int time_last),
     lit ''</span>'' @
     utf8 [231, 167, 146, 229, 144, 142] @
     lit '', '' @
     utf8 [228, 184, 186, 230, 130, 168, 232, 135, 170, 229, 138, 168, 232, 191, 148, 229, 155, 158, 233, 166, 150, 233, 161, 181] @
     lit ''|</BODY></HTML>|''])"

definition send_r_not_found :: "env \<Rightarrow> st \<Rightarrow> st" where
  "send_r_not_found env =
    send_page env 404 (lit ''HTTP/1.0 404 Not Found~'') html_headers
      (\<lambda>req. [lit ''<HTML><HEAD><TITLE>404 Not Found</TITLE></HEAD>|<BODY><H1>404 Not Found</H1>|The '' @
     lit ''requested URL '',
             escaped (r_request_uri req), lit '' was not found on this server.|</BODY></HTML>|''])"

definition send_r_entity_too_large :: "env \<Rightarrow> st \<Rightarrow> st" where
  "send_r_entity_too_large env =
    send_page env 413 (lit ''HTTP/1.0 413 Request Entity Too Large~'') html_headers
      (\<lambda>req. [lit ''<HTML><HEAD><TITLE>413 Request Entity Too Large</TITLE><META http-equiv=content-type '' @
     lit ''content=^text/html; charset=utf-8^></HEAD>|<BODY>|<script '' @
     lit ''type=^text/javascript^>setTimeout(`countdown()`, 1000);|function countdown() {|var s = '' @
     lit ''document.getElementById(`timer`);|s.innerHTML = s.innerHTML - 1;|if (s.innerHTML == '' @
     lit ''0)|window.location = `/admin/login.asp`;|else|setTimeout(`countdown()`, '' @
     lit ''1000);|}|</script>|<H1>413 Request Entity Too Large</H1>|'' @
     utf8 [230, 173, 164, 233, 161, 181, 233, 157, 162] @
     lit '' '',
     escaped (r_request_uri req),
     lit '' '' @
     utf8 [228, 184, 141, 229, 173, 152, 229, 156, 168] @
     lit '', '' @
     utf8 [232, 175, 183, 233, 135, 141, 230, 150, 176, 230, 147, 141, 228, 189, 156] @
     lit ''|<br><br>'' @
     utf8 [231, 179, 187, 231, 187, 159, 229, 176, 134, 228, 186, 142] @
     lit ''<span id=`timer`>5</span>'' @
     utf8 [231, 167, 146, 229, 144, 142] @
     lit '', '' @
     utf8 [228, 184, 186, 230, 130, 168, 232, 135, 170, 229, 138, 168, 232, 191, 148, 229, 155, 158, 233, 166, 150, 233, 161, 181] @
     lit ''|</BODY></HTML>|''])"

definition send_r_error :: "env \<Rightarrow> st \<Rightarrow> st" where
  "send_r_error env =
    send_page env 500 (lit ''HTTP/1.0 500 Server Error~'') html_headers
      (\<lambda>_. [lit ''<HTML><HEAD><TITLE>500 Server Error</TITLE></HEAD>|<BODY><H1>500 Server Error</H1>|The '' @
     lit ''server encountered an internal error and could not complete your '' @
     lit ''request.|</BODY></HTML>|''])"

definition send_r_not_implemented :: "env \<Rightarrow> st \<Rightarrow> st" where
  "send_r_not_implemented env =
    send_page env 501 (lit ''HTTP/1.0 501 Not Implemented~'') html_headers
      (\<lambda>_. [lit ''<HTML><HEAD><TITLE>501 Not Implemented</TITLE></HEAD>|<BODY><H1>501 Not '' @
     lit ''Implemented</H1>|POST to non-script is not supported in Boa.|</BODY></HTML>|''])"

text \<open>The version is the text of the client, written as it is; a null pointer would be a crash.\<close>

definition send_r_bad_version :: "env \<Rightarrow> st \<Rightarrow> st" where
  "send_r_bad_version env =
    send_page env 505 (lit ''HTTP/1.0 505 HTTP Version Not Supported~'') html_headers
      (\<lambda>req. [lit ''<HTML><HEAD><TITLE>505 HTTP Version Not Supported</TITLE></HEAD>|<BODY><H1>505 HTTP '' @
     lit ''Version Not Supported</H1>|HTTP versions other than 0.9 and 1.0 are not supported in '' @
     lit ''Boa.|<p><p>Version encountered: '',
             opt [] (r_http_version req), lit ''<p><p></BODY></HTML>|''])"

definition send_web_redirect_msg :: "env \<Rightarrow> st \<Rightarrow> st" where
  "send_web_redirect_msg env =
    send_page env 200 (lit ''HTTP/1.0 200 OK~'')
      (\<lambda>_. [lit ''Content-Type: text/html~'', lit ''~''])
      (\<lambda>_. [lit ''<HTML><HEAD><meta http-equiv=`Content-Type` content=`text/html` charset=`utf-8` '' @
     lit ''/><TITLE></TITLE></HEAD>~<BODY><TABLE>~'',
     lit ''<tr><td>'' @
     utf8 [237, 152, 132, 236, 158, 172] @
     lit '' '' @
     utf8 [236, 160, 145, 236, 134, 141, 237, 149, 156] @
     lit '' '' @
     utf8 [235, 139, 168, 235, 167, 144, 236, 157, 128] @
     lit '' '' @
     utf8 [234, 179, 160, 234, 176, 157, 235, 139, 152, 236, 157, 180] @
     lit '' '' @
     utf8 [236, 157, 184, 237, 132, 176, 235, 132, 183, 236, 160, 145, 236, 134, 141, 236, 160, 156, 237, 149, 156, 236, 132, 156, 235, 185, 132, 236, 138, 164] @
     lit '' '' @
     utf8 [234, 184, 176, 235, 138, 165, 236, 156, 188, 235, 161, 156] @
     lit '' '' @
     utf8 [236, 157, 184, 237, 149, 180] @
     lit '' '' @
     utf8 [236, 157, 184, 237, 132, 176, 235, 132, 183] @
     lit '' '' @
     utf8 [236, 130, 172, 236, 154, 169, 236, 157, 180, 194, 160, 235, 182, 136, 234, 176, 128, 235, 138, 165, 237, 149, 156] @
     lit '' '' @
     utf8 [236, 139, 156, 234, 176, 132, 236, 158, 133, 235, 139, 136, 235, 139, 164] @
     lit ''. </td></tr>~</TABLE></BODY></HTML>~''])"

definition send_popwin_and_reload :: "env \<Rightarrow> string \<Rightarrow> st \<Rightarrow> st" where
  "send_popwin_and_reload env url =
    send_page env 200 (lit ''HTTP/1.0 200 OK~'')
      (\<lambda>_. [lit ''Content-Type: text/html~'', lit ''~''])
      (\<lambda>_. [lit ''<HTML><HEAD><TITLE>test</TITLE></HEAD>|<BODY>|<script type=^text/javascript^>|<!--|''] @
           (if length url > 1
            then [lit ''window.open(`'', escaped url, lit ''`,`__DUT_NOTIFY__`,``);|''] else []) @
     [lit ''location.reload();|//-->|</script>|</BODY></HTML>|''])"

definition escape_url :: "string \<Rightarrow> string" where
  "escape_url url = escaped url"

definition escape_msg :: "string option \<Rightarrow> string option" where
  "escape_msg msg = escapeHtmlstr msg"

section \<open>What a response puts into the buffer\<close>

text \<open>With a valid clock the date is a message like the others, so that a response is a list of
  messages written one after the other.\<close>

lemma wr_time_eq:
  assumes "tm_ok (e_gmtime env (if s = 0 then e_now env else s))"
  shows "wr_time env s r = wr (rfc822_text (e_gmtime env (if s = 0 then e_now env else s))) r"
  using length_rfc822_text [OF assms]
  by (auto simp: wr_time_def req_write_rfc822_time_def wr_def req_write_def Let_def)

text \<open>What does not look at the buffer or at the status.\<close>

definition buffer_free :: "(request \<Rightarrow> 'a) \<Rightarrow> bool" where
  "buffer_free h \<longleftrightarrow> (\<forall>r b n c. h (r \<lparr> r_buffer := b, r_buffer_end := n \<rparr>) = h r \<and>
     h (r \<lparr> r_response_status := c \<rparr>) = h r)"

lemma wr_shape: "\<exists>b n. wr m r = r \<lparr> r_buffer := b, r_buffer_end := n \<rparr>"
proof -
  have "wr m r = r \<or> wr m r = r \<lparr> r_buffer := mem_write (r_buffer r) (r_buffer_end r) m,
                                     r_buffer_end := r_buffer_end r + length m \<rparr>"
    by (simp add: wr_def req_write_def Let_def)
  moreover have "r = r \<lparr> r_buffer := r_buffer r, r_buffer_end := r_buffer_end r \<rparr>" by simp
  ultimately show ?thesis by metis
qed

lemma buffer_free_wr: "buffer_free h \<Longrightarrow> h (wr m r) = h r"
  using wr_shape [of m r] by (auto simp: buffer_free_def)

lemma buffer_free_wrs: "buffer_free h \<Longrightarrow> h (wrs ms r) = h r"
  by (induction ms arbitrary: r) (auto simp: wrs_def buffer_free_wr)

lemma wrs_append: "wrs (a @ b) r = wrs b (wrs a r)"
  by (simp add: wrs_def)

lemma wrs_simps: "wrs [] r = r" "wrs (m # ms) r = wrs ms (wr m r)"
  by (simp_all add: wrs_def)

lemma wr_append:
  assumes "buf_ok r" "length m \<le> room r"
  shows "pending (wr m r) = pending r @ m" "room (wr m r) = room r - length m" "buf_ok (wr m r)"
  using assms bslice_mem_write [of "r_buffer_start r" "r_buffer_end r" "r_buffer r" m]
  by (auto simp: wr_def req_write_def room_def pending_def buf_ok_def Let_def)

lemma wrs_append_pending:
  assumes "buf_ok r" "length (concat ms) \<le> room r"
  shows "pending (wrs ms r) = pending r @ concat ms \<and> buf_ok (wrs ms r)"
  using assms
proof (induction ms arbitrary: r)
  case (Cons m ms)
  then have "length m \<le> room r" by simp
  note w = wr_append [OF Cons.prems(1) this]
  have "length (concat ms) \<le> room (wr m r)" using Cons.prems(2) w(2) by simp
  then show ?case using Cons.IH [OF w(3)] w(1) by (simp add: wrs_simps)
qed (simp add: wrs_simps)

lemma wr_status [simp]: "r_response_status (wr m r) = r_response_status r"
  using wr_shape [of m r] by auto

lemma wrs_status [simp]: "r_response_status (wrs ms r) = r_response_status r"
  by (induction ms arbitrary: r) (simp_all add: wrs_simps)

definition http_pieces :: "env \<Rightarrow> request \<Rightarrow> string list" where
  "http_pieces env req =
    [''Date: '', rfc822_text (e_gmtime env (e_now env)), lit ''~Server: Boa/0.93.15~'',
     lit ''X-Frame-Options: SAMEORIGIN~''] @
    (if r_keepalive req = KA_ACTIVE
     then [lit ''Connection: Keep-Alive~Keep-Alive: timeout='', simple_itoa (ka_timeout (e_cfg env)),
           '', max='', simple_itoa (ka_max (e_cfg env)), lit ''~'']
     else [lit ''Connection: close~'']) @
    (if r_is_cgi req \<noteq> NOT_CGI then [lit ''Cache-Control: no-cache~''] else [])"

lemma buffer_free_fields:
  "buffer_free r_keepalive" "buffer_free r_is_cgi" "buffer_free r_method" "buffer_free r_simple"
  "buffer_free r_request_uri" "buffer_free (http_pieces env)" "buffer_free (\<lambda>_. c)"
  "buffer_free html_headers"
  by (simp_all add: buffer_free_def http_pieces_def html_headers_def)

lemmas wr_fields [simp] = buffer_free_fields [THEN buffer_free_wr]

lemma print_http_headers_pieces:
  assumes "tm_ok (e_gmtime env (e_now env))"
  shows "print_http_headers env r = wrs (http_pieces env r) r"
  using wr_time_eq [of env 0] assms
  by (simp add: print_http_headers_def http_pieces_def Let_def wrs_simps wrs_append del: lit_simps)

definition page_pieces ::
  "env \<Rightarrow> string \<Rightarrow> (request \<Rightarrow> string list) \<Rightarrow> (request \<Rightarrow> string list) \<Rightarrow> request \<Rightarrow> string list" where
  "page_pieces env status_line headers page req =
    (if r_simple req then [] else [status_line] @ http_pieces env req @ headers req) @
    (if r_method req = M_HEAD then [] else page req)"

lemma page_msg_pieces:
  assumes "tm_ok (e_gmtime env (e_now env))" "buffer_free headers" "buffer_free page"
  shows "page_msg env code sl headers page r =
           wrs (page_pieces env sl headers page r) (r \<lparr> r_response_status := code \<rparr>)"
proof -
  have s: "h (r \<lparr> r_response_status := code \<rparr>) = h r" if "buffer_free h" for h :: "request \<Rightarrow> string list"
    using that by (simp add: buffer_free_def)
  note f = assms(2,3) [THEN buffer_free_wrs] assms(2,3) [THEN buffer_free_wr]
    buffer_free_fields [THEN buffer_free_wrs] s [OF assms(2)] s [OF assms(3)]
    s [OF buffer_free_fields(6)]
  show ?thesis
    using assms
    by (simp add: page_msg_def page_pieces_def Let_def print_http_headers_pieces wrs_simps wrs_append f)
qed

lemma page_msg_text:
  assumes "tm_ok (e_gmtime env (e_now env))" "buffer_free headers" "buffer_free page"
    and "buf_ok r" "length (concat (page_pieces env sl headers page r)) \<le> room r"
  shows "pending (page_msg env code sl headers page r) =
           pending r @ concat (page_pieces env sl headers page r)"
    and "buf_ok (page_msg env code sl headers page r)"
proof -
  let ?r = "r \<lparr> r_response_status := code \<rparr>"
  have r: "buf_ok ?r" "pending ?r = pending r" "room ?r = room r"
    using assms(4) by (simp_all add: buf_ok_def pending_def room_def)
  show "pending (page_msg env code sl headers page r) =
          pending r @ concat (page_pieces env sl headers page r)"
    "buf_ok (page_msg env code sl headers page r)"
    using wrs_append_pending [OF r(1), of "page_pieces env sl headers page r"] r assms
    by (simp_all add: page_msg_pieces)
qed

lemma escaped_eq: "escaped url = concat (map escape_char url)"
  by (simp add: escaped_def escape_string_def)

definition redirect_head :: "env \<Rightarrow> string \<Rightarrow> request \<Rightarrow> string" where
  "redirect_head env sl r = sl @ concat (http_pieces env r) @ lit ''Content-Type: text/html~'' @ ''Location: ''"

lemma redirect_msg_text:
  assumes "buf_ok r" "\<not> r_simple r" "r_method r \<noteq> M_HEAD" "tm_ok (e_gmtime env (e_now env))"
    and "length (redirect_head env sl r @ loc @ lit ''~~'' @ concat page) \<le> room r"
  shows "pending (page_msg env code sl (\<lambda>_. [lit ''Content-Type: text/html~'', ''Location: '', loc, lit ''~~'']) (\<lambda>_. page) r) =
      pending r @ redirect_head env sl r @ loc @ lit ''~~'' @ concat page"
    and "r_response_status (page_msg env code sl (\<lambda>_. [lit ''Content-Type: text/html~'', ''Location: '', loc, lit ''~~'']) (\<lambda>_. page) r) = code"
proof -
  have tx: "concat (page_pieces env sl (\<lambda>_. [lit ''Content-Type: text/html~'', ''Location: '', loc, lit ''~~'']) (\<lambda>_. page) r) =
      redirect_head env sl r @ loc @ lit ''~~'' @ concat page"
    using assms(2,3) by (simp add: page_pieces_def redirect_head_def del: lit_simps)
  show "pending (page_msg env code sl (\<lambda>_. [lit ''Content-Type: text/html~'', ''Location: '', loc, lit ''~~'']) (\<lambda>_. page) r) =
      pending r @ redirect_head env sl r @ loc @ lit ''~~'' @ concat page"
    unfolding tx [symmetric]
    by (rule page_msg_text(1)) (use assms tx in \<open>simp_all add: buffer_free_fields del: lit_simps\<close>)
  show "r_response_status (page_msg env code sl (\<lambda>_. [lit ''Content-Type: text/html~'', ''Location: '', loc, lit ''~~'']) (\<lambda>_. page) r) = code"
    by (subst page_msg_pieces) (use assms(4) in \<open>simp_all add: buffer_free_fields wrs_status\<close>)
qed

lemma escaped_safe:
  "set (escaped url) \<inter> {LF, CR, CHR '' '', QUOTE, CHR ''<'', CHR ''>''} = {} \<and> unescape_loop (escaped url) = Some url"
  using escape_no_breaks [of url] unescape_escape [of url] by (simp only: escaped_eq simp_thms)



section \<open>Status codes\<close>

lemma wr_time_status [simp]: "r_response_status (wr_time env s r) = r_response_status r"
  by (simp add: wr_time_def req_write_rfc822_time_def Let_def)

lemma print_http_headers_status [simp]:
  "r_response_status (print_http_headers env r) = r_response_status r"
  by (simp add: print_http_headers_def Let_def)

lemma flush_status [simp]: "r_response_status (fst (flush env st)) = r_response_status (fst st)"
  by (cases st) (auto simp: flush_def req_flush_def Let_def flush_reset_def convert_buffer_def
      split: io_result.split option.split)

lemma send_page_status [simp]:
  "r_response_status (fst (send_page env code sl hs pg st)) = code"
  by (simp add: send_page_def page_msg_def Let_def)

lemma send_status:
  "r_response_status (fst (send_r_bad_request env st)) = 400"
  "r_response_status (fst (send_r_not_found env st)) = 404"
  "r_response_status (fst (send_r_forbidden env st)) = 403"
  "r_response_status (fst (send_redirect_temp env url st)) = 302"
  "r_response_status (fst (send_redirect_perm env url st)) = 301"
  "r_response_status (fst (send_r_error env st)) = 500"
  "r_response_status (fst (send_r_not_implemented env st)) = 501"
  "r_response_status (fst (send_r_bad_version env st)) = 505"
  "r_response_status (fst (send_r_unauthorized env realm st)) = 401"
  by (simp_all add: send_r_bad_request_def send_r_not_found_def send_r_forbidden_def
      send_redirect_temp_def redirect_temp_msg_def send_redirect_perm_def redirect_perm_msg_def send_r_error_def
      send_r_not_implemented_def send_r_bad_version_def send_r_unauthorized_def page_msg_def Let_def)

end
