(* ===== verification/Boawrite.thy ===== *)
theory Boawrite
  imports Response
begin

text \<open>
  The writers of the dynamic pages: \<open>boaWriteBlock\<close> and its buffer that grows
  (\<open>src/src/asp_page.c\<close>), \<open>boaWrite\<close> and the page frame (\<open>src/src/port.c\<close>).
\<close>

text \<open>The buffer is doubled; the new half holds whatever \<open>malloc\<close> gave, here zeros.\<close>

definition allocNewBuffer :: "request \<Rightarrow> request" where
  "allocNewBuffer req =
    req \<lparr> r_buffer := take (r_max_buffer_size req) (r_buffer req) @
            replicate (r_max_buffer_size req + 1) NUL,
          r_max_buffer_size := 2 * r_max_buffer_size req \<rparr>"

text \<open>\<open>while((bob+req->buffer_end)>req->max_buffer_size) allocNewBuffer(req)\<close>.  With a size of 0 the C
  loop would not end; \<open>new_request\<close> sets the size to \<open>CLIENT_STREAM_SIZE\<close>.\<close>

function grow_buffer :: "nat \<Rightarrow> request \<Rightarrow> request" where
  "grow_buffer need req =
    (if need \<le> r_max_buffer_size req \<or> r_max_buffer_size req = 0 then req
     else grow_buffer need (allocNewBuffer req))"
  by pat_completeness auto
termination
  by (relation "measure (\<lambda>(need, req). need - r_max_buffer_size req)") (auto simp: allocNewBuffer_def)

declare grow_buffer.simps [simp del]

definition boaWriteBlock :: "request \<Rightarrow> bytes \<Rightarrow> int \<times> request" where
  "boaWriteBlock req buf =
    (let bob = length buf; req = grow_buffer (bob + r_buffer_end req) req
     in if bob > 0
        then (0, req \<lparr> r_buffer := mem_write (r_buffer req) (r_buffer_end req) buf,
                       r_buffer_end := r_buffer_end req + bob \<rparr>)
        else (-1, req))"

text \<open>\<open>boaWrite\<close> formats into a static buffer of 8192 bytes; here it gets the formatted text.\<close>

definition boaWrite :: "request \<Rightarrow> string \<Rightarrow> request" where
  "boaWrite req text = snd (boaWriteBlock req (take 8191 text))"

definition boaHeader :: "request \<Rightarrow> request" where
  "boaHeader req = boaWrite req (lit ''<html>|'')"

definition boaFooter :: "request \<Rightarrow> request" where
  "boaFooter req = boaWrite req (lit ''</html>|'')"

definition boaRedirect :: "env \<Rightarrow> string \<Rightarrow> st \<Rightarrow> st" where
  "boaRedirect env url st = send_redirect_perm env url ((fst st) \<lparr> r_buffer_end := 0 \<rparr>, snd st)"

definition boaRedirectTemp :: "env \<Rightarrow> string \<Rightarrow> st \<Rightarrow> st" where
  "boaRedirectTemp env url st = send_redirect_temp env url ((fst st) \<lparr> r_buffer_end := 0 \<rparr>, snd st)"

definition boaRefreshParent :: "env \<Rightarrow> string \<Rightarrow> st \<Rightarrow> st" where
  "boaRefreshParent env url st =
    (let (req, g) = send_r_request_ok env ((fst st) \<lparr> r_buffer_end := 0 \<rparr>, snd st)
     in (boaWrite req (lit ''<script>parent.location.href=`'' @ url @ lit ''`;</script>''), g))"

section \<open>Nothing is cut\<close>

lemma grow_buffer_fields [simp]:
  "r_buffer_end (grow_buffer n r) = r_buffer_end r"
  "r_buffer_start (grow_buffer n r) = r_buffer_start r"
  by (induction n r rule: grow_buffer.induct; subst grow_buffer.simps; simp add: allocNewBuffer_def)+

lemma grow_buffer_filepos [simp]:
  "r_filepos (grow_buffer n r) = r_filepos r"
  "r_remote_ip_addr (grow_buffer n r) = r_remote_ip_addr r"
  by (induction n r rule: grow_buffer.induct; subst grow_buffer.simps; simp add: allocNewBuffer_def)+

lemma grow_buffer_pos: "0 < r_max_buffer_size r \<Longrightarrow> 0 < r_max_buffer_size (grow_buffer n r)"
  by (induction n r rule: grow_buffer.induct; subst grow_buffer.simps; simp add: allocNewBuffer_def)

lemma allocNewBuffer_ok:
  "buf_ok r \<Longrightarrow> buf_ok (allocNewBuffer r) \<and> pending (allocNewBuffer r) = pending r"
  by (auto simp: buf_ok_def allocNewBuffer_def pending_def bslice_def drop_take min_def)

lemma grow_buffer_ok:
  "buf_ok r \<Longrightarrow> 0 < r_max_buffer_size r \<Longrightarrow>
   buf_ok (grow_buffer n r) \<and> pending (grow_buffer n r) = pending r \<and> n \<le> r_max_buffer_size (grow_buffer n r)"
proof (induction n r rule: grow_buffer.induct)
  case (1 n r)
  show ?case
  proof (cases "n \<le> r_max_buffer_size r \<or> r_max_buffer_size r = 0")
    case True
    then show ?thesis using 1(2,3) by (subst (1 2 3) grow_buffer.simps) auto
  next
    case False
    have "0 < r_max_buffer_size (allocNewBuffer r)" using 1(3) by (simp add: allocNewBuffer_def)
    then show ?thesis
      using 1(1) [OF False] allocNewBuffer_ok [OF 1(2)] False by (subst (1 2 3) grow_buffer.simps) auto
  qed
qed

lemma boaWriteBlock_outcome:
  assumes "buf_ok r" "0 < r_max_buffer_size r" "boaWriteBlock r bs = (ret, r')"
  shows "pending r' = pending r @ bs \<and> buf_ok r' \<and> (ret = 0 \<longleftrightarrow> bs \<noteq> [])"
proof -
  let ?r = "grow_buffer (length bs + r_buffer_end r) r"
  have g: "buf_ok ?r" "pending ?r = pending r" "length bs + r_buffer_end r \<le> r_max_buffer_size ?r"
    using grow_buffer_ok [OF assms(1,2)] by auto
  have "buf_ok r'"
    using g assms(3) by (auto simp: boaWriteBlock_def Let_def buf_ok_def split: if_splits)
  moreover have "pending r' = pending r @ bs"
    using g assms(3) bslice_mem_write [of "r_buffer_start r" "r_buffer_end r" "r_buffer ?r" bs]
    by (auto simp: boaWriteBlock_def Let_def buf_ok_def pending_def split: if_splits)
  ultimately show ?thesis using assms(3) by (auto simp: boaWriteBlock_def Let_def split: if_splits)
qed

text \<open>Unlike \<open>req_write\<close>, \<open>boaWriteBlock\<close> never refuses: whatever the length of the block, the
  buffer grows until the block fits behind the bytes that wait, and those are kept.\<close>

theorem boaWriteBlock_appends:
  assumes "buf_ok r" "0 < r_max_buffer_size r" "boaWriteBlock r bs = (ret, r')"
  shows "pending r' = pending r @ bs \<and> buf_ok r' \<and> (ret = 0 \<longleftrightarrow> bs \<noteq> [])"
  by (rule boaWriteBlock_outcome [OF assms])

theorem boaWriteBlock_appends_witness:
  "pending (snd (boaWriteBlock (fresh_request 2) ''hello'')) = ''hello''"
proof -
  obtain ret r' where out: "boaWriteBlock (fresh_request 2) ''hello'' = (ret, r')" by fastforce
  have "0 < r_max_buffer_size (fresh_request 2)" by (simp add: fresh_request_def)
  then show ?thesis
    using boaWriteBlock_appends [OF fresh_request_ok(1) _ out] out by simp
qed

end
