(* ===== verification/Pages.thy ===== *)
theory Pages
  imports Boawrite
begin

text \<open>
  The checks of \<open>src/src/request.c\<close> on the content of a request: the search for script injection in
  the body and the query, and the lists of pages the administrator and the user may open.
\<close>

section \<open>Script injection\<close>

definition hitKeyword :: "string list" where
  "hitKeyword =
    [''<script'', ''/script'', ''alert('', ''<img src'', ''<iframe'', ''/iframe'', ''onerror'', ''onclick'',
     ''window.location'', ''><a'', ''javascript'', ''jQuery'', ''sleep'', ''%3Cscript'', ''%2Fscript'',
     ''alert%28'', ''><p'']"

text \<open>\<open>len\<close> may be negative; \<open>memcasestr\<close> finds nothing then.\<close>

definition attack_check :: "bytes \<Rightarrow> int \<Rightarrow> bool" where
  "attack_check buf len \<longleftrightarrow> (\<exists>k \<in> set hitKeyword. memcasestr buf k (nat len) \<noteq> None)"

text \<open>The boundary of a multipart body: two hyphens and the parameter of the content type, which is
  cut at 125 characters.\<close>

definition multipart_boundary :: "string \<Rightarrow> string option" where
  "multipart_boundary content_type =
    (case strstr content_type ''boundary='' of
       None \<Rightarrow> None
     | Some i \<Rightarrow>
         let start = drop (i + 9) content_type
         in Some (''--'' @ take 125 (takeWhile (\<lambda>c. c \<noteq> CHR '';'') start)))"

text \<open>The walk over the parts; \<open>start\<close> is the rest of the body (\<open>len\<close> is its length).  A part is
  checked unless it has a \<open>Content-Type\<close>; the two bytes before the next boundary do not belong to it.\<close>

function attack_parts :: "string \<Rightarrow> bytes \<Rightarrow> bool" where
  "attack_parts boundary start =
    (if boundary = [] \<or> length start = 0 then False
     else case memstr start boundary (length start) of
       None \<Rightarrow> False
     | Some pval \<Rightarrow>
         let start = drop (pval + length boundary) start in
         case memstr start [CR, LF, CR, LF] (length start) of
           None \<Rightarrow> attack_parts boundary start
         | Some p \<Rightarrow>
             let nlen = p + 4; body = drop nlen start in
             if memstr start ''Content-Type:'' nlen \<noteq> None then attack_parts boundary body
             else case memstr body boundary (length body) of
                    None \<Rightarrow> attack_check body (int (length body))
                  | Some p \<Rightarrow> attack_check body (int p - 2) \<or> attack_parts boundary (drop p body))"
  by pat_completeness auto
termination
  by (relation "measure (\<lambda>(b, s). length s)") (auto simp: Let_def)

declare attack_parts.simps [simp del]

definition attack_body :: "request \<Rightarrow> bytes \<Rightarrow> bool" where
  "attack_body req buf =
    (case r_content_type req of
       None \<Rightarrow> attack_check buf (int (length buf))
     | Some ct \<Rightarrow>
         if contains_str ct ''multipart/form-data''
         then (case multipart_boundary ct of None \<Rightarrow> False | Some b \<Rightarrow> attack_parts b buf)
         else attack_check buf (int (length buf)))"

text \<open>The file with the posted data as it is mapped: nothing when there is no file, when it is empty
  or when \<open>mmap\<close> fails.\<close>

definition post_map :: "env \<Rightarrow> request \<Rightarrow> bytes option" where
  "post_map env req =
    (if r_post_data_fd req > 0 \<and> e_file env (r_post_data_fd req) \<noteq> [] \<and> e_mmap env (r_post_data_fd req) \<noteq> None
     then Some (e_file env (r_post_data_fd req)) else None)"

definition attack_req_check :: "env \<Rightarrow> request \<Rightarrow> bool" where
  "attack_req_check env req =
    ((r_method req = M_POST \<and>
      (case post_map env req of None \<Rightarrow> False | Some buf \<Rightarrow> attack_body req buf)) \<or>
     (case r_query_string req of None \<Rightarrow> False | Some q \<Rightarrow> attack_check q (int (length q))))"

section \<open>The lists of pages\<close>

definition deo_admin_web_page_list :: "string list" where
  "deo_admin_web_page_list = [
    ''status.asp'', ''status_ipv6.asp'', ''status_pon.asp'', ''lan_port_status.asp'', ''tcpiplan.asp'',
    ''deo_multi_wan_generic.asp'', ''dhcpd.asp'', ''ddns.asp'', ''igmproxy.asp'', ''access_limit.asp'',
    ''client_info.asp'', ''algonoff.asp'', ''fw-ipportfilter.asp'', ''fw-macfilter.asp'', ''fw-portfw.asp'',
    ''static-mapping.asp'', ''fw-dmz.asp'', ''arptable.asp'', ''lbd.asp'', ''snmpv3.asp'',
    ''net_qos_cls.asp'', ''net_qos_traffictl.asp'', ''ipv6_enabledisable.asp'', ''app_mldProxy.asp'',
    ''app_mld_snooping.asp'', ''fw-ipportfilter-v6.asp'', ''aclv6.asp'', ''ping.asp'', ''ping_result.asp'',
    ''ping6.asp'', ''ping6_result.asp'', ''tracert.asp'', ''tracert_result.asp'', ''tracert6.asp'',
    ''tracert6_result.asp'', ''grouptable.asp'', ''grouptable_result.asp'', ''ssh.asp'', ''ssh_result.asp'',
    ''netstat.asp'', ''netstat_result.asp'', ''portmirror.asp'', ''portmirror_result.asp'', ''reboot.asp'',
    ''saveconf.asp'', ''syslog.asp'', ''user_syslog.asp'', ''syslog_server.asp'', ''ldap.asp'',
    ''holepunching.asp'', ''dos.asp'', ''password.asp'', ''upgrade.asp'', ''autoreboot.asp'',
    ''natsession.asp'', ''useage.asp'', ''selfcheck.asp'', ''acl.asp'', ''tz.asp'', ''logout.asp'',
    ''stats.asp'', ''pon-stats.asp'', ''login.asp'', ''login_base.asp'', ''login.cgi'', ''usereg.asp'',
    ''useregresult.asp'', ''terminal_inspec.asp'', ''dl_notify.asp'', ''net_qos_cls_edit.asp'',
    ''net_qos_traffictl_edit.asp'', ''dhcptbl.asp'', ''portBaseFilterDhcp.asp'', ''macIptbl.asp'',
    ''lanApConnection.asp'', ''wanApConnection.asp'', ''invalid_page.asp'', ''formWanApConnection'',
    ''formUpload'', ''formWanRedirect'', ''formPing'', ''formTracert'', ''formSshResult'',
    ''formNetstatResult'', ''formPortMirrorResult'', ''formGroupTable'', ''formSsh'', ''formNetstat'',
    ''formPortMirror'', ''formBankStatus'', ''formUseageSetup'', ''formNatSessionSetup'', ''formDosCfg'',
    ''formAutoReboot'', ''formNtp'', ''formPasswordSetup'', ''formTcpipLanSetup'', ''formWanEth'',
    ''formDhcpServer'', ''formDDNS'', ''formAccessLimit'', ''formReflashClientTbl'', ''formNickname'',
    ''formALGOnOff'', ''formFilter'', ''formPortFw'', ''formStaticMapping'', ''formDMZ'',
    ''formRefleshFdbTbl'', ''formLBD'', ''formWanEth'', ''formFilterV6'', ''formReboot'', ''formSaveConfig'',
    ''formStats'', ''formStatus'', ''formLANPortStatus'', ''formIgmproxy'', ''formSnmpConfig'',
    ''formMLDProxy'', ''formMLDSnooping'', ''formV6ACL'', ''formLogout'', ''formmacBase'', ''formSysLog'',
    ''formHolepunching'', ''formLdap'', ''formACL'', ''formQosRuleEdit'', ''formQosRule'',
    ''formQosTraffictlEdit'', ''formQosTraffictl'', ''userLogin'', ''bootstrap'', ''captcha.png'',
    ''common.js'', ''common.css'', ''base64_code.js'', ''sha256_code.js'', ''default.css'',
    ''btn_login_bg.gif'', ''login_bg_new.jpg'', ''icon_login.png'', ''logo.gif'', ''bg_ah_login_01.gif'',
    ''bg_ah_login.gif'', ''loid_register.gif'', ''loidreg_ah_01.gif'', ''loidreg_ah.gif'', ''favicon.ico'',
    ''sk_loing_logo.png'', ''reset.css'', ''style.css'', ''jquip.js'', ''base.css'', ''jquip_sizzle.js'',
    ''juicer.js'', ''ui.js'', ''init.js'', ''adminMenu.js'', ''userMenu.js'', ''top_bg.jpg'',
    ''nav_line.jpg'', ''icon_menu_li.jpg'', ''share.js'', ''btn_refresh.gif'', ''btn_orange2.gif'',
    ''php-crypt-md5.js'', ''md5.js'', ''messages'', ''ram_log'']"

definition deo_user_web_page_list :: "string list" where
  "deo_user_web_page_list = [
    ''status.asp'', ''status_ipv6.asp'', ''status_pon.asp'', ''lan_port_status.asp'', ''tcpiplan.asp'',
    ''deo_multi_wan_generic.asp'', ''dhcpd.asp'', ''ddns.asp'', ''access_limit.asp'', ''client_info.asp'',
    ''algonoff.asp'', ''fw-ipportfilter.asp'', ''fw-macfilter.asp'', ''fw-portfw.asp'',
    ''static-mapping.asp'', ''fw-dmz.asp'', ''arptable.asp'', ''lbd.asp'', ''ipv6_enabledisable.asp'',
    ''fw-ipportfilter-v6.asp'', ''ping.asp'', ''ping_result.asp'', ''ping6.asp'', ''ping6_result.asp'',
    ''tracert.asp'', ''tracert_result.asp'', ''tracert6.asp'', ''tracert6_result.asp'', ''grouptable.asp'',
    ''grouptable_result.asp'', ''ssh.asp'', ''ssh_result.asp'', ''portmirror.asp'', ''portmirror_result.asp'',
    ''reboot.asp'', ''saveconf.asp'', ''user_syslog.asp'', ''syslog_server.asp'', ''dos.asp'',
    ''password.asp'', ''upgrade.asp'', ''autoreboot.asp'', ''natsession.asp'', ''useage.asp'',
    ''selfcheck.asp'', ''tz.asp'', ''logout.asp'', ''stats.asp'', ''pon-stats.asp'', ''login.asp'',
    ''login_base.asp'', ''login.cgi'', ''usereg.asp'', ''useregresult.asp'', ''terminal_inspec.asp'',
    ''dl_notify.asp'', ''net_qos_cls_edit.asp'', ''net_qos_traffictl_edit.asp'', ''dhcptbl.asp'',
    ''portBaseFilterDhcp.asp'', ''macIptbl.asp'', ''lanApConnection.asp'', ''wanApConnection.asp'',
    ''invalid_page.asp'', ''formWanApConnection'', ''formUpload'', ''formWanRedirect'', ''formPing'',
    ''formTracert'', ''formSshResult'', ''formNetstatResult'', ''formPortMirrorResult'', ''formGroupTable'',
    ''formSsh'', ''formNetstat'', ''formPortMirror'', ''formBankStatus'', ''formUseageSetup'',
    ''formNatSessionSetup'', ''formDosCfg'', ''formAutoReboot'', ''formNtp'', ''formPasswordSetup'',
    ''formTcpipLanSetup'', ''formWanEth'', ''formDhcpServer'', ''formDDNS'', ''formAccessLimit'',
    ''formReflashClientTbl'', ''formNickname'', ''formALGOnOff'', ''formFilter'', ''formPortFw'',
    ''formStaticMapping'', ''formDMZ'', ''formRefleshFdbTbl'', ''formLBD'', ''formWanEth'', ''formFilterV6'',
    ''formReboot'', ''formSaveConfig'', ''formStats'', ''formStatus'', ''formLANPortStatus'',
    ''formIgmproxy'', ''formSnmpConfig'', ''formMLDProxy'', ''formMLDSnooping'', ''formV6ACL'',
    ''formLogout'', ''formmacBase'', ''formSysLog'', ''userLogin'', ''bootstrap'', ''captcha.png'',
    ''common.js'', ''common.css'', ''base64_code.js'', ''sha256_code.js'', ''default.css'',
    ''btn_login_bg.gif'', ''login_bg_new.jpg'', ''icon_login.png'', ''logo.gif'', ''bg_ah_login_01.gif'',
    ''bg_ah_login.gif'', ''loid_register.gif'', ''loidreg_ah_01.gif'', ''loidreg_ah.gif'', ''favicon.ico'',
    ''sk_loing_logo.png'', ''reset.css'', ''style.css'', ''jquip.js'', ''base.css'', ''jquip_sizzle.js'',
    ''juicer.js'', ''ui.js'', ''init.js'', ''adminMenu.js'', ''userMenu.js'', ''top_bg.jpg'',
    ''nav_line.jpg'', ''icon_menu_li.jpg'', ''share.js'', ''btn_refresh.gif'', ''btn_orange2.gif'',
    ''php-crypt-md5.js'', ''md5.js'', ''messages'', ''ram_log'']"

definition checkNL_CR :: "string \<Rightarrow> bool" where
  "checkNL_CR url \<longleftrightarrow>
    (\<exists>s \<in> {''%0d'', ''%0D'', ''%0a'', ''%0A''}. contains_str url s) \<or>
    (\<exists>s \<in> {''%0d%0a'', ''%0D%0a'', ''%0d%0A'', ''%0D%0A''}. contains_str url s) \<or>
    (\<exists>s \<in> {''%0a%0d'', ''%0A%0d'', ''%0a%0D'', ''%0A%0D''}. contains_str url s)"

text \<open>0 when the page may be opened, else 1.\<close>

definition checkAdminWhiteListPage :: "string \<Rightarrow> int" where
  "checkAdminWhiteListPage url =
    (if url = ''/'' \<or> (\<exists>p \<in> set deo_admin_web_page_list. contains_str url p) then 0 else 1)"

text \<open>The loop over the user's list; \<open>None\<close> stands for the crash of \<open>strstr (host, ...)\<close> on a request
  without a host.\<close>

fun user_page_loop :: "string \<Rightarrow> string option \<Rightarrow> string list \<Rightarrow> int option" where
  "user_page_loop url host [] = Some 1"
| "user_page_loop url host (p # ps) =
    (if contains_str url ''netstat_result.asp'' then Some 0
     else if contains_str url ''netstat.asp'' \<and> host = None then None
     else if contains_str url ''netstat.asp'' \<and> contains_str (opt [] host) ''8080'' then Some 0
     else if contains_str url p then
       (if contains_str url ''app_mld_snooping.asp'' \<and> p = ''ping.asp''
        then user_page_loop url host ps else Some 0)
     else user_page_loop url host ps)"

definition checkUserWhiteListPage :: "string \<Rightarrow> string option \<Rightarrow> int option" where
  "checkUserWhiteListPage url host =
    (case user_page_loop url host deo_user_web_page_list of
       None \<Rightarrow> None
     | Some ret \<Rightarrow> Some (if url = ''/'' then 0 else ret))"

section \<open>Back to the login page\<close>

definition deo_login_page :: "string list" where
  "deo_login_page =
    [lit ''HTTP/1.0 302 Moved Temporarily~'',
     lit ''Content-Type: text/html; charset=UTF-8~'',
     lit ''Set-Cookie: sessionid=0;  Max-Age=0; Path=/; ~'',
     lit ''~'',
     lit ''<html><head>~'' @
     lit ''<style>#cntdwn{ border-color: white;border-width: 0px;font-size: 12pt;color: red;text-align:center; font-weight:bold; font-family: Courier;}~'' @
     lit ''body { background-repeat: no-repeat; background-attachment: fixed;     background-position: center;   text-align:left;}~'' @
     lit ''div.msg { font-size: 20px; top: 100px; width: 470px; text-align:center;}~'' @
     lit ''#progress-boader{ border: 2px #ccc solid;border-radius: 10px;height: 25; top: 10px; width :420px; text-align:center ;left: 30px}~'' @
     lit ''</style>~'' @
     lit ''<script language=javascript>~'' @
     lit ''window.open(^/admin/login.asp^,target=^_top^); ~'' @
     lit ''</script></head>~'' @
     lit ''<body>'']"

definition deo_redirect_login_web :: "request \<Rightarrow> request" where
  "deo_redirect_login_web req = wr (lit ''</body></html>|'') (fold (\<lambda>m r. boaWrite r m) deo_login_page req)"

section \<open>What the lists accept\<close>

lemma page_lists_subset: "set deo_user_web_page_list \<subseteq> set deo_admin_web_page_list"
proof -
  have "subseq deo_user_web_page_list deo_admin_web_page_list"
    unfolding deo_user_web_page_list_def deo_admin_web_page_list_def by code_simp
  then show ?thesis by (auto elim: list_emb_set)
qed

definition user_page_ok :: "string \<Rightarrow> string option \<Rightarrow> string \<Rightarrow> bool" where
  "user_page_ok url host p \<longleftrightarrow> contains_str url p \<and>
     \<not> (contains_str url ''app_mld_snooping.asp'' \<and> p = ''ping.asp'')"

lemma user_page_loop_eq:
  "ps \<noteq> [] \<Longrightarrow> user_page_loop url host ps =
    (if contains_str url ''netstat_result.asp'' then Some 0
     else if contains_str url ''netstat.asp'' \<and> host = None then None
     else if contains_str url ''netstat.asp'' \<and> contains_str (opt [] host) ''8080'' then Some 0
     else if \<exists>p \<in> set ps. user_page_ok url host p then Some 0 else Some 1)"
proof (induction ps)
  case (Cons p ps)
  define rest where "rest = user_page_loop url host ps"
  have unfold: "user_page_loop url host (p # ps) =
    (if contains_str url ''netstat_result.asp'' then Some 0
     else if contains_str url ''netstat.asp'' \<and> host = None then None
     else if contains_str url ''netstat.asp'' \<and> contains_str (opt [] host) ''8080'' then Some 0
     else if user_page_ok url host p then Some 0 else rest)"
    by (auto simp: user_page_ok_def rest_def)
  show ?case
  proof (cases "ps = []")
    case True
    then show ?thesis unfolding unfold by (auto simp: rest_def)
  next
    case False
    show ?thesis unfolding unfold unfolding rest_def Cons.IH [OF False] by auto
  qed
qed simp

text \<open>The result of a chain of tests like that of the user's list.\<close>

lemma page_result:
  "(case (if a then Some 0 else if s \<and> h then None else if s \<and> n then Some 0
          else if e then Some 0 else Some 1) of
      None \<Rightarrow> None | Some ret \<Rightarrow> Some (if r then 0 else ret)) = Some (0 :: int) \<longleftrightarrow>
    \<not> (\<not> a \<and> s \<and> h) \<and> (r \<or> a \<or> (s \<and> n) \<or> e)"
  "(case (if a then Some 0 else if s \<and> h then None else if s \<and> n then Some 0
          else if e then Some 0 else Some (1 :: int)) of
      None \<Rightarrow> None | Some ret \<Rightarrow> Some (if r then 0 else ret)) = None \<longleftrightarrow> \<not> a \<and> s \<and> h"
  by auto

lemma netstat_pages:
  "''netstat.asp'' \<in> set deo_admin_web_page_list" "''netstat_result.asp'' \<in> set deo_admin_web_page_list"
  by (simp_all add: deo_admin_web_page_list_def)

text \<open>C22: Exactly which URLs a user may open: those that contain the name of a page of the list
  anywhere (with the two exceptions), and every page a user may open the administrator may open.
  A request without a host for the connection table page makes the check crash.\<close>

theorem user_pages_exact:
  "(checkUserWhiteListPage url host = None \<longleftrightarrow>
      host = None \<and> contains_str url ''netstat.asp'' \<and> \<not> contains_str url ''netstat_result.asp'') \<and>
   {url. checkUserWhiteListPage url host = Some 0} \<subseteq> {url. checkAdminWhiteListPage url = 0} \<and>
   (checkUserWhiteListPage url host = Some 0 \<longleftrightarrow>
      checkUserWhiteListPage url host \<noteq> None \<and>
      (url = ''/'' \<or> contains_str url ''netstat_result.asp'' \<or>
       (contains_str url ''netstat.asp'' \<and> contains_str (opt [] host) ''8080'') \<or>
       (\<exists>p \<in> set deo_user_web_page_list. user_page_ok url host p)))"
proof -
  define n8 where "n8 = contains_str (opt [] host) ''8080''"
  define nr where "nr = ''netstat_result.asp''"
  define ns where "ns = ''netstat.asp''"
  have ne: "deo_user_web_page_list \<noteq> []" by (simp add: deo_user_web_page_list_def)
  have admin: "p \<in> set deo_admin_web_page_list \<Longrightarrow> contains_str u p \<Longrightarrow> checkAdminWhiteListPage u = 0" for p u
    by (auto simp: checkAdminWhiteListPage_def)
  have user: "p \<in> set deo_user_web_page_list \<Longrightarrow> user_page_ok u host p \<Longrightarrow> checkAdminWhiteListPage u = 0" for p u
    using admin [of p u] subsetD [OF page_lists_subset] by (simp add: user_page_ok_def)
  have root: "u = ''/'' \<Longrightarrow> checkAdminWhiteListPage u = 0" for u by (simp add: checkAdminWhiteListPage_def)
  have loop: "user_page_loop u host deo_user_web_page_list =
    (if contains_str u nr then Some 0 else if contains_str u ns \<and> host = None then None
     else if contains_str u ns \<and> n8 then Some 0
     else if \<exists>p \<in> set deo_user_web_page_list. user_page_ok u host p then Some 0 else Some 1)" for u
    using user_page_loop_eq [OF ne, of u host] by (simp only: n8_def nr_def ns_def)
  have net: "contains_str u nr \<or> contains_str u ns \<Longrightarrow> checkAdminWhiteListPage u = 0" for u
    using admin netstat_pages unfolding nr_def ns_def by blast
  have accept: "checkUserWhiteListPage u host = Some 0 \<longleftrightarrow>
      \<not> (\<not> contains_str u nr \<and> contains_str u ns \<and> host = None) \<and>
      (u = ''/'' \<or> contains_str u nr \<or> (contains_str u ns \<and> n8) \<or>
       (\<exists>p \<in> set deo_user_web_page_list. user_page_ok u host p))"
    and crash: "checkUserWhiteListPage u host = None \<longleftrightarrow>
      \<not> contains_str u nr \<and> contains_str u ns \<and> host = None" for u
    unfolding checkUserWhiteListPage_def loop by (rule page_result)+
  have "checkAdminWhiteListPage u = 0" if "checkUserWhiteListPage u host = Some 0" for u
    using that user [of _ u] root [of u] net [of u] unfolding accept by blast
  then have "{url. checkUserWhiteListPage url host = Some 0} \<subseteq> {url. checkAdminWhiteListPage url = 0}"
    by blast
  then show ?thesis
    unfolding accept crash n8_def [symmetric] nr_def [symmetric] ns_def [symmetric] by blast
qed

section \<open>What the search finds\<close>

definition keyword_in :: "bytes \<Rightarrow> bool" where
  "keyword_in s \<longleftrightarrow> (\<exists>k \<in> set hitKeyword. sublist (map tolower k) (map tolower s))"

lemma hitKeyword_length: "k \<in> set hitKeyword \<Longrightarrow> length k < 128"
  by (auto simp: hitKeyword_def)

lemma attack_check_take:
  assumes "n \<le> length buf"
  shows "attack_check buf (int n) = keyword_in (take n buf)"
  using assms memcasestr_strstr [OF hitKeyword_length]
  by (auto simp: attack_check_def keyword_in_def strstr_None take_map)

lemmas attack_check_all = attack_check_take [of "length s" s for s, simplified]

text \<open>A multipart body: every part is the boundary, a header, a blank line and a value.\<close>

fun multipart_text :: "string \<Rightarrow> (string \<times> bytes) list \<Rightarrow> bytes \<Rightarrow> bytes" where
  "multipart_text b [] rest = b @ rest"
| "multipart_text b ((hdr, val) # parts) rest =
    b @ hdr @ [CR, LF, CR, LF] @ val @ [CR, LF] @ multipart_text b parts rest"

definition part_ok :: "string \<Rightarrow> string \<times> bytes \<Rightarrow> bool" where
  "part_ok b part \<longleftrightarrow> clear_of [CR, LF, CR, LF] (fst part) \<and> clear_of b (snd part @ [CR, LF])"

definition typed_part :: "string \<times> bytes \<Rightarrow> bool" where
  "typed_part part \<longleftrightarrow> sublist ''Content-Type:'' (fst part @ [CR, LF, CR, LF])"

lemma multipart_text_boundary: "\<exists>t. multipart_text b parts rest = b @ t"
  by (cases parts rule: remdups_adj.cases) auto

lemma memstr_clear:
  assumes "clear_of p s" "p \<noteq> []" "length p < 128"
  shows "memstr (s @ p @ t) p (length (s @ p @ t)) = Some (length s)"
  using memstr_strstr [OF assms(3), of "length (s @ p @ t)" "s @ p @ t"] strstr_clear [OF assms(1,2), of t]
  by simp

lemma memstr_none:
  assumes "\<not> sublist p s" "length p < 128"
  shows "memstr s p (length s) = None"
  using memstr_strstr [OF assms(2), of "length s" s] assms(1) by (simp add: strstr_None)

lemma attack_parts_skip:
  assumes "b \<noteq> []" "length b < 128" "clear_of b s"
  shows "attack_parts b (s @ b @ t) =
    (case memstr t [CR, LF, CR, LF] (length t) of
       None \<Rightarrow> attack_parts b t
     | Some p \<Rightarrow>
         let body = drop (p + 4) t in
         if memstr t ''Content-Type:'' (p + 4) \<noteq> None then attack_parts b body
         else case memstr body b (length body) of
                None \<Rightarrow> attack_check body (int (length body))
              | Some p \<Rightarrow> attack_check body (int p - 2) \<or> attack_parts b (drop p body))"
  using assms memstr_clear [OF assms(3,1,2), of t]
  by (subst attack_parts.simps) (simp add: Let_def split: option.split)

lemma attack_parts_multipart:
  assumes "b \<noteq> []" "length b < 128" "clear_of b s" "list_all (part_ok b) parts"
    "\<not> sublist [CR, LF, CR, LF] rest" "\<not> sublist b rest"
  shows "attack_parts b (s @ multipart_text b parts rest) =
    (\<exists>part \<in> set parts. \<not> typed_part part \<and> keyword_in (snd part))"
  using assms(3,4)
proof (induction parts arbitrary: s)
  case Nil
  have "attack_parts b rest = False"
    using memstr_none [OF assms(6,2)] by (subst attack_parts.simps) simp
  then show ?case
    using attack_parts_skip [OF assms(1,2) Nil(1), of rest] memstr_none [OF assms(5)] by simp
next
  case (Cons part parts)
  obtain hdr val where part: "part = (hdr, val)" by fastforce
  let ?rest = "multipart_text b parts rest"
  let ?body = "val @ [CR, LF] @ ?rest"
  let ?t = "hdr @ [CR, LF, CR, LF] @ ?body"
  obtain t where t: "?rest = b @ t" using multipart_text_boundary by blast
  have ok: "clear_of [CR, LF, CR, LF] hdr" "clear_of b (val @ [CR, LF])" "list_all (part_ok b) parts"
    using Cons.prems(2) by (simp_all add: part part_ok_def [of _ "(_, _)"])
  have eoh: "memstr ?t [CR, LF, CR, LF] (length ?t) = Some (length hdr)"
    by (rule memstr_clear) (use ok(1) in auto)
  have typed: "memstr ?t ''Content-Type:'' (length hdr + 4) \<noteq> None \<longleftrightarrow> typed_part part"
    using memstr_strstr [of "''Content-Type:''" "length hdr + 4" ?t]
    by (simp add: typed_part_def part strstr_None del: not_None_eq)
  have next_b: "memstr ?body b (length ?body) = Some (length val + 2)"
    using memstr_clear [OF ok(2) assms(1,2), of t] t by simp
  have check: "attack_check ?body (int (length val + 2) - 2) = keyword_in val"
    using attack_check_take [of "length val" ?body] by simp
  have empty: "clear_of b []" by (rule clear_of_Nil [OF assms(1)])
  have body: "attack_parts b ?body = (\<exists>p \<in> set parts. \<not> typed_part p \<and> keyword_in (snd p))"
    using Cons.IH [OF ok(2,3)] by simp
  have others: "attack_parts b ?rest = (\<exists>p \<in> set parts. \<not> typed_part p \<and> keyword_in (snd p))"
    using Cons.IH [OF empty ok(3)] by simp
  have drop: "drop (length hdr + 4) ?t = ?body" "drop (length val + 2) ?body = ?rest" by simp_all
  show ?case
    using attack_parts_skip [OF assms(1,2) Cons.prems(1), of ?t] eoh typed next_b check body others drop
    by (simp add: part Let_def del: append_Cons append_Nil) (auto simp: part)
qed

text \<open>C23: In a multipart body, whatever its parts, the search reports an attack exactly when the value
  of a part without a content type holds one of the keywords, compared without regard to case:
  parts with a content type (uploaded files) are never searched.\<close>

theorem attack_multipart_exact:
  assumes "b \<noteq> []" "length b < 128" "list_all (part_ok b) parts"
    "\<not> sublist [CR, LF, CR, LF] rest" "\<not> sublist b rest"
  shows "attack_parts b (multipart_text b parts rest) =
    (\<exists>part \<in> set parts. \<not> typed_part part \<and> keyword_in (snd part))"
proof -
  have "clear_of b []" by (rule clear_of_Nil [OF assms(1)])
  then show ?thesis using attack_parts_multipart [OF assms(1,2) _ assms(3-5), of "[]"] by simp
qed

theorem attack_multipart_exact_witness:
  "attack_parts ''--xyz'' (multipart_text ''--xyz''
     [(''; name=a'', ''<ScRiPt>''), (''Content-Type: text'', ''<script'')] ''--'')"
proof -
  let ?parts = "[(''; name=a'', ''<ScRiPt>''), (''Content-Type: text'', ''<script'')]"
  have "(''; name=a'', ''<ScRiPt>'') \<in> set ?parts" by simp
  moreover have "\<not> typed_part (''; name=a'', ''<ScRiPt>'')"
    by (simp add: typed_part_def sublist_Cons_right)
  moreover have "keyword_in ''<ScRiPt>''"
    by (simp add: keyword_in_def hitKeyword_def tolower_def is_upper_def char_eval sublist_Cons_right)
  ultimately show ?thesis
    by (subst attack_multipart_exact) (auto simp: part_ok_def clear_of_def sublist_Cons_right)
qed

end
