(* ===== verification/Params.thy ===== *)
theory Params
  imports Pages
begin

text \<open>
  The parameters of a form: their extraction from a query string or an URL encoded body
  (\<open>getcgiparam_adv\<close>) and from a multipart body, the escapes of shell characters and
  \<open>boaGetVar_adv\<close> that puts them together (\<open>src/src/asp_page.c\<close>).  A byte behind the end of the
  data reads as zero, as behind a C string and in the last page of a mapped file.
\<close>

definition MAX_QUERY_TEMP_VAL_SIZE :: nat where "MAX_QUERY_TEMP_VAL_SIZE = 8192"

section \<open>URL encoded parameters\<close>

definition isxdigit :: "char \<Rightarrow> bool" where
  "isxdigit c \<longleftrightarrow> is_digit c \<or> (65 \<le> uchar c \<and> uchar c \<le> 70) \<or> (97 \<le> uchar c \<and> uchar c \<le> 102)"

definition xdigit_val :: "char \<Rightarrow> nat" where
  "xdigit_val c = (let u = uchar (toupper c) in if u \<ge> 65 then u - 65 + 10 else u - 48)"

text \<open>The copy into a destination with room for \<open>maxlen\<close> bytes.\<close>

fun param_decode :: "nat \<Rightarrow> bytes \<Rightarrow> bytes" where
  "param_decode 0 s = []"
| "param_decode (Suc n) [] = []"
| "param_decode (Suc n) (c # s) =
    (if c = NUL \<or> c = CHR ''&'' then []
     else if c = CHR ''%'' \<and> length s \<ge> 2 \<and> isxdigit (s ! 0) \<and> isxdigit (s ! 1)
     then chr_of (16 * xdigit_val (s ! 0) + xdigit_val (s ! 1)) # param_decode n (drop 2 s)
     else (if c = CHR ''+'' then CHR '' '' else c) # param_decode n s)"

text \<open>The loop over the occurrences of the name.  \<open>start\<close> is the rest of the query, \<open>count\<close> counts the
  parameters of that name; a negative \<open>index\<close> takes the first.  \<open>None\<close> is the result -1.  (For an
  empty name the C loop may not end; the names are constants of the callers.)\<close>

function param_loop :: "nat \<Rightarrow> string \<Rightarrow> int \<Rightarrow> bytes \<Rightarrow> int \<Rightarrow> bytes option" where
  "param_loop maxlen param index start count =
    (if start = [] then None
     else case memstr start param (length start) of
       None \<Rightarrow> None
     | Some pval \<Rightarrow>
         if (pval = 0 \<or> start ! (pval - 1) = CHR ''&'') \<and> char_at start (pval + length param) = CHR ''=''
         then
           let p = drop (pval + length param + 1) start in
           case memstr p ''&'' (length p) of
             Some nlen \<Rightarrow>
               if index < 0 \<or> index = count then Some (param_decode maxlen (take nlen p))
               else param_loop maxlen param index (drop (nlen + 1) p) (count + 1)
           | None \<Rightarrow> if index < 0 \<or> index = count then Some (param_decode maxlen p) else None
         else if param = [] then None
         else param_loop maxlen param index (drop (pval + length param) start) count)"
  by pat_completeness auto
termination
  by (relation "measure (\<lambda>(m, p, i, s, c). length s)") (auto simp: Let_def)

declare param_loop.simps [simp del]

definition getcgiparam_adv :: "nat \<Rightarrow> bytes \<Rightarrow> string \<Rightarrow> int \<Rightarrow> bytes option" where
  "getcgiparam_adv maxlen query_string param index =
    (if length query_string < length param then None else param_loop maxlen param index query_string 0)"

definition getcgiparam :: "nat \<Rightarrow> bytes \<Rightarrow> string \<Rightarrow> bytes option" where
  "getcgiparam maxlen query_string param = getcgiparam_adv maxlen query_string param (-1)"

section \<open>Multipart parameters\<close>

text \<open>A value of negative length (a boundary less than two bytes behind the blank line) is copied with
  a huge \<open>size_t\<close>: the server crashes.\<close>

datatype param_result = P_none | P_val bytes | P_crash

definition multipart_name_here :: "bytes \<Rightarrow> nat \<Rightarrow> string \<Rightarrow> bool" where
  "multipart_name_here start nlen param =
    (case memstr start ''name='' nlen of
       None \<Rightarrow> False
     | Some i \<Rightarrow>
         (case memstr (drop (i + 5) start) param (nlen - (i + 5)) of
            None \<Rightarrow> False
          | Some j \<Rightarrow>
              char_at start (i + 5 + j + length param) \<in> {QUOTE, CHR '';'', CHR 0x27}))"

function multipart_loop :: "nat \<Rightarrow> string \<Rightarrow> string \<Rightarrow> bytes \<Rightarrow> param_result" where
  "multipart_loop maxlen boundary param start =
    (if boundary = [] \<or> start = [] then P_none
     else case memstr start boundary (length start) of
       None \<Rightarrow> P_none
     | Some pval \<Rightarrow>
         let start = drop (pval + length boundary) start in
         case memstr start [CR, LF, CR, LF] (length start) of
           None \<Rightarrow> multipart_loop maxlen boundary param start
         | Some p \<Rightarrow>
             let nlen = p + 4; body = drop nlen start in
             if multipart_name_here start nlen param then
               (case memstr body boundary (length body) of
                  None \<Rightarrow> P_none
                | Some p \<Rightarrow>
                    if p < 2 then P_crash
                    else if p - 2 < maxlen then P_val (take (p - 2) body) else P_none)
             else multipart_loop maxlen boundary param body)"
  by pat_completeness auto
termination
  by (relation "measure (\<lambda>(m, b, p, s). length s)") (auto simp: Let_def)

declare multipart_loop.simps [simp del]

definition getcgiparam_multipart :: "request \<Rightarrow> nat \<Rightarrow> bytes \<Rightarrow> string \<Rightarrow> param_result" where
  "getcgiparam_multipart req maxlen query_string param =
    (let ct = opt [] (r_content_type req) in
     if length query_string < length param then P_none
     else case strstr ct ''boundary='' of
       None \<Rightarrow> P_none
     | Some i \<Rightarrow>
         let b = takeWhile (\<lambda>c. c \<noteq> CHR '';'') (drop (i + 9) ct) in
         if length b > 125 then P_none else multipart_loop maxlen (''--'' @ b) param query_string)"

section \<open>Shell characters\<close>

definition specialchar :: string where
  "specialchar = CHR 0x27 # QUOTE # ''&><;(){}$''"

fun addEscapeStr :: "bytes \<Rightarrow> bytes" where
  "addEscapeStr [] = []"
| "addEscapeStr (c # s) =
    (if c \<in> set specialchar then BACKSLASH # c # addEscapeStr s else c # addEscapeStr s)"

section \<open>\<open>boaGetVar\<close>\<close>

text \<open>The text the parameter is looked for in: \<open>None\<close> when there is none.\<close>

definition var_text :: "env \<Rightarrow> request \<Rightarrow> bytes option" where
  "var_text env req =
    (if r_method req = M_POST then
       (if r_post_data_fd req > 0 \<and> e_file env (r_post_data_fd req) \<noteq> [] then post_map env req
        else r_query_string req)
     else r_query_string req)"

text \<open>The value goes through the C string \<open>buf_tmp\<close>, which is cleared before; \<open>addEscapeStr\<close> lengthens it
  there, and does not know where the array ends.\<close>

definition var_value :: "bytes \<Rightarrow> string" where
  "var_value v = addEscapeStr (cstr v @ replicate (length v - length (cstr v)) NUL)"

definition boaGetVar_adv :: "env \<Rightarrow> request \<Rightarrow> string \<Rightarrow> string \<Rightarrow> int \<Rightarrow> param_result" where
  "boaGetVar_adv env req var defaultGetValue index =
    (case var_text env req of
       None \<Rightarrow> P_val defaultGetValue
     | Some text \<Rightarrow>
         let res = (if r_content_type req \<noteq> None \<and>
                       contains_str (opt [] (r_content_type req)) ''multipart/form-data''
                    then getcgiparam_multipart req MAX_QUERY_TEMP_VAL_SIZE text var
                    else case getcgiparam_adv MAX_QUERY_TEMP_VAL_SIZE text var index of
                           None \<Rightarrow> P_none | Some v \<Rightarrow> P_val v)
         in case res of
              P_none \<Rightarrow> P_val defaultGetValue
            | P_val v \<Rightarrow>
                if length (var_value v) > MAX_QUERY_TEMP_VAL_SIZE then P_crash else P_val (cstr (var_value v))
            | P_crash \<Rightarrow> P_crash)"

definition boaGetVar :: "env \<Rightarrow> request \<Rightarrow> string \<Rightarrow> string \<Rightarrow> param_result" where
  "boaGetVar env req var defaultGetValue = boaGetVar_adv env req var defaultGetValue (-1)"

section \<open>Reading parameters back\<close>

text \<open>The encoding a browser uses for the value of a form field.\<close>

definition url_plain :: "char \<Rightarrow> bool" where
  "url_plain c \<longleftrightarrow> is_digit c \<or> is_lower c \<or> is_upper c \<or> c \<in> {CHR ''-'', CHR ''_'', CHR ''.'', CHR ''*''}"

definition url_enc :: "char \<Rightarrow> string" where
  "url_enc c =
    (if c = CHR '' '' then ''+'' else if url_plain c then [c]
     else [CHR ''%'', int_to_hex (uchar c div 16), int_to_hex (uchar c mod 16)])"

lemma xdigit_int_to_hex: "x < 16 \<Longrightarrow> isxdigit (int_to_hex x) \<and> xdigit_val (int_to_hex x) = x"
  by (auto simp: isxdigit_def xdigit_val_def int_to_hex_def is_digit_def toupper_def is_lower_def Let_def)

lemma hex_byte: "chr_of (16 * (uchar c div 16) + uchar c mod 16) = c"
  by simp

lemma url_plain_not_special:
  "url_plain c \<Longrightarrow> c \<notin> {NUL, CHR ''&'', CHR ''%'', CHR ''+'', CHR ''=''}"
  by (auto simp: url_plain_def is_digit_def is_lower_def is_upper_def char_eval)

lemma param_decode_enc: "param_decode n (concat (map url_enc v)) = take n v"
proof (induction v arbitrary: n)
  case Nil
  show ?case by (cases n) simp_all
next
  case (Cons c v)
  show ?case
  proof (cases n)
    case (Suc m)
    have d: "uchar c div 16 < 16" "uchar c mod 16 < 16" using uchar_less [of c] by linarith+
    show ?thesis
      using Cons [of m] url_plain_not_special [of c] xdigit_int_to_hex [OF d(1)] xdigit_int_to_hex [OF d(2)]
      by (cases "url_plain c") (auto simp: Suc url_enc_def hex_byte)
  qed simp
qed

lemma url_enc_no_amp: "CHR ''&'' \<notin> set (concat (map url_enc v))"
proof -
  have "CHR ''&'' \<notin> set (url_enc c)" for c
  proof -
    have hex: "CHR ''&'' \<noteq> int_to_hex x" if "x < 16" for x
    proof -
      have "\<not> isxdigit (CHR ''&'')" by (simp add: isxdigit_def is_digit_def char_eval)
      then show ?thesis using xdigit_int_to_hex [OF that] by metis
    qed
    have d: "uchar c div 16 < 16" "uchar c mod 16 < 16" using uchar_less [of c] by linarith+
    show ?thesis
      using url_plain_not_special [of c] hex [OF d(1)] hex [OF d(2)] by (auto simp: url_enc_def)
  qed
  then show ?thesis by auto
qed

lemma memstr_char:
  "memstr s [c] (length s) = strchr s c"
proof -
  have "strstr s [c] = strchr s c" by (induction s) auto
  then show ?thesis using memstr_strstr [of "[c]" "length s" s] by simp
qed

text \<open>C24: The value of a form field that a browser sends URL encoded is read back exactly (cut at the
  size of the buffer), wherever the field stands among the others, as long as its name does not
  occur in the text before it.\<close>

theorem getcgiparam_roundtrip:
  assumes "pre = [] \<or> last pre = CHR ''&''" "rest = [] \<or> hd rest = CHR ''&''"
    and "clear_of param pre" "param \<noteq> []" "length param < 128"
  shows "getcgiparam maxlen (pre @ param @ CHR ''='' # concat (map url_enc v) @ rest) param = Some (take maxlen v)"
proof -
  let ?v = "concat (map url_enc v)"
  let ?q = "pre @ param @ CHR ''='' # ?v @ rest"
  have m: "memstr ?q param (length ?q) = Some (length pre)"
    using memstr_clear [OF assms(3-5)] by blast
  have start: "length pre = 0 \<or> ?q ! (length pre - 1) = CHR ''&''"
    using assms(1) by (cases pre rule: rev_cases) (auto simp: nth_append)
  have eq: "char_at ?q (length pre + length param) = CHR ''=''"
    by (simp add: char_at_def nth_append)
  have p: "drop (length pre + length param + 1) ?q = ?v @ rest" by simp
  have amp: "strchr (?v @ rest) (CHR ''&'') = (if rest = [] then None else Some (length ?v))"
    using url_enc_no_amp [of v] assms(2) strchr_append [OF url_enc_no_amp [of v]]
    by (cases rest) auto
  show ?thesis
    using m start eq p amp assms(4)
    by (simp add: getcgiparam_def getcgiparam_adv_def param_loop.simps [of _ _ _ ?q]
        memstr_char param_decode_enc)
qed

theorem getcgiparam_roundtrip_witness:
  "getcgiparam 10 ''x=1&name=a%26+b&z=2'' ''name'' = Some ''a& b''"
proof -
  have "concat (map url_enc ''a& b'') = ''a%26+b''"
    by (simp add: url_enc_def url_plain_def is_digit_def is_lower_def is_upper_def int_to_hex_def char_eval)
  then show ?thesis
    using getcgiparam_roundtrip [of "''x=1&''" "''&z=2''" "''name''" 10 "''a& b''"]
    by (simp add: clear_of_def sublist_Cons_right)
qed

text \<open>An occurrence inside a name is taken for the name when the text before it was skipped.\<close>

lemma getcgiparam_suffix_name: "getcgiparam 10 ''abab=5'' ''ab'' = Some ''5''"
  by (simp add: getcgiparam_def getcgiparam_adv_def param_loop.simps memstr_strstr char_at_def
      numeral_eq_Suc)

section \<open>Parameters of a multipart body\<close>

text \<open>The name of a part is looked for in its header with the blank line.\<close>

definition part_named :: "string \<Rightarrow> string \<times> bytes \<Rightarrow> bool" where
  "part_named param part = multipart_name_here (fst part @ [CR, LF, CR, LF]) (length (fst part) + 4) param"

lemma memstr_take:
  assumes "length p < 128" "n \<le> length s"
  shows "memstr (s @ t) p n = memstr s p n"
  using memstr_strstr [OF assms(1), of n "s @ t"] memstr_strstr [OF assms] assms(2) by simp

lemma multipart_name_local:
  assumes "param \<noteq> []" "LF \<notin> set param" "length param < 128"
  shows "multipart_name_here (hdr @ [CR, LF, CR, LF] @ t) (length hdr + 4) param = part_named param (hdr, val)"
proof -
  let ?h = "hdr @ [CR, LF, CR, LF]"
  have h: "length ?h = length hdr + 4" by simp
  have one: "memstr (?h @ t) ''name='' (length hdr + 4) = memstr ?h ''name='' (length hdr + 4)"
    by (rule memstr_take) simp_all
  show ?thesis
  proof (cases "memstr ?h ''name='' (length hdr + 4)")
    case None
    then show ?thesis using one by (simp add: multipart_name_here_def part_named_def)
  next
    case (Some i)
    then have "strstr ?h ''name='' = Some i" using memstr_strstr [of "''name=''" "length hdr + 4" ?h] by simp
    then have i: "i + 5 \<le> length hdr + 4" using strstr_iff [of ?h "''name=''" i] by simp
    let ?n = "length hdr + 4 - (i + 5)"
    have n: "?n \<le> length (drop (i + 5) ?h)" by simp
    have two: "memstr (drop (i + 5) (?h @ t)) param ?n = memstr (drop (i + 5) ?h) param ?n"
      using memstr_take [OF assms(3) n, of t] i h by (simp only: drop_append length_append) simp
    show ?thesis
    proof (cases "memstr (drop (i + 5) ?h) param ?n")
      case None
      then show ?thesis using one two Some by (simp add: multipart_name_here_def part_named_def)
    next
      case (Some j)
      let ?d = "drop (i + 5) ?h"
      have "strstr ?d param = Some j"
        using Some memstr_strstr [OF assms(3) n] h by (simp add: take_all)
      then have j: "j + length param \<le> length ?d" "prefix param (drop j ?d)"
        using strstr_iff [of ?d param j] by blast+
      have "j + length param \<noteq> length ?d"
      proof
        assume e: "j + length param = length ?d"
        obtain zs where zs: "drop j ?d = param @ zs" using j(2) by (rule prefixE)
        have "length (drop j ?d) = length param" using e unfolding length_drop by linarith
        then have "length zs = 0" unfolding zs length_append by linarith
        then have "drop j ?d = param" using zs by (simp only: length_0_conv append_Nil2)
        then have "last param = last ?h"
          using assms(1) by (metis drop_drop last_drop drop_eq_Nil linorder_not_less)
        then show False using assms(1,2) last_in_set [OF assms(1)] by simp
      qed
      then have "i + 5 + j + length param < length ?h" using j(1) i h by simp
      then have "char_at (?h @ t) (i + 5 + j + length param) = char_at ?h (i + 5 + j + length param)"
        by (simp only: char_at_def nth_append length_append if_True) simp
      then show ?thesis
        using one two Some \<open>memstr ?h _ _ = Some i\<close>
        by (simp add: multipart_name_here_def part_named_def)
    qed
  qed
qed

lemma multipart_loop_skip:
  assumes "b \<noteq> []" "length b < 128" "clear_of b s" "clear_of [CR, LF, CR, LF] hdr"
    and "param \<noteq> []" "LF \<notin> set param" "length param < 128"
  shows "multipart_loop maxlen b param (s @ b @ hdr @ [CR, LF, CR, LF] @ body) =
    (if part_named param (hdr, val) then
       (case memstr body b (length body) of
          None \<Rightarrow> P_none
        | Some p \<Rightarrow> if p < 2 then P_crash else if p - 2 < maxlen then P_val (take (p - 2) body) else P_none)
     else multipart_loop maxlen b param body)"
proof -
  define t where t: "t = hdr @ [CR, LF, CR, LF] @ body"
  have "memstr (s @ b @ t) b (length (s @ b @ t)) = Some (length s)"
    by (rule memstr_clear [OF assms(3,1,2)])
  moreover have "memstr t [CR, LF, CR, LF] (length t) = Some (length hdr)"
    unfolding t by (rule memstr_clear [OF assms(4)]) simp_all
  moreover have "multipart_name_here t (length hdr + 4) param = part_named param (hdr, val)"
    unfolding t by (rule multipart_name_local [OF assms(5-7)])
  moreover have "drop (length s + length b) (s @ b @ t) = t" "drop (length hdr + 4) t = body"
    by (simp_all add: t)
  ultimately show ?thesis
    unfolding t [symmetric] using assms(1) by (subst multipart_loop.simps) (simp add: Let_def split: option.split)
qed

lemma multipart_loop_parts:
  assumes "b \<noteq> []" "length b < 128" "clear_of b s" "list_all (part_ok b) (pre @ (hdr, val) # post)"
    and "param \<noteq> []" "LF \<notin> set param" "length param < 128"
    and "\<forall>p \<in> set pre. \<not> part_named param p" "part_named param (hdr, val)" "length val < maxlen"
  shows "multipart_loop maxlen b param (s @ multipart_text b (pre @ (hdr, val) # post) rest) = P_val val"
  using assms(3,4,8)
proof (induction pre arbitrary: s)
  case Nil
  let ?rest = "multipart_text b post rest"
  obtain t where t: "?rest = b @ t" using multipart_text_boundary by blast
  have "memstr (val @ [CR, LF] @ ?rest) b (length (val @ [CR, LF] @ ?rest)) = Some (length val + 2)"
    using memstr_clear [of b "val @ [CR, LF]" t] Nil(2) assms(1,2) t by (simp add: part_ok_def)
  moreover have "clear_of [CR, LF, CR, LF] hdr" using Nil(2) by (simp add: part_ok_def)
  ultimately show ?case
    using multipart_loop_skip [OF assms(1,2) Nil(1) _ assms(5-7), of hdr maxlen "val @ [CR, LF] @ ?rest" val]
      assms(9,10) by (simp del: append_Cons append_Nil) simp
next
  case (Cons part pre)
  obtain h v where part: "part = (h, v)" by fastforce
  let ?body = "v @ [CR, LF] @ multipart_text b (pre @ (hdr, val) # post) rest"
  have ok: "clear_of [CR, LF, CR, LF] h" "clear_of b (v @ [CR, LF])"
    "list_all (part_ok b) (pre @ (hdr, val) # post)" "\<forall>p \<in> set pre. \<not> part_named param p"
    "\<not> part_named param (h, v)"
    using Cons.prems(2,3) by (simp_all add: part part_ok_def [of _ "(_, _)"])
  have "multipart_loop maxlen b param ?body = P_val val"
    using Cons.IH [OF ok(2,3,4)] by simp
  then show ?case
    using multipart_loop_skip [OF assms(1,2) Cons.prems(1) ok(1) assms(5-7), of maxlen ?body v] ok(5)
    by (simp add: part)
qed

text \<open>C25: A value posted in a multipart body is read back byte for byte (line breaks and zero bytes
  included) from the first part that has the name; a part whose value is followed by the boundary
  without a line break makes the server copy a negative number of bytes.\<close>

theorem multipart_roundtrip:
  assumes "b \<noteq> []" "length b < 128" "list_all (part_ok b) (pre @ (hdr, val) # post)"
    and "param \<noteq> []" "LF \<notin> set param" "length param < 128"
    and "\<forall>p \<in> set pre. \<not> part_named param p" "part_named param (hdr, val)" "length val < maxlen"
  shows "multipart_loop maxlen b param (multipart_text b (pre @ (hdr, val) # post) rest) = P_val val \<and>
    multipart_loop maxlen b param (b @ hdr @ [CR, LF, CR, LF] @ b @ rest) = P_crash"
proof
  note empty = clear_of_Nil [OF assms(1)]
  show "multipart_loop maxlen b param (multipart_text b (pre @ (hdr, val) # post) rest) = P_val val"
    using multipart_loop_parts [OF assms(1,2) empty assms(3-9)] by simp
  have "clear_of [CR, LF, CR, LF] hdr" using assms(3) by (simp add: part_ok_def)
  moreover have "memstr (b @ rest) b (length (b @ rest)) = Some 0"
    using memstr_clear [OF empty assms(1,2), of rest] by simp
  ultimately show "multipart_loop maxlen b param (b @ hdr @ [CR, LF, CR, LF] @ b @ rest) = P_crash"
    using multipart_loop_skip [OF assms(1,2) empty _ assms(4-6), of hdr maxlen "b @ rest" val] assms(8)
    by simp
qed

theorem multipart_roundtrip_witness:
  "multipart_loop 100 ''--xyz'' ''cmd''
     (multipart_text ''--xyz'' [(''; name='' @ [QUOTE] @ ''cmd'' @ [QUOTE], [CHR ''a'', NUL, LF])] ''--'') =
   P_val [CHR ''a'', NUL, LF]"
proof -
  let ?h = "''; name='' @ [QUOTE] @ ''cmd'' @ [QUOTE]"
  have "part_named ''cmd'' (?h, [CHR ''a'', NUL, LF])"
    by (simp add: part_named_def multipart_name_here_def memstr_strstr char_at_def)
  then show ?thesis
    using multipart_roundtrip [of "''--xyz''" "[]" ?h "[CHR ''a'', NUL, LF]" "[]" "''cmd''" 100 "''--''"]
    by (simp add: part_ok_def clear_of_def sublist_Cons_right)
qed

section \<open>Shell characters\<close>

text \<open>The characters of a text that a shell does not see quoted by a backslash.\<close>

fun shell_active :: "string \<Rightarrow> string" where
  "shell_active [] = []"
| "shell_active [c] = (if c = BACKSLASH then [] else [c])"
| "shell_active (c # d # s) = (if c = BACKSLASH then shell_active s else c # shell_active (d # s))"

lemma shell_active_Cons: "c \<noteq> BACKSLASH \<Longrightarrow> shell_active (c # s) = c # shell_active s"
  by (cases s) simp_all

text \<open>Behind a text without backslashes the shell goes on outside of any quoting.\<close>

lemma addEscape_active:
  "BACKSLASH \<notin> set s \<Longrightarrow> shell_active (addEscapeStr s @ t) = filter (\<lambda>c. c \<notin> set specialchar) s @ shell_active t"
  by (induction s) (auto simp: shell_active_Cons)

lemma addEscape_append: "addEscapeStr (s @ t) = addEscapeStr s @ addEscapeStr t"
  by (induction s) simp_all

lemma addEscape_undone:
  assumes "BACKSLASH \<notin> set s" "c \<in> set specialchar"
  shows "shell_active (addEscapeStr (s @ BACKSLASH # c # t)) =
    filter (\<lambda>c. c \<notin> set specialchar) s @ c # shell_active (addEscapeStr t)"
proof -
  have "BACKSLASH \<notin> set specialchar" by (simp add: specialchar_def)
  moreover from this have "c \<noteq> BACKSLASH" using assms(2) by auto
  ultimately have "shell_active (addEscapeStr (BACKSLASH # c # t)) = c # shell_active (addEscapeStr t)"
    using assms(2) by (simp add: shell_active_Cons)
  then show ?thesis using addEscape_active [OF assms(1)] by (simp add: addEscape_append)
qed

text \<open>C26: In a value without backslashes no quote of either kind, ampersand, angle bracket, semicolon,
  parenthesis, brace or dollar sign stays active for a shell, and the other characters (the pipe, the
  backquote and the line feed among them) are not touched; the backslash itself is not escaped, so
  behind a backslash each of the special characters is active again.\<close>

theorem addEscapeStr_quotes:
  assumes "BACKSLASH \<notin> set s"
  shows "shell_active (addEscapeStr s) =
      filter (\<lambda>c. c \<notin> {CHR 0x27, CHR 0x22, CHR ''&'', CHR ''>'', CHR ''<'', CHR '';'', CHR ''('', CHR '')'', CHR ''{'', CHR ''}'', CHR ''$''}) s \<and>
    (\<forall>c t. c \<in> {CHR 0x27, CHR 0x22, CHR ''&'', CHR ''>'', CHR ''<'', CHR '';'', CHR ''('', CHR '')'', CHR ''{'', CHR ''}'', CHR ''$''} \<longrightarrow>
      c \<in> set (shell_active (addEscapeStr (s @ BACKSLASH # c # t))))"
proof -
  have e: "set specialchar =
      {CHR 0x27, CHR 0x22, CHR ''&'', CHR ''>'', CHR ''<'', CHR '';'', CHR ''('', CHR '')'', CHR ''{'', CHR ''}'', CHR ''$''}"
    by (simp add: specialchar_def)
  have "c \<in> set (shell_active (addEscapeStr (s @ BACKSLASH # c # t)))" if "c \<in> set specialchar" for c t
    using addEscape_undone [OF assms that] by simp
  then show ?thesis using addEscape_active [OF assms, of "[]"] unfolding e by simp
qed

theorem addEscapeStr_quotes_witness:
  "shell_active (addEscapeStr (CHR 0x27 # CHR 0x22 # ''a;(b)|'')) = ''ab|'' \<and>
   CHR 0x22 \<in> set (shell_active (addEscapeStr (''a'' @ BACKSLASH # CHR 0x22 # ''b'')))"
  using addEscapeStr_quotes [of "CHR 0x27 # CHR 0x22 # ''a;(b)|''"] addEscapeStr_quotes [of "''a''"] by simp

end
