(* ===== verification/Stdio.thy ===== *)
theory Stdio
  imports Main
begin

text \<open>
  The descriptors of a CGI program: the part of \<open>init_cgi\<close> (\<open>src/src/cgi.c\<close>) that the child process
  runs to tie its standard input, output and error.  A descriptor table is a list of optional open
  files; \<open>dup\<close> takes the lowest free number, as POSIX has it.
\<close>

type_synonym 'f fdtab = "'f option list"

definition fd_get :: "int \<Rightarrow> 'f fdtab \<Rightarrow> 'f option" where
  "fd_get fd t = (if 0 \<le> fd \<and> nat fd < length t then t ! nat fd else None)"

definition fd_put :: "int \<Rightarrow> 'f option \<Rightarrow> 'f fdtab \<Rightarrow> 'f fdtab" where
  "fd_put fd f t = (t @ replicate (Suc (nat fd) - length t) None) [nat fd := f]"

definition sys_dup :: "int \<Rightarrow> 'f fdtab \<Rightarrow> int \<times> 'f fdtab" where
  "sys_dup fd t =
    (if fd_get fd t = None then (-1, t)
     else let n = int (length (takeWhile (\<lambda>x. x \<noteq> None) t)) in (n, fd_put n (fd_get fd t) t))"

definition sys_dup2 :: "int \<Rightarrow> int \<Rightarrow> 'f fdtab \<Rightarrow> 'f fdtab" where
  "sys_dup2 old new t = (if fd_get old t = None then t else fd_put new (fd_get old t) t)"

definition sys_close :: "int \<Rightarrow> 'f fdtab \<Rightarrow> 'f fdtab" where
  "sys_close fd t = (if fd_get fd t = None then t else fd_put fd None t)"

text \<open>Moving a descriptor out of the way when it has the number that is needed.\<close>

definition evade :: "int \<Rightarrow> int \<Rightarrow> 'f fdtab \<Rightarrow> int \<times> 'f fdtab" where
  "evade fd n t = (if fd = n then sys_dup fd t else (fd, t))"

definition move_to :: "int \<Rightarrow> int \<Rightarrow> 'f fdtab \<Rightarrow> 'f fdtab" where
  "move_to fd n t = sys_close fd (sys_dup2 fd n t)"

definition stdio_in :: "int \<Rightarrow> int \<Rightarrow> int \<Rightarrow> 'f fdtab \<Rightarrow> int \<times> int \<times> 'f fdtab" where
  "stdio_in newstdin newstdout newstderr t =
    (if newstdin \<ge> 0 \<and> newstdin \<noteq> 0 then
       let (newstdout, t) = evade newstdout 0 t; (newstderr, t) = evade newstderr 0 t
       in (newstdout, newstderr, move_to newstdin 0 t)
     else (newstdout, newstderr, t))"

definition stdio_out :: "int \<Rightarrow> int \<Rightarrow> 'f fdtab \<Rightarrow> int \<times> 'f fdtab" where
  "stdio_out newstdout newstderr t =
    (if newstdout \<ge> 0 \<and> newstdout \<noteq> 1 then
       let (newstderr, t) = evade newstderr 1 t in (newstderr, move_to newstdout 1 t)
     else (newstderr, t))"

definition setup_stdio :: "int \<Rightarrow> int \<Rightarrow> int \<Rightarrow> 'f fdtab \<Rightarrow> 'f fdtab" where
  "setup_stdio newstdin newstdout newstderr t =
    (let (newstdout, newstderr, t) = stdio_in newstdin newstdout newstderr t;
         (newstderr, t) = stdio_out newstdout newstderr t
     in if newstderr \<ge> 0 \<and> newstderr \<noteq> 2 then move_to newstderr 2 t else t)"

section \<open>The table\<close>

lemma fd_get_put: "0 \<le> fd \<Longrightarrow> fd_get n (fd_put fd f t) = (if n = fd then f else fd_get n t)"
  by (auto simp: fd_get_def fd_put_def nth_append nth_list_update nat_eq_iff2)

lemma fd_get_neg: "fd_get n t = Some f \<Longrightarrow> 0 \<le> n"
  by (auto simp: fd_get_def split: if_splits)

lemma sys_dup_free:
  assumes "fd_get fd t = Some f" "sys_dup fd t = (n, t')"
  shows "0 \<le> n" "fd_get n t = None" "fd_get m t' = (if m = n then Some f else fd_get m t)"
proof -
  let ?n = "int (length (takeWhile (\<lambda>x. x \<noteq> None) t))"
  have n: "n = ?n" "t' = fd_put ?n (Some f) t" using assms by (auto simp: sys_dup_def Let_def)
  have "fd_get ?n t = None"
    using nth_length_takeWhile [of "\<lambda>x. x \<noteq> None" t] by (auto simp: fd_get_def)
  then show "0 \<le> n" "fd_get n t = None" "fd_get m t' = (if m = n then Some f else fd_get m t)"
    by (auto simp: n fd_get_put)
qed

lemma move_to_get:
  assumes "fd_get fd t = Some f" "0 \<le> n" "fd \<noteq> n"
  shows "fd_get m (move_to fd n t) = (if m = n then Some f else if m = fd then None else fd_get m t)"
  using assms fd_get_neg [OF assms(1)] by (auto simp: move_to_def sys_close_def sys_dup2_def fd_get_put)

text \<open>After evading, the descriptor has another number and every other one is as before.\<close>

lemma evade_get:
  assumes "fd_get fd t = Some f" "evade fd n t = (fd', t')"
  shows "fd_get fd' t' = Some f" "fd' \<noteq> n" "m \<noteq> fd' \<Longrightarrow> fd_get m t' = fd_get m t"
    "fd_get k t = Some h \<Longrightarrow> k \<noteq> fd \<Longrightarrow> k \<noteq> fd' \<and> fd_get k t' = Some h"
proof -
  show "fd_get fd' t' = Some f" "fd' \<noteq> n" "m \<noteq> fd' \<Longrightarrow> fd_get m t' = fd_get m t"
    "fd_get k t = Some h \<Longrightarrow> k \<noteq> fd \<Longrightarrow> k \<noteq> fd' \<and> fd_get k t' = Some h"
    using assms sys_dup_free [OF assms(1), of fd' t'] by (auto simp: evade_def split: if_splits)
qed

lemma stdio_in_ties:
  assumes "fd_get i t = Some fi" "fd_get ou t = Some fo" "fd_get er t = Some fe"
    and "i \<noteq> ou" "i \<noteq> er" "ou \<noteq> er"
  shows "\<exists>ou1 er1 t1. stdio_in i ou er t = (ou1, er1, t1) \<and> fd_get 0 t1 = Some fi \<and> fd_get ou1 t1 = Some fo \<and>
    fd_get er1 t1 = Some fe \<and> ou1 \<noteq> er1 \<and> ou1 \<noteq> 0 \<and> er1 \<noteq> 0"
proof (cases "i = 0")
  case True
  then show ?thesis using assms by (auto simp: stdio_in_def)
next
  case False
  obtain ou1 ta where a: "evade ou 0 t = (ou1, ta)" by fastforce
  note ea = evade_get [OF assms(2) a]
  have er: "er \<noteq> ou1" "fd_get er ta = Some fe" and i: "i \<noteq> ou1" "fd_get i ta = Some fi"
    using ea(4) [OF assms(3)] ea(4) [OF assms(1)] assms(4,6) by auto
  obtain er1 tb where b: "evade er 0 ta = (er1, tb)" by fastforce
  note eb = evade_get [OF er(2) b]
  have ou1: "ou1 \<noteq> er1" "fd_get ou1 tb = Some fo" and i': "i \<noteq> er1" "fd_get i tb = Some fi"
    using eb(4) [OF ea(1)] eb(4) [OF i(2)] er(1) assms(5) by auto
  have "\<And>m. fd_get m (move_to i 0 tb) = (if m = 0 then Some fi else if m = i then None else fd_get m tb)"
    by (rule move_to_get [OF i'(2)]) (use False in auto)
  then show ?thesis
    using False a b fd_get_neg [OF assms(1)] ou1 eb ea(2) i i' by (auto simp: stdio_in_def)
qed

lemma stdio_out_ties:
  assumes "fd_get 0 t = Some fi" "fd_get ou t = Some fo" "fd_get er t = Some fe"
    and "ou \<noteq> er" "ou \<noteq> 0" "er \<noteq> 0"
  shows "\<exists>er2 t2. stdio_out ou er t = (er2, t2) \<and> fd_get 0 t2 = Some fi \<and> fd_get 1 t2 = Some fo \<and>
    fd_get er2 t2 = Some fe \<and> er2 \<noteq> 0 \<and> er2 \<noteq> 1"
proof (cases "ou = 1")
  case True
  then show ?thesis using assms by (auto simp: stdio_out_def)
next
  case False
  obtain er2 ta where a: "evade er 1 t = (er2, ta)" by fastforce
  note ea = evade_get [OF assms(3) a]
  have ou: "ou \<noteq> er2" "fd_get ou ta = Some fo" and z: "0 \<noteq> er2" "fd_get 0 ta = Some fi"
    using ea(4) [OF assms(2)] ea(4) [OF assms(1)] assms(4,6) by auto
  have "\<And>m. fd_get m (move_to ou 1 ta) = (if m = 1 then Some fo else if m = ou then None else fd_get m ta)"
    by (rule move_to_get [OF ou(2)]) (use False in auto)
  then show ?thesis using False a fd_get_neg [OF assms(2)] ou z ea assms(5) by (auto simp: stdio_out_def)
qed

text \<open>C31: Whatever numbers the three files of a CGI program have, the setting up leaves its input at
  descriptor 0, its output at 1 and its errors at 2: no file is lost on the way.\<close>

theorem setup_stdio_ties:
  assumes "fd_get i t = Some fi" "fd_get ou t = Some fo" "fd_get er t = Some fe"
    and "i \<noteq> ou" "i \<noteq> er" "ou \<noteq> er"
  shows "fd_get 0 (setup_stdio i ou er t) = Some fi \<and> fd_get 1 (setup_stdio i ou er t) = Some fo \<and>
    fd_get 2 (setup_stdio i ou er t) = Some fe"
proof -
  obtain ou1 er1 t1 where 1: "stdio_in i ou er t = (ou1, er1, t1)" "fd_get 0 t1 = Some fi"
    "fd_get ou1 t1 = Some fo" "fd_get er1 t1 = Some fe" "ou1 \<noteq> er1" "ou1 \<noteq> 0" "er1 \<noteq> 0"
    using stdio_in_ties [OF assms] by blast
  obtain er2 t2 where 2: "stdio_out ou1 er1 t1 = (er2, t2)" "fd_get 0 t2 = Some fi" "fd_get 1 t2 = Some fo"
    "fd_get er2 t2 = Some fe" "er2 \<noteq> 0" "er2 \<noteq> 1"
    using stdio_out_ties [OF 1(2-7)] by blast
  show ?thesis
    using 1(1) 2 fd_get_neg [OF 2(4)] move_to_get [OF 2(4), of 2] by (auto simp: setup_stdio_def)
qed

theorem setup_stdio_ties_witness:
  "fd_get 1 (setup_stdio 1 2 0 [Some ''log'', Some ''post'', Some ''sock'']) = Some ''sock''"
  using setup_stdio_ties [of 1 "[Some ''log'', Some ''post'', Some ''sock'']" "''post''" 2 "''sock''" 0 "''log''"]
  by (simp add: fd_get_def)

end
