(* ===== verification/Login.thy ===== *)
theory Login
  imports Response
begin

text \<open>
  Who is logged in (\<open>src/src/boa.c\<close>): the list \<open>user_login_list\<close>, in which a client is found by its
  address and the session it shows in its cookie, and the list \<open>errlogin_list\<close> of failed logins.  An
  entry is named by its place in the list.  \<open>None\<close> stands for undefined behaviour: an identifier that
  overflows its array of 32 bytes, or a loop that goes on from an entry it has freed.
\<close>

section \<open>Sessions\<close>

text \<open>The identifier of the cookie in an array of 32 bytes: nothing, an identifier, or an overflow.\<close>

definition session_id :: "request \<Rightarrow> string option option" where
  "session_id req =
    (case get_sessionid_from_cookie req of
       None \<Rightarrow> Some None
     | Some sid \<Rightarrow> if length sid < 32 then Some (Some sid) else None)"

fun find_index :: "('a \<Rightarrow> bool) \<Rightarrow> 'a list \<Rightarrow> nat option" where
  "find_index P [] = None"
| "find_index P (x # xs) = (if P x then Some 0 else map_option Suc (find_index P xs))"

definition search_login_list :: "request \<Rightarrow> globals \<Rightarrow> nat option option" where
  "search_login_list req g =
    (if r_cookie req = None
     then Some (find_index (\<lambda>u. r_remote_ip_addr req = u_remote_ip_addr u) (user_login_list g))
     else case session_id req of
            None \<Rightarrow> None
          | Some None \<Rightarrow> Some None
          | Some (Some sid) \<Rightarrow>
              Some (find_index (\<lambda>u. r_remote_ip_addr req = u_remote_ip_addr u \<and>
                      (u_session_id u = [] \<or> sid = u_session_id u)) (user_login_list g)))"

definition getNumLoginUserInfo :: "globals \<Rightarrow> nat" where
  "getNumLoginUserInfo g = length (user_login_list g)"

section \<open>Removing entries\<close>

definition remove_nth :: "nat \<Rightarrow> 'a list \<Rightarrow> 'a list" where
  "remove_nth i xs = take i xs @ drop (Suc i) xs"

definition ulist_free_login_entry :: "nat \<Rightarrow> globals \<Rightarrow> globals" where
  "ulist_free_login_entry i g = g \<lparr> user_login_list := remove_nth i (user_login_list g) \<rparr>"

definition free_from_login_list :: "request \<Rightarrow> globals \<Rightarrow> (int \<times> globals) option" where
  "free_from_login_list req g =
    (case session_id req of
       None \<Rightarrow> None
     | Some None \<Rightarrow> Some (1, g)
     | Some (Some sessid) \<Rightarrow>
         (case find_index (\<lambda>u. u_session_id u = sessid) (user_login_list g) of
            None \<Rightarrow> Some (0, g)
          | Some i \<Rightarrow> Some (1, ulist_free_login_entry i g)))"

text \<open>These two loops do not stop at the entry they free: they read its \<open>next\<close> afterwards.\<close>

definition free_from_login_list_by_ip :: "request \<Rightarrow> globals \<Rightarrow> (int \<times> globals) option" where
  "free_from_login_list_by_ip req g =
    (if \<exists>u \<in> set (user_login_list g). r_remote_ip_addr req = u_remote_ip_addr u then None else Some (1, g))"

definition free_login_list :: "globals \<Rightarrow> globals option" where
  "free_login_list g = (if user_login_list g \<noteq> [] then None else Some g)"

section \<open>Failed logins\<close>

definition search_errlog_list :: "request \<Rightarrow> globals \<Rightarrow> nat option" where
  "search_errlog_list req g =
    find_index (\<lambda>e. el_remote_ip_addr e = r_remote_ip_addr req) (errlogin_list g)"

definition ulist_free_errlog_entry :: "nat \<Rightarrow> globals \<Rightarrow> globals" where
  "ulist_free_errlog_entry i g = g \<lparr> errlogin_list := remove_nth i (errlogin_list g) \<rparr>"

definition free_from_errlog_list :: "request \<Rightarrow> globals \<Rightarrow> int \<times> globals" where
  "free_from_errlog_list req g =
    (case search_errlog_list req g of
       None \<Rightarrow> (0, g)
     | Some i \<Rightarrow> (1, ulist_free_errlog_entry i g))"

section \<open>The search\<close>

lemma find_index_Some:
  "find_index P xs = Some i \<longleftrightarrow> i < length xs \<and> P (xs ! i) \<and> (\<forall>j < i. \<not> P (xs ! j))"
proof (induction xs arbitrary: i)
  case (Cons x xs)
  then show ?case by (cases i) (auto simp: All_less_Suc2)
qed simp

lemma find_index_None: "find_index P xs = None \<longleftrightarrow> (\<forall>x \<in> set xs. \<not> P x)"
  by (induction xs) auto

section \<open>From the cookie that is sent to the cookie that is shown\<close>

lemma digits_no_semicolon: "CHR '';'' \<notin> set (show_int n)"
  using digs_digits [of "nat n"] digs_digits [of "nat (- n)"]
  by (auto simp: show_int_def is_digit_def uchar_def)

lemma strstr_sessionid: "strstr (''sessionid='' @ s) ''sessionid='' = Some 0"
  by simp

lemma session_id_cookie:
  assumes "r_cookie req = Some (''sessionid='' @ sid)" "CHR '';'' \<notin> set sid" "sid \<noteq> []" "length sid < 32"
  shows "session_id req = Some (Some sid)"
proof -
  have "takeWhile (\<lambda>c. c \<noteq> CHR '';'') sid = sid" using assms(2) by (auto simp: takeWhile_eq_all_conv)
  note sid = this
  show ?thesis
    using assms(3,4) by (simp add: session_id_def get_sessionid_from_cookie_def Let_def assms(1) sid)
qed

lemma update_first_index:
  "find_index P xs = Some i \<Longrightarrow> update_first P f xs = xs [i := f (xs ! i)]"
  by (induction xs arbitrary: i) (auto split: if_splits)

lemma print_set_cookie_new:
  assumes "get_sessionid_from_cookie req = None" "n = generateRandomNumber env (e_time_counter env)"
    and "length (show_int n) < 32"
  shows "print_set_cookie env (req, g) =
    (wrs [''Set-Cookie: '', ''sessionid='' @ show_int n @ ''; Path=/; '', [CR, LF]] req,
     g \<lparr> user_login_list := update_first (\<lambda>u. u_remote_ip_addr u = r_remote_ip_addr req)
           (\<lambda>u. u \<lparr> u_session_id := show_int n \<rparr>) (user_login_list g) \<rparr>)"
proof -
  have w: "get_sessionid_from_cookie (wr ''Set-Cookie: '' req) = None"
    "r_remote_ip_addr (wr ''Set-Cookie: '' req) = r_remote_ip_addr req"
    using assms(1) by (simp_all add: wr_def req_write_def get_sessionid_from_cookie_def)
  have t: "takeWhile (\<lambda>c. c \<noteq> CHR '';'') (show_int n @ CHR '';'' # s) = show_int n" for s
  proof -
    have "\<forall>c\<in>set (show_int n). c \<noteq> CHR '';''" using digits_no_semicolon [of n] by auto
    then show ?thesis by (simp add: takeWhile_append2)
  qed
  have b: "take 63 (''sessionid='' @ show_int n @ ''; Path=/; '') = ''sessionid='' @ show_int n @ ''; Path=/; ''"
    using assms(3) by simp
  show ?thesis
    unfolding print_set_cookie_def Let_def prod.case w assms(2) [symmetric] option.case b
    using t [of "'' Path=/; ''"] assms(3) by (simp add: wrs_def lit_char_def)
qed

text \<open>C36: The session that a client is given with its first answer is the session it is found by: when
  the client of a listed address shows no session, it is sent a fresh one in \<open>Set-Cookie\<close>, and a
  request from the address that shows this cookie finds the entry, while one that shows another
  session does not.\<close>

theorem session_roundtrip:
  assumes "get_sessionid_from_cookie req = None" "n = generateRandomNumber env (e_time_counter env)"
    and "length (show_int n) < 32"
    and "find_index (\<lambda>u. u_remote_ip_addr u = r_remote_ip_addr req) (user_login_list g) = Some i"
    and "print_set_cookie env (req, g) = (req', g')"
    and "r_remote_ip_addr req2 = r_remote_ip_addr req" "r_cookie req2 = Some (''sessionid='' @ sid)"
    and "CHR '';'' \<notin> set sid" "sid \<noteq> []" "length sid < 32"
  shows "req' = wrs [''Set-Cookie: '', ''sessionid='' @ show_int n @ ''; Path=/; '', [CR, LF]] req \<and>
    (if sid = show_int n then search_login_list req2 g' = Some (Some i)
     else search_login_list req2 g' \<noteq> Some (Some i))"
proof -
  note p = print_set_cookie_new [OF assms(1-3), of g]
  define us where "us = user_login_list g"
  define us' where "us' = us [i := (us ! i) \<lparr> u_session_id := show_int n \<rparr>]"
  have i: "i < length us" "u_remote_ip_addr (us ! i) = r_remote_ip_addr req"
    "\<forall>j < i. u_remote_ip_addr (us ! j) \<noteq> r_remote_ip_addr req"
    using assms(4) by (auto simp: find_index_Some us_def)
  have g': "user_login_list g' = us'"
    using p assms(5) update_first_index [OF assms(4)] by (auto simp: us'_def us_def)
  have n: "show_int n \<noteq> []" by (simp add: show_int_def)
  have s: "search_login_list req2 g' = Some (find_index (\<lambda>u. r_remote_ip_addr req2 = u_remote_ip_addr u \<and>
      (u_session_id u = [] \<or> sid = u_session_id u)) us')"
    using session_id_cookie [OF assms(7-10)] assms(7) by (simp add: search_login_list_def g')
  show ?thesis
  proof (cases "sid = show_int n")
    case True
    then have "search_login_list req2 g' = Some (Some i)"
      using s i assms(6) by (auto simp: find_index_Some us'_def)
    then show ?thesis using True p assms(5) by simp
  next
    case False
    then have "search_login_list req2 g' \<noteq> Some (Some i)"
      using s i n by (auto simp: find_index_Some us'_def)
    then show ?thesis using False p assms(5) by simp
  qed
qed

definition sample_user :: user_info where
  "sample_user = \<lparr> u_priv = 0, u_directory = ''index.html'', u_last_time = 0, u_remote_ip_addr = ''10.0.0.2'',
     u_logouttime = 0, u_session_id = [] \<rparr>"

theorem session_roundtrip_witness:
  "search_login_list (blank_request \<lparr> r_remote_ip_addr := ''10.0.0.2'', r_cookie := Some ''sessionid=123456789'' \<rparr>)
    (snd (print_set_cookie sample_env (blank_request \<lparr> r_remote_ip_addr := ''10.0.0.2'' \<rparr>,
      globals_init \<lparr> user_login_list := [sample_user] \<rparr>))) = Some (Some 0)"
proof -
  let ?r = "blank_request \<lparr> r_remote_ip_addr := ''10.0.0.2'' \<rparr>"
  let ?g = "globals_init \<lparr> user_login_list := [sample_user] \<rparr>"
  let ?r2 = "?r \<lparr> r_cookie := Some ''sessionid=123456789'' \<rparr>"
  have n: "123456789 = generateRandomNumber sample_env (e_time_counter sample_env)"
    by (simp add: generateRandomNumber_def sample_env_def upt_rec)
  have t: "show_int 123456789 = ''123456789''" by (simp add: show_int_def digs.simps char_eval)
  obtain r' g' where p: "print_set_cookie sample_env (?r, ?g) = (r', g')" by fastforce
  have "search_login_list ?r2 g' = Some (Some 0)"
    using session_roundtrip [OF _ n _ _ p, of 0 ?r2 "show_int 123456789", unfolded t]
    by (simp add: get_sessionid_from_cookie_def blank_request_def sample_user_def)
  then show ?thesis by (simp add: p)
qed

end
