(* ===== verification/Auth.thy ===== *)
theory Auth
  imports Login Boawrite
begin

text \<open>
  The protected directories and who may enter them (\<open>src/src/auth.c\<close>).  The password files are not
  read: with \<open>USE_LOGINWEB_OF_SERVER\<close> a client is authorised by its entry in the list of logged in
  users.  A directory of the table stands for its \<open>auth_dir\<close> record.
\<close>

definition AUTH_HASHTABLE_SIZE :: nat where "AUTH_HASHTABLE_SIZE = 47"
definition MAX_LOGIN_NUM :: int where "MAX_LOGIN_NUM = 3"
definition LOGIN_ERR_WAIT_TIME :: int where "LOGIN_ERR_WAIT_TIME = 60"

section \<open>The table\<close>

text \<open>The first character is added as \<open>char\<close>, the rest of the first component as \<open>unsigned char\<close>.\<close>

definition get_auth_hash_value :: "string \<Rightarrow> nat" where
  "get_auth_hash_value dir =
    unat (word_of_int (schar (char_at dir 0)) +
          sum_list (map (\<lambda>c. of_nat (uchar c)) (takeWhile (\<lambda>c. c \<noteq> CHR ''/'') (tl dir))) :: 32 word)
      mod AUTH_HASHTABLE_SIZE"

definition auth_add :: "string \<Rightarrow> tables \<Rightarrow> tables" where
  "auth_add directory t =
    (let hash = get_auth_hash_value directory in
     if directory \<in> set (auth_hashtable t hash) then t
     else t \<lparr> auth_hashtable := (auth_hashtable t) (hash := directory # auth_hashtable t hash) \<rparr>)"

section \<open>Authorisation\<close>

definition is_except_page :: "request \<Rightarrow> bool" where
  "is_except_page req \<longleftrightarrow>
    \<not> strneq 2 (r_request_uri req) ''./'' \<and> length (r_request_uri req) = 1 \<and> r_referer req \<noteq> None"

definition login_pages :: "string list" where
  "login_pages =
    [''/admin/login.asp'', ''/admin/code.asp'', ''/admin/md5.js'', ''/admin/rollups/md5.js'',
     ''/admin/php-crypt-md5.js'', ''/common.js'', ''/base64_code.js'', ''/sha256_code.js'',
     ''/admin/code_user.asp'', ''/boaform/admin/userLogin'', ''/boaform/admin/userLoginMultilang'',
     ''/admin/LoginFiles/logo.jpg'', ''/admin/LoginFiles/locker.gif'', ''/favicon.ico'']"

definition auth_login_page :: "string list" where
  "auth_login_page =
    [lit ''HTTP/1.0 302 Moved Temporarily~'',
     lit ''Content-Type: text/html; charset=UTF-8~'',
     lit ''Set-Cookie: sessionid=0;  Max-Age=0; Path=/; ~'',
     lit ''~'',
     lit ''<html><head>~'' @
     lit ''<style>#cntdwn{ border-color: white;border-width: 0px;font-size: 12pt;color: red;text-align:center; font-weight:bold; font-family: Courier;}~'' @
     lit ''body { background-repeat: no-repeat; background-attachment: fixed;'' @ [CHR 0x09] @
     lit '' background-position: center;'' @ [CHR 0x09] @ lit ''text-align:left;}~'' @
     lit ''div.msg { font-size: 20px; top: 100px; width: 470px; text-align:center;}~'' @
     lit ''#progress-boader{ border: 2px #ccc solid;border-radius: 10px;height: 25; top: 10px; width :420px; text-align:center ;left: 30px}~'' @
     lit ''</style>~'' @
     lit ''<script language=javascript>~'' @
     lit ''window.open(^/admin/login.asp^,target=^_top^); ~'' @
     lit ''</script></head>~'' @
     lit ''<body>'']"

definition login_redirect :: "env \<Rightarrow> st \<Rightarrow> st" where
  "login_redirect env st =
    (let (req, g) = st; req = req \<lparr> r_buffer_end := 0, r_response_status := 301 \<rparr>
     in flush env (wr (lit ''</body></html>|'') (fold (\<lambda>m r. boaWrite r m) auth_login_page req), g))"

text \<open>A client that is not let in: too many failed logins, a page of the login itself, or the way to the
  login page.\<close>

definition locked_out :: "env \<Rightarrow> st \<Rightarrow> bool" where
  "locked_out env st =
    (case search_errlog_list (fst st) (snd st) of
       None \<Rightarrow> False
     | Some i \<Rightarrow>
         (let e = errlogin_list (snd st) ! i in
          el_login_count e smod MAX_LOGIN_NUM = 0 \<and> e_time_counter env - el_last_time e \<le> LOGIN_ERR_WAIT_TIME))"

definition auth_stranger :: "env \<Rightarrow> st \<Rightarrow> (int \<times> st) option" where
  "auth_stranger env st =
    (let (req, g) = st; uri = r_request_uri req in
     if locked_out env st then
       Some (0, if length uri > 1 \<and> last uri = CHR ''/'' then send_r_not_found env st else send_r_forbidden env st)
     else if uri \<in> set login_pages then Some (1, st)
     else
       let st = (req, g \<lparr> g_directory_index := None \<rparr>) in
       if uri \<noteq> ''/'' then
         let (req, g) = login_redirect env st in
         map_option (\<lambda>(_, g). (0, req, g)) (free_from_login_list_by_ip req g)
       else Some (0, boaRedirectTemp env ''/admin/login.asp'' st))"

definition auth_user :: "env \<Rightarrow> st \<Rightarrow> (int \<times> st) option" where
  "auth_user env st =
    (let (req, g) = st in
     case search_login_list req g of
       None \<Rightarrow> None
     | Some None \<Rightarrow> auth_stranger env st
     | Some (Some i) \<Rightarrow>
         if r_cookie req \<noteq> None \<or> is_except_page req then
           let u = user_login_list g ! i in
           Some (1, req, g \<lparr> g_directory_index := Some (u_directory u),
                            user_login_list := (user_login_list g) [i := u \<lparr> u_last_time := e_time_counter env \<rparr>] \<rparr>)
         else auth_stranger env st)"

text \<open>The chain of the address; a directory that covers only a part of a component ends the search.\<close>

definition auth_boundary :: "string \<Rightarrow> string \<Rightarrow> bool" where
  "auth_boundary directory uri \<longleftrightarrow>
    directory \<noteq> [] \<and> last directory = CHR ''/'' \<or> char_at uri (length directory) \<in> {CHR ''/'', NUL}"

fun auth_walk :: "string list \<Rightarrow> string \<Rightarrow> bool" where
  "auth_walk [] uri = False"
| "auth_walk (directory # current) uri =
    (if prefix directory uri then auth_boundary directory uri else auth_walk current uri)"

definition auth_authorize :: "env \<Rightarrow> st \<Rightarrow> (int \<times> st) option" where
  "auth_authorize env st =
    (let uri = r_request_uri (fst st) in
     if auth_walk (auth_hashtable (g_tab (snd st)) (get_auth_hash_value uri)) uri then auth_user env st
     else Some (1, st))"

section \<open>What is protected\<close>

definition is_protected :: "tables \<Rightarrow> string \<Rightarrow> bool" where
  "is_protected t uri \<longleftrightarrow> auth_walk (auth_hashtable t (get_auth_hash_value uri)) uri"

text \<open>A directory and the addresses in it.  (The root itself is apart: everything starts with it.)\<close>

definition covers :: "string \<Rightarrow> string \<Rightarrow> bool" where
  "covers d uri \<longleftrightarrow> uri = d \<or> (\<exists>rest. uri = d @ CHR ''/'' # rest) \<or>
     (CHR ''/'' \<in> set (tl d) \<and> last d = CHR ''/'' \<and> prefix d uri)"

lemma takeWhile_stop: "\<not> P x \<Longrightarrow> takeWhile P (xs @ x # ys) = takeWhile P xs"
  by (induction xs) auto

lemma takeWhile_stop_in: "x \<in> set xs \<Longrightarrow> \<not> P x \<Longrightarrow> takeWhile P (xs @ ys) = takeWhile P xs"
  by (induction xs) auto

lemma covers_hash:
  assumes "covers d uri" "d \<noteq> []"
  shows "get_auth_hash_value uri = get_auth_hash_value d" "prefix d uri"
proof -
  obtain c w where d: "d = c # w" using assms(2) by (cases d) auto
  have "char_at uri 0 = char_at d 0 \<and>
      takeWhile (\<lambda>c. c \<noteq> CHR ''/'') (tl uri) = takeWhile (\<lambda>c. c \<noteq> CHR ''/'') (tl d)"
    using assms(1) unfolding covers_def
    by (elim disjE exE conjE) (auto simp: d char_at_def takeWhile_stop takeWhile_stop_in prefix_def)
  then show "get_auth_hash_value uri = get_auth_hash_value d" by (simp add: get_auth_hash_value_def)
  show "prefix d uri" using assms(1) by (auto simp: covers_def)
qed

lemma auth_table:
  "set (auth_hashtable (fold auth_add dirs t) h) =
     set (auth_hashtable t h) \<union> {d \<in> set dirs. get_auth_hash_value d = h}"
  by (induction dirs arbitrary: t) (auto simp: auth_add_def Let_def)

lemma auth_walk_all:
  "\<exists>d \<in> set ds. prefix d uri \<Longrightarrow> \<forall>d \<in> set ds. prefix d uri \<longrightarrow> auth_boundary d uri \<Longrightarrow> auth_walk ds uri"
  by (induction ds) auto

lemma auth_walk_prefix: "auth_walk ds uri \<Longrightarrow> \<exists>d \<in> set ds. prefix d uri"
  by (induction ds) (auto split: if_splits)

text \<open>C34: A configured directory protects itself and every address in it, whatever the others are, as
  long as none of them is a prefix of the address that ends inside a component (which ends the
  search).  The root directory, which a configuration lists to protect everything, protects only
  the addresses whose first component falls into its own chain of the table.\<close>

theorem auth_directory_protects:
  "(d \<in> set dirs \<and> d \<noteq> [] \<and> covers d uri \<and> (\<forall>d' \<in> set dirs. prefix d' uri \<longrightarrow> auth_boundary d' uri) \<longrightarrow>
      is_protected (fold auth_add dirs tables_init) uri) \<and>
   (is_protected (auth_add ''/'' tables_init) uri \<longleftrightarrow> prefix ''/'' uri \<and> get_auth_hash_value uri = 0)"
proof
  let ?t = "fold auth_add dirs tables_init"
  have e: "set (auth_hashtable ?t h) = {d \<in> set dirs. get_auth_hash_value d = h}" for h
    by (simp add: auth_table tables_init_def)
  show "d \<in> set dirs \<and> d \<noteq> [] \<and> covers d uri \<and> (\<forall>d' \<in> set dirs. prefix d' uri \<longrightarrow> auth_boundary d' uri) \<longrightarrow>
      is_protected ?t uri"
  proof
    assume a: "d \<in> set dirs \<and> d \<noteq> [] \<and> covers d uri \<and> (\<forall>d' \<in> set dirs. prefix d' uri \<longrightarrow> auth_boundary d' uri)"
    then have h: "get_auth_hash_value uri = get_auth_hash_value d" "prefix d uri" using covers_hash by auto
    show "is_protected ?t uri"
      unfolding is_protected_def by (rule auth_walk_all) (use a h e in auto)
  qed
  have "get_auth_hash_value ''/'' = 0"
    by (simp add: get_auth_hash_value_def AUTH_HASHTABLE_SIZE_def char_at_def schar_def uchar_def)
  then show "is_protected (auth_add ''/'' tables_init) uri \<longleftrightarrow> prefix ''/'' uri \<and> get_auth_hash_value uri = 0"
    by (auto simp: is_protected_def auth_add_def tables_init_def auth_boundary_def)
qed

theorem auth_directory_protects_witness:
  "is_protected (fold auth_add [''/admin'', ''/boaform/admin''] tables_init) ''/boaform/admin/formReboot'' \<and>
   \<not> is_protected (auth_add ''/'' tables_init) ''/a.asp''"
proof -
  have "covers ''/boaform/admin'' ''/boaform/admin/formReboot''" by (simp add: covers_def)
  moreover have "get_auth_hash_value ''/a.asp'' \<noteq> 0"
    by (simp add: get_auth_hash_value_def AUTH_HASHTABLE_SIZE_def char_at_def schar_def uchar_def)
  moreover have "auth_boundary ''/boaform/admin'' ''/boaform/admin/formReboot''"
    by (simp add: auth_boundary_def char_at_def)
  ultimately show ?thesis
    using auth_directory_protects [of "''/boaform/admin''" "[''/admin'', ''/boaform/admin'']" "''/boaform/admin/formReboot''"]
      auth_directory_protects [of "[]" "[]" "''/a.asp''"]
    by simp
qed

section \<open>Who is let in\<close>

text \<open>The entry of the list that a request shows: its address, and the session of its cookie unless the
  entry has none yet; without a cookie only the start page, reached from another page.\<close>

definition shows_login :: "request \<Rightarrow> user_info \<Rightarrow> bool" where
  "shows_login req u \<longleftrightarrow> u_remote_ip_addr u = r_remote_ip_addr req \<and>
    (if r_cookie req = None then is_except_page req
     else \<exists>sid. get_sessionid_from_cookie req = Some sid \<and> (u_session_id u = [] \<or> u_session_id u = sid))"

lemma search_login_list_shows:
  assumes "search_login_list req g = Some (Some i)" "r_cookie req \<noteq> None \<or> is_except_page req"
  shows "i < length (user_login_list g)" "shows_login req (user_login_list g ! i)"
proof -
  show "i < length (user_login_list g)" "shows_login req (user_login_list g ! i)"
    using assms
    by (auto simp: search_login_list_def shows_login_def session_id_def find_index_Some
        split: if_splits option.splits)
qed

lemma auth_user_in:
  assumes "auth_authorize env (req, g) = Some (ret, req', g')"
    and "is_protected (g_tab g) (r_request_uri req)" "r_request_uri req \<notin> set login_pages"
  shows "if ret = 1
    then req' = req \<and> (\<exists>i u. i < length (user_login_list g) \<and> user_login_list g ! i = u \<and> shows_login req u \<and>
           user_login_list g' = (user_login_list g) [i := u \<lparr> u_last_time := e_time_counter env \<rparr>])
    else ret = 0"
proof -
  have a: "auth_user env (req, g) = Some (ret, req', g')"
    using assms(1,2) by (simp add: auth_authorize_def is_protected_def)
  have s: "ret = 0" if "auth_stranger env (req, g) = Some (ret, req', g')"
    using that assms(3) by (auto simp: auth_stranger_def Let_def split: if_splits prod.splits)
  show ?thesis
    using a s search_login_list_shows [of req g]
    by (auto simp: auth_user_def Let_def split: option.splits if_splits)
qed

text \<open>C33: Behind the gate: when \<open>auth_authorize\<close> lets a request into a protected directory, and the
  page is not one of the login itself, then the request shows the login of an entry of the list,
  whose last access is set to now, and the request itself is unchanged.  In every other case the
  result is 0, which ends the request.\<close>

theorem auth_gate:
  assumes "auth_authorize env (req, g) = Some (ret, req', g')"
    and "is_protected (g_tab g) (r_request_uri req)" "r_request_uri req \<notin> set login_pages"
  shows "if ret = 1
    then req' = req \<and> (\<exists>i u. i < length (user_login_list g) \<and> user_login_list g ! i = u \<and> shows_login req u \<and>
           user_login_list g' = (user_login_list g) [i := u \<lparr> u_last_time := e_time_counter env \<rparr>])
    else ret = 0"
  by (rule auth_user_in [OF assms])

theorem auth_gate_witness:
  "shows_login (blank_request \<lparr> r_remote_ip_addr := ''10.0.0.2'', r_cookie := Some ''sessionid=7'',
      r_request_uri := ''/admin/reboot.asp'' \<rparr>) (sample_user \<lparr> u_session_id := ''7'' \<rparr>)"
proof -
  let ?r = "blank_request \<lparr> r_remote_ip_addr := ''10.0.0.2'', r_cookie := Some ''sessionid=7'',
      r_request_uri := ''/admin/reboot.asp'' \<rparr>"
  let ?g = "globals_init \<lparr> g_tab := auth_add ''/admin'' tables_init,
      user_login_list := [sample_user \<lparr> u_session_id := ''7'' \<rparr>] \<rparr>"
  have p: "is_protected (g_tab ?g) (r_request_uri ?r)"
    by (simp add: is_protected_def auth_add_def tables_init_def get_auth_hash_value_def char_at_def auth_boundary_def)
  have "search_login_list ?r ?g = Some (Some 0)"
    by (simp add: search_login_list_def session_id_def get_sessionid_from_cookie_def sample_user_def blank_request_def)
  then have a: "auth_authorize sample_env (?r, ?g) = Some (1, ?r, ?g \<lparr> g_directory_index := Some ''index.html'',
      user_login_list := [sample_user \<lparr> u_session_id := ''7'', u_last_time := 100 \<rparr>] \<rparr>)"
    using p by (simp add: auth_authorize_def is_protected_def auth_user_def blank_request_def sample_user_def sample_env_def)
  have n: "r_request_uri ?r \<notin> set login_pages" by (simp add: login_pages_def)
  show ?thesis
    using auth_gate [OF a p n] by (auto simp: less_Suc_eq)
qed

section \<open>A login without its cookie\<close>

lemma boaWrite_addr [simp]: "r_remote_ip_addr (boaWrite req t) = r_remote_ip_addr req"
  by (simp add: boaWrite_def boaWriteBlock_def Let_def)

lemma fold_boaWrite_addr [simp]: "r_remote_ip_addr (fold (\<lambda>m r. boaWrite r m) ms req) = r_remote_ip_addr req"
  by (induction ms arbitrary: req) simp_all

lemma flush_addr:
  "r_remote_ip_addr (fst (flush env (req, g))) = r_remote_ip_addr req \<and>
   user_login_list (snd (flush env (req, g))) = user_login_list g"
  by (simp add: flush_def req_flush_def flush_reset_def convert_buffer_def Let_def split: io_result.split option.split)

text \<open>C35: A request for a protected page that comes from the address of a logged in user but without
  the cookie is answered with the way to the login page, and the removal of the user that follows
  reads the list entry it has freed.\<close>

theorem auth_no_cookie_freed:
  assumes "is_protected (g_tab g) (r_request_uri req)" "r_request_uri req \<notin> set login_pages"
    and "r_request_uri req \<noteq> ''/''" "r_cookie req = None" "\<not> is_except_page req"
    and "u \<in> set (user_login_list g)" "u_remote_ip_addr u = r_remote_ip_addr req"
    and "\<not> locked_out env (req, g)"
  shows "auth_authorize env (req, g) = None"
proof -
  have "auth_stranger env (req, g) = None"
  proof -
    define st where "st = login_redirect env (req, g \<lparr> g_directory_index := None \<rparr>)"
    have "r_remote_ip_addr (fst st) = r_remote_ip_addr req \<and> user_login_list (snd st) = user_login_list g"
      by (simp add: st_def login_redirect_def Let_def flush_addr wr_def req_write_def)
    then have "free_from_login_list_by_ip (fst st) (snd st) = None"
      using assms(6,7) by (auto simp: free_from_login_list_by_ip_def intro!: bexI [of _ u])
    then show ?thesis
      using assms by (simp add: auth_stranger_def Let_def st_def split_beta)
  qed
  then show ?thesis
    using assms(1,4,5) by (simp add: auth_authorize_def is_protected_def auth_user_def search_login_list_def
        split: option.split)
qed

theorem auth_no_cookie_freed_witness:
  "auth_authorize sample_env (blank_request \<lparr> r_remote_ip_addr := ''10.0.0.2'', r_request_uri := ''/admin/reboot.asp'' \<rparr>,
     globals_init \<lparr> g_tab := auth_add ''/admin'' tables_init, user_login_list := [sample_user] \<rparr>) = None"
proof (rule auth_no_cookie_freed [where u = sample_user])
  show "is_protected (g_tab (globals_init \<lparr> g_tab := auth_add ''/admin'' tables_init, user_login_list := [sample_user] \<rparr>))
      (r_request_uri (blank_request \<lparr> r_remote_ip_addr := ''10.0.0.2'', r_request_uri := ''/admin/reboot.asp'' \<rparr>))"
    by (simp add: is_protected_def auth_add_def tables_init_def get_auth_hash_value_def char_at_def auth_boundary_def)
qed (simp_all add: login_pages_def blank_request_def is_except_page_def sample_user_def locked_out_def
    search_errlog_list_def globals_init_def)

end
