(* ===== verification/Cgi.thy ===== *)
theory Cgi
  imports Response
begin

text \<open>
  What the server prepares for a CGI program and reads back from it: the environment and the
  arguments (\<open>src/src/cgi.c\<close>), the header the program prints (\<open>src/src/cgi_header.c\<close>) and the two
  ends of the pipe (\<open>src/src/pipe.c\<close>).  \<open>header_line\<close> and \<open>header_end\<close> are offsets into \<open>buffer\<close> here.
\<close>

definition MAX_CGI_VARS :: nat where "MAX_CGI_VARS = 50"
definition COMMON_CGI_VARS :: nat where "COMMON_CGI_VARS = 8"
definition ARGC_MAX :: nat where "ARGC_MAX = 128"

section \<open>The environment\<close>

text \<open>\<open>malloc\<close> does not fill the \<open>extra\<close> bytes in front; \<open>add_cgi_env\<close> does.\<close>

definition env_gen_extra :: "string \<Rightarrow> string \<Rightarrow> nat \<Rightarrow> bytes" where
  "env_gen_extra key val extra = replicate extra NUL @ key @ ''='' @ val"

definition env_gen :: "string \<Rightarrow> string \<Rightarrow> bytes" where
  "env_gen key val = env_gen_extra key val 0"

definition create_common_env :: "config \<Rightarrow> string list" where
  "create_common_env cfg =
    [env_gen ''PATH'' ''/bin:/usr/bin:/sbin:/usr/sbin'',
     env_gen ''SERVER_SOFTWARE'' ''Boa/0.93.15'',
     env_gen ''SERVER_NAME'' (server_name cfg),
     env_gen ''GATEWAY_INTERFACE'' ''CGI/1.1'',
     env_gen ''SERVER_PORT'' (simple_itoa (server_port cfg)),
     env_gen ''DOCUMENT_ROOT'' (document_root cfg),
     env_gen ''SERVER_ROOT'' (server_root cfg),
     env_gen ''SERVER_ADMIN'' (server_admin cfg)]"

definition create_env :: "config \<Rightarrow> request \<Rightarrow> request" where
  "create_env cfg req =
    req \<lparr> r_cgi_env := create_common_env cfg @
      [env_gen ''REQUEST_METHOD''
        (case r_method req of M_POST \<Rightarrow> ''POST'' | M_HEAD \<Rightarrow> ''HEAD'' | M_GET \<Rightarrow> ''GET'' | _ \<Rightarrow> ''UNKNOWN'')] \<rparr>"

definition add_cgi_env :: "string \<Rightarrow> string \<Rightarrow> request \<Rightarrow> request" where
  "add_cgi_env key val req =
    (if length (r_cgi_env req) \<ge> MAX_CGI_VARS - 17 then req
     else req \<lparr> r_cgi_env := r_cgi_env req @ [mem_write (env_gen_extra key val 5) 0 ''HTTP_''] \<rparr>)"

definition env_opt :: "string \<Rightarrow> string option \<Rightarrow> string list" where
  "env_opt key val = (case val of None \<Rightarrow> [] | Some v \<Rightarrow> [env_gen key v])"

definition complete_vars :: "config \<Rightarrow> request \<Rightarrow> string list" where
  "complete_vars cfg req =
    (if r_method req = M_POST
     then [env_gen ''CONTENT_TYPE'' (opt (default_type cfg) (r_content_type req))] @
          env_opt ''CONTENT_LENGTH'' (r_content_length req)
     else []) @
    [env_gen ''SERVER_PROTOCOL'' (opt [] (r_http_version req))] @
    (case r_path_info req of
       None \<Rightarrow> []
     | Some p \<Rightarrow> [env_gen ''PATH_INFO'' p, env_gen ''PATH_TRANSLATED'' (opt [] (r_path_translated req))]) @
    env_opt ''SCRIPT_NAME'' (r_script_name req) @
    env_opt ''QUERY_STRING'' (r_query_string req) @
    env_opt ''HTTP_COOKIE'' (r_cookie req) @
    [env_gen ''REMOTE_ADDR'' (r_remote_ip_addr req),
     env_gen ''REMOTE_PORT'' (simple_itoa (r_remote_port req))] @
    env_opt ''HTTP_USER_AGENT'' (r_user_agent req) @
    env_opt ''HTTP_REFERER'' (r_referer req) @
    env_opt ''CLIENT_CODEPAGE'' (r_cp_name req) @
    (if r_user req \<noteq> [] then [env_gen ''REMOTE_USER'' (r_user req)] else [])"

definition complete_env :: "config \<Rightarrow> request \<Rightarrow> request" where
  "complete_env cfg req =
    req \<lparr> r_cgi_env := r_cgi_env req @ complete_vars cfg req, r_cookie := None \<rparr>"

section \<open>The arguments\<close>

text \<open>The words of a query string that holds no equals sign, at most \<open>ARGC_MAX - 1\<close> of them.\<close>

function argv_loop :: "nat \<Rightarrow> string \<Rightarrow> string list" where
  "argv_loop aargc q =
    (if aargc \<ge> ARGC_MAX then []
     else
       case strchr q (CHR ''+'') of
         None \<Rightarrow> (case unescape_uri q of None \<Rightarrow> [] | Some r \<Rightarrow> [r])
       | Some p \<Rightarrow>
           (case unescape_uri (take p q) of
              None \<Rightarrow> argv_loop aargc (drop (Suc p) q)
            | Some r \<Rightarrow> r # argv_loop (Suc aargc) (drop (Suc p) q)))"
  by pat_completeness auto
termination
  by (relation "measure (\<lambda>(aargc, q). length q)") (auto dest: strchr_Some(1))

declare argv_loop.simps [simp del]

definition create_argv :: "request \<Rightarrow> string option list" where
  "create_argv req =
    (case r_query_string req of
       Some q \<Rightarrow>
         if CHR ''='' \<notin> set q then r_pathname req # map Some (argv_loop 1 q) else [r_pathname req]
     | None \<Rightarrow> [r_pathname req])"

section \<open>The header of the program's output\<close>

text \<open>Cutting the C string at offset \<open>p\<close> of the buffer at its first character \<open>c\<close>.\<close>

definition cut_at :: "char \<Rightarrow> nat \<Rightarrow> bytes \<Rightarrow> bytes" where
  "cut_at c p mem = (case strchr (cstr (drop p mem)) c of None \<Rightarrow> mem | Some q \<Rightarrow> mem [p + q := NUL])"

text \<open>The end of the header: the offset of the blank line and its length.\<close>

definition find_eoh :: "string \<Rightarrow> (nat \<times> nat) option" where
  "find_eoh buf =
    (case strstr buf [CR, LF, CR, LF] of
       Some i \<Rightarrow> Some (i, 4)
     | None \<Rightarrow> map_option (\<lambda>i. (i, 2)) (strstr buf [LF, LF]))"

text \<open>The loop over the location stops at \<open>data_mem + MAX_HEADER_LENGTH\<close>.  For a null
  \<open>data_mem\<close> that address lies below the buffer, so the loop stops at once; else \<open>e_mmap_room\<close> is the
  distance.\<close>

definition location_text :: "env \<Rightarrow> request \<Rightarrow> string \<Rightarrow> string" where
  "location_text env req s =
    take (case r_data_mem req of None \<Rightarrow> 0 | Some _ \<Rightarrow> e_mmap_room env)
      (takeWhile (\<lambda>c. c \<noteq> LF \<and> c \<noteq> CR) s)"

definition cgi_header_done :: "env \<Rightarrow> st \<Rightarrow> int \<times> st" where
  "cgi_header_done env st = (if r_method (fst st) = M_HEAD then (0, flush env st) else (1, st))"

definition cgi_header_fields :: "nat \<Rightarrow> nat \<Rightarrow> nat \<Rightarrow> request \<Rightarrow> request" where
  "cgi_header_fields hl i eoh_len req =
    (let mem = mem_write (r_buffer req) (hl + i) (replicate eoh_len NUL);
         (mem, req) = (case strstr (cstr (drop hl mem)) ''Set-cookie: '' of
                         None \<Rightarrow> (mem, req)
                       | Some p \<Rightarrow>
                           let mem = cut_at LF (hl + p) (cut_at CR (hl + p) mem)
                           in (mem, req \<lparr> r_cookie := Some (cstr (drop (hl + p) mem)) \<rparr>));
         (mem, req) = (if strncaseeq 14 (cstr (drop hl mem)) ''Content-type: ''
                       then
                         let mem = cut_at LF (hl + 14) (cut_at CR (hl + 14) mem)
                         in (mem, req \<lparr> r_content_type := Some (cstr (drop (hl + 14) mem)) \<rparr>)
                       else (mem, req))
     in req \<lparr> r_buffer := mem, r_header_line := hl + i + eoh_len \<rparr>)"

definition process_cgi_header :: "env \<Rightarrow> st \<Rightarrow> int \<times> st" where
  "process_cgi_header env st =
    (let (req, g) = st; req = req \<lparr> r_cgi_status := CGI_WRITE \<rparr>;
         hl = r_header_line req; buf = cstr (drop hl (r_buffer req))
     in case find_eoh buf of
          None \<Rightarrow> (0, send_r_error env (req, g))
        | Some (i, eoh_len) \<Rightarrow>
            if r_simple req
            then (1, req \<lparr> r_header_line := hl + i + (if char_at buf (i + 1) = CR then 2 else 1) \<rparr>, g)
            else if strncaseeq 8 buf ''Status: ''
            then cgi_header_done env
                   (req \<lparr> r_header_line := hl - 1,
                          r_buffer := mem_write (r_buffer req) (hl - 1) ''HTTP/1.0 '' \<rparr>, g)
            else if strncaseeq 10 buf ''Location: ''
            then
              let loc = location_text env req (drop 10 buf);
                  req = req \<lparr> r_buffer := (r_buffer req) [hl + 10 + length loc := NUL] \<rparr>
              in if char_at loc 0 = CHR ''/'' then (0, send_r_error env (req, g))
                 else (0, send_redirect_temp env loc (req, g))
            else
              cgi_header_done env (send_r_request_ok env (cgi_header_fields hl i eoh_len req, g)))"

section \<open>The pipe\<close>

definition read_from_pipe :: "env \<Rightarrow> st \<Rightarrow> int \<times> st" where
  "read_from_pipe env st =
    (let (req, g) = st; bytes_to_read = r_max_buffer_size req - r_header_end req in
     if bytes_to_read = 0 then
       let req = req \<lparr> r_status := PIPE_WRITE \<rparr> in
       if r_cgi_status req = CGI_READ
       then process_cgi_header env (req \<lparr> r_buffer := (r_buffer req) [r_header_end req := NUL] \<rparr>, g)
       else (1, req, g)
     else
       case e_read env (r_data_fd req) bytes_to_read of
         RD_data [] \<Rightarrow>
           let req = req \<lparr> r_status := PIPE_WRITE \<rparr> in
           if r_cgi_status req = CGI_READ
           then process_cgi_header env
                  (req \<lparr> r_cgi_status := CGI_CLOSE, r_buffer := (r_buffer req) [r_header_end req := NUL] \<rparr>, g)
           else (1, req \<lparr> r_cgi_status := CGI_CLOSE \<rparr>, g)
       | RD_data bs \<Rightarrow>
           let bs = (case r_cp_table req of None \<Rightarrow> bs | Some table \<Rightarrow> nls_convert bs table (length bs))
           in (1, req \<lparr> r_buffer := mem_write (r_buffer req) (r_header_end req) bs,
                       r_header_end := r_header_end req + length bs \<rparr>, g)
       | RD_again \<Rightarrow> (-1, req, g)
       | _ \<Rightarrow> (0, req, g))"

definition write_from_pipe :: "env \<Rightarrow> st \<Rightarrow> int \<times> st" where
  "write_from_pipe env st =
    (let (req, g) = st; bytes_to_write = r_header_end req - r_header_line req in
     if bytes_to_write = 0 then
       if r_cgi_status req = CGI_CLOSE then (0, req, g)
       else (1, req \<lparr> r_status := PIPE_READ, r_header_end := 0, r_header_line := 0 \<rparr>, g)
     else
       case e_write env (r_fd req) (bslice (r_header_line req) (r_header_end req) (r_buffer req)) of
         IO_again \<Rightarrow> (-1, req, g)
       | IO_err \<Rightarrow> (0, req, g)
       | IO_ok bytes_written \<Rightarrow>
           (1, req \<lparr> r_header_line := r_header_line req + bytes_written,
                     r_filepos := r_filepos req + bytes_written \<rparr>, g))"

section \<open>The environment fits\<close>

lemma create_env_length [simp]: "length (r_cgi_env (create_env cfg req)) = 9"
  by (simp add: create_env_def create_common_env_def)

lemma http_var: "mem_write (env_gen_extra k v 5) 0 ''HTTP_'' = ''HTTP_'' @ k @ ''='' @ v"
  by (simp add: mem_write_def env_gen_extra_def numeral_eq_Suc)

lemma add_cgi_env_all:
  "length (r_cgi_env r) \<le> 33 \<Longrightarrow>
   r_cgi_env (fold (\<lambda>(k, v). add_cgi_env k v) hs r) =
     r_cgi_env r @ map (\<lambda>(k, v). ''HTTP_'' @ k @ ''='' @ v) (take (33 - length (r_cgi_env r)) hs)"
proof (induction hs arbitrary: r)
  case (Cons h hs)
  obtain k v where h: "h = (k, v)" by fastforce
  show ?case
  proof (cases "length (r_cgi_env r) = 33")
    case True
    then have "add_cgi_env k v r = r" by (simp add: add_cgi_env_def MAX_CGI_VARS_def)
    then show ?thesis using Cons.IH [of r] True by (simp add: h)
  next
    case False
    let ?r = "add_cgi_env k v r"
    have r: "r_cgi_env ?r = r_cgi_env r @ [''HTTP_'' @ k @ ''='' @ v]"
      using False Cons.prems by (simp add: add_cgi_env_def MAX_CGI_VARS_def http_var)
    have d: "33 - length (r_cgi_env r) = Suc (33 - length (r_cgi_env ?r))" using False Cons.prems r by simp
    show ?thesis using Cons.IH [of ?r] Cons.prems False r unfolding d by (simp add: h)
  qed
qed simp

lemma env_opt_length: "length (env_opt k v) \<le> 1"
  by (cases v) (simp_all add: env_opt_def)

lemma complete_vars_length: "length (complete_vars cfg req) \<le> (if r_method req = M_POST then 14 else 12)"
  using env_opt_length [of "''CONTENT_LENGTH''" "r_content_length req"]
    env_opt_length [of "''SCRIPT_NAME''" "r_script_name req"]
    env_opt_length [of "''QUERY_STRING''" "r_query_string req"]
    env_opt_length [of "''HTTP_COOKIE''" "r_cookie req"]
    env_opt_length [of "''HTTP_USER_AGENT''" "r_user_agent req"]
    env_opt_length [of "''HTTP_REFERER''" "r_referer req"]
    env_opt_length [of "''CLIENT_CODEPAGE''" "r_cp_name req"]
  by (auto simp: complete_vars_def split: option.split)

text \<open>C20: The headers of a request become CGI variables in their order until 24 of them are stored,
  and whatever else the request holds, completing the environment once leaves room for the
  terminating null pointer in the \<open>MAX_CGI_VARS\<close> slots.\<close>

theorem cgi_env_fits:
  "r_cgi_env (fold (\<lambda>(k, v). add_cgi_env k v) hs (create_env cfg req)) =
     r_cgi_env (create_env cfg req) @ map (\<lambda>(k, v). ''HTTP_'' @ k @ ''='' @ v) (take 24 hs) \<and>
   length (r_cgi_env (complete_env cfg (req' \<lparr> r_cgi_env :=
     r_cgi_env (fold (\<lambda>(k, v). add_cgi_env k v) hs (create_env cfg req)) \<rparr>))) < MAX_CGI_VARS"
proof -
  let ?r = "fold (\<lambda>(k, v). add_cgi_env k v) hs (create_env cfg req)"
  have e: "r_cgi_env ?r = r_cgi_env (create_env cfg req) @ map (\<lambda>(k, v). ''HTTP_'' @ k @ ''='' @ v) (take 24 hs)"
    using add_cgi_env_all [of "create_env cfg req" hs] by simp
  have "length (complete_vars cfg (req' \<lparr> r_cgi_env := r_cgi_env ?r \<rparr>)) \<le> 14"
    using complete_vars_length [of cfg "req' \<lparr> r_cgi_env := r_cgi_env ?r \<rparr>"] by (auto split: if_splits)
  moreover have "length (r_cgi_env ?r) \<le> 33" using e by simp
  ultimately show ?thesis using e by (simp add: complete_env_def MAX_CGI_VARS_def)
qed

section \<open>Arguments of a query\<close>

fun join_plus :: "string list \<Rightarrow> string" where
  "join_plus [] = []"
| "join_plus [w] = w"
| "join_plus (w # ws) = w @ CHR ''+'' # join_plus ws"

definition word_ok :: "string \<Rightarrow> bool" where
  "word_ok w \<longleftrightarrow> (\<forall>c \<in> set w. c \<notin> {CHR ''+'', CHR ''='', LF, CR, NUL})"

lemma unescape_plain: "word_ok w \<Longrightarrow> unescape_uri w = Some w"
  by (rule unescape_uri_plain) (auto simp: word_ok_def)

lemma argv_loop_join:
  "ws \<noteq> [] \<Longrightarrow> list_all word_ok ws \<Longrightarrow> n + length ws \<le> ARGC_MAX \<Longrightarrow> argv_loop n (join_plus ws) = ws"
proof (induction ws arbitrary: n rule: join_plus.induct)
  case (2 w)
  then have s: "strchr w (CHR ''+'') = None" by (auto simp: word_ok_def)
  show ?case using 2 by (subst argv_loop.simps) (simp add: s unescape_plain)
next
  case (3 w v ws)
  then have w: "CHR ''+'' \<notin> set w" by (auto simp: word_ok_def)
  show ?case
    using 3(1) [of "Suc n"] 3(2-)
    by (subst argv_loop.simps) (simp add: strchr_append [OF w] unescape_plain)
qed simp

lemma join_plus_set: "list_all word_ok ws \<Longrightarrow> CHR ''='' \<notin> set (join_plus ws)"
  by (induction ws rule: join_plus.induct) (auto simp: word_ok_def)

text \<open>A query string without an equals sign is cut at its plus signs into the arguments of the
  program, none lost and none changed, as long as they fit in the argument vector.\<close>

theorem create_argv_words:
  assumes "r_query_string req = Some (join_plus ws)" "ws \<noteq> []" "list_all word_ok ws"
    "length ws < ARGC_MAX"
  shows "create_argv req = r_pathname req # map Some ws"
  using argv_loop_join [OF assms(2,3), of 1] join_plus_set [OF assms(3)] assms
  by (simp add: create_argv_def)

theorem create_argv_words_witness:
  "create_argv (blank_request \<lparr> r_query_string := Some ''ab+c++d'' \<rparr>) =
     [None, Some ''ab'', Some ''c'', Some [], Some ''d'']"
  using create_argv_words [of "blank_request \<lparr> r_query_string := Some ''ab+c++d'' \<rparr>" "[''ab'', ''c'', [], ''d'']"]
  by (simp add: word_ok_def ARGC_MAX_def blank_request_def)

section \<open>Locations\<close>

lemma find_eoh_Some:
  "contains_str b [CR, LF, CR, LF] \<or> contains_str b [LF, LF] \<Longrightarrow> \<exists>e. find_eoh b = Some e"
  by (auto simp: find_eoh_def contains_str_def split: option.split)

text \<open>C21: A CGI program that prints a \<open>Location\<close> header makes the server redirect to the empty URL,
  whatever the location is: no file is mapped for the request of a CGI program, so the loop that
  looks for the end of the location stops before its first character.\<close>

theorem cgi_location_lost:
  assumes "cstr (drop (r_header_line req) (r_buffer req)) = ''Location: '' @ loc"
    "contains_str loc [CR, LF, CR, LF] \<or> contains_str loc [LF, LF]"
    "\<not> r_simple req" "r_data_mem req = None"
  shows "\<exists>req'. process_cgi_header env (req, g) = (0, send_redirect_temp env [] (req', g))"
proof -
  let ?b = "''Location: '' @ loc"
  have "contains_str ?b [CR, LF, CR, LF] \<or> contains_str ?b [LF, LF]"
    using assms(2) by (elim disjE) (rule disjI1 disjI2, erule contains_str_append)+
  then obtain e where e: "find_eoh ?b = Some e" by (rule find_eoh_Some [THEN exE])
  obtain i n where "e = (i, n)" by fastforce
  then show ?thesis
    using e assms(1,3,4)
    by (auto simp: process_cgi_header_def Let_def strncaseeq_def strcaseeq_def toupper_def is_lower_def
        char_eval location_text_def char_at_def)
qed

theorem cgi_location_lost_witness:
  "\<exists>req'. process_cgi_header sample_env (blank_request \<lparr> r_buffer := lit ''Location: http://x/~~'' @ [NUL] \<rparr>, globals_init) =
     (0, send_redirect_temp sample_env [] (req', globals_init))"
  by (rule cgi_location_lost [where loc = "lit ''http://x/~~''"])
     (simp_all add: blank_request_def cstr_def lit_char_def contains_str_def)

section \<open>The bytes of the pipe\<close>

definition unsent :: "request \<Rightarrow> bytes" where
  "unsent r = bslice (r_header_line r) (r_header_end r) (r_buffer r)"

definition pipe_ok :: "request \<Rightarrow> bool" where
  "pipe_ok r \<longleftrightarrow> r_header_line r \<le> r_header_end r \<and> r_header_end r \<le> r_max_buffer_size r \<and>
     r_max_buffer_size r \<le> length (r_buffer r) \<and> r_cgi_status r \<noteq> CGI_READ \<and>
     r_status r \<in> {PIPE_READ, PIPE_WRITE}"

text \<open>One visit of the request, with the bytes it takes from the program and hands to the client.\<close>

definition pipe_step :: "env \<Rightarrow> st \<Rightarrow> int \<times> st" where
  "pipe_step env st = (if r_status (fst st) = PIPE_READ then read_from_pipe env st else write_from_pipe env st)"

definition pipe_in :: "env \<Rightarrow> request \<Rightarrow> bytes" where
  "pipe_in env r =
    (if r_status r = PIPE_READ \<and> r_header_end r \<noteq> r_max_buffer_size r
     then case e_read env (r_data_fd r) (r_max_buffer_size r - r_header_end r) of
            RD_data bs \<Rightarrow> (case r_cp_table r of None \<Rightarrow> bs | Some t \<Rightarrow> map (\<lambda>c. t ! uchar c) bs)
          | _ \<Rightarrow> []
     else [])"

definition pipe_out :: "env \<Rightarrow> request \<Rightarrow> bytes" where
  "pipe_out env r =
    (if r_status r \<noteq> PIPE_READ \<and> unsent r \<noteq> []
     then case e_write env (r_fd r) (unsent r) of IO_ok n \<Rightarrow> take n (unsent r) | _ \<Rightarrow> []
     else [])"

text \<open>The system reads at most what it is asked for and writes at most what it is given.\<close>

definition io_bounded :: "env \<Rightarrow> bool" where
  "io_bounded env \<longleftrightarrow> (\<forall>fd n bs. e_read env fd n = RD_data bs \<longrightarrow> length bs \<le> n) \<and>
     (\<forall>fd bs n. e_write env fd bs = IO_ok n \<longrightarrow> n \<le> length bs)"

lemma pipe_read_step:
  assumes "pipe_ok r" "r_status r = PIPE_READ" "io_bounded env" "pipe_step env (r, g) = (ret, r', g')"
  shows "pipe_ok r' \<and> unsent r' = unsent r @ pipe_in env r"
proof (cases "r_header_end r = r_max_buffer_size r")
  case True
  then show ?thesis
    using assms by (auto simp: pipe_step_def read_from_pipe_def pipe_ok_def pipe_in_def unsent_def)
next
  case False
  note step = assms(4) [unfolded pipe_step_def read_from_pipe_def] False
  show ?thesis
  proof (cases "e_read env (r_data_fd r) (r_max_buffer_size r - r_header_end r)")
    case (RD_data bs)
    let ?bs = "case r_cp_table r of None \<Rightarrow> bs | Some t \<Rightarrow> map (\<lambda>c. t ! uchar c) bs"
    have len: "length ?bs \<le> r_max_buffer_size r - r_header_end r"
      using RD_data assms(3) by (auto simp: io_bounded_def split: option.split)
    show ?thesis
    proof (cases bs)
      case Nil
      then show ?thesis
        using step assms(1,2) RD_data by (auto simp: pipe_ok_def pipe_in_def unsent_def split: option.splits)
    next
      case (Cons c cs)
      then have r': "r' = r \<lparr> r_buffer := mem_write (r_buffer r) (r_header_end r) ?bs,
                              r_header_end := r_header_end r + length ?bs \<rparr>"
        using step assms(1,2) RD_data by (auto simp: pipe_ok_def nls_convert_def split: option.splits)
      have "pipe_in env r = ?bs" using RD_data False assms(2) by (simp add: pipe_in_def)
      then show ?thesis
        using assms(1) len unfolding r'
        by (auto simp: pipe_ok_def unsent_def bslice_mem_write simp del: length_map)
    qed
  qed (use step assms(1,2) in \<open>auto simp: pipe_ok_def pipe_in_def\<close>)
qed

lemma unsent_empty: "pipe_ok r \<Longrightarrow> unsent r = [] \<longleftrightarrow> r_header_end r - r_header_line r = 0"
  by (auto simp: pipe_ok_def unsent_def bslice_def)

lemma pipe_write_step:
  assumes "pipe_ok r" "r_status r \<noteq> PIPE_READ" "io_bounded env" "pipe_step env (r, g) = (ret, r', g')"
  shows "pipe_ok r' \<and> pipe_out env r @ unsent r' = unsent r"
proof (cases "r_header_end r - r_header_line r = 0")
  case True
  then show ?thesis
    using assms unsent_empty [OF assms(1)]
    by (auto simp: pipe_step_def write_from_pipe_def pipe_ok_def pipe_out_def unsent_def split: if_splits)
next
  case False
  note step = assms(2,4) False
  have ne: "unsent r \<noteq> []" using False unsent_empty [OF assms(1)] by simp
  show ?thesis
  proof (cases "e_write env (r_fd r) (unsent r)")
    case (IO_ok n)
    then have "n \<le> r_header_end r - r_header_line r"
      using assms(3) by (auto simp: io_bounded_def unsent_def bslice_def)
        (metis (no_types, lifting) length_take min.boundedE)
    then show ?thesis
      using step ne IO_ok assms(1)
      by (auto simp: pipe_step_def write_from_pipe_def pipe_ok_def pipe_out_def unsent_def bslice_cut)
  qed (use step ne assms(1) in
       \<open>auto simp: pipe_step_def write_from_pipe_def pipe_ok_def pipe_out_def unsent_def\<close>)
qed

fun pipe_run :: "env list \<Rightarrow> st \<Rightarrow> bytes \<times> bytes \<times> st" where
  "pipe_run [] st = ([], [], st)"
| "pipe_run (env # envs) st =
    (let (ret, st') = pipe_step env st; i = pipe_in env (fst st); out = pipe_out env (fst st)
     in if ret = 0 then (i, out, st')
        else let (i', out', st'') = pipe_run envs st' in (i @ i', out @ out', st''))"

lemma pipe_one_step:
  assumes "pipe_ok r" "io_bounded env" "pipe_step env (r, g) = (ret, r', g')"
  shows "pipe_ok r'" "unsent r @ pipe_in env r = pipe_out env r @ unsent r'"
  using pipe_read_step [OF assms(1) _ assms(2,3)] pipe_write_step [OF assms(1) _ assms(2,3)]
  by (cases "r_status r = PIPE_READ"; simp add: pipe_in_def pipe_out_def)+

lemma pipe_run_transfers:
  assumes "pipe_ok r" "\<forall>env \<in> set envs. io_bounded env" "pipe_run envs (r, g) = (i, out, r', g')"
  shows "pipe_ok r' \<and> unsent r @ i = out @ unsent r'"
  using assms
proof (induction envs arbitrary: r g i out r' g')
  case (Cons env envs)
  obtain ret r1 g1 where s: "pipe_step env (r, g) = (ret, r1, g1)" by (metis prod_cases3)
  note one = pipe_one_step [OF Cons.prems(1) _ s]
  show ?case
  proof (cases "ret = 0")
    case True
    then show ?thesis using Cons.prems s one by (auto simp: Let_def)
  next
    case False
    obtain i' out' r2 g2 where rest: "pipe_run envs (r1, g1) = (i', out', r2, g2)" by (metis prod_cases4)
    have res: "i = pipe_in env r @ i'" "out = pipe_out env r @ out'" "r2 = r'"
      using Cons.prems(3) s False rest by auto
    have "pipe_ok r' \<and> unsent r1 @ i' = out' @ unsent r'"
      using Cons.IH [OF _ _ rest] one Cons.prems(2) res by simp
    then show ?thesis using one Cons.prems(2) res by (metis append.assoc list.set_intros(1))
  qed
qed simp

text \<open>The header of the output: what \<open>init_cgi\<close> starts with, until \<open>process_cgi_header\<close> has been called.\<close>

definition pipe_room :: "request \<Rightarrow> bool" where
  "pipe_room r \<longleftrightarrow> r_header_line r \<le> r_header_end r \<and> r_header_end r \<le> r_max_buffer_size r \<and>
     r_max_buffer_size r \<le> length (r_buffer r)"

definition same_pipe :: "request \<Rightarrow> request \<Rightarrow> bool" where
  "same_pipe r r' \<longleftrightarrow> r_header_line r' = r_header_line r \<and> r_header_end r' = r_header_end r \<and>
     r_max_buffer_size r' = r_max_buffer_size r \<and> r_status r' = r_status r \<and> r_cgi_status r' = r_cgi_status r \<and>
     length (r_buffer r) \<le> length (r_buffer r')"

lemma same_pipe_refl [simp]: "same_pipe r r" by (simp add: same_pipe_def)

lemma same_pipe_trans: "same_pipe a b \<Longrightarrow> same_pipe b c \<Longrightarrow> same_pipe a c" by (simp add: same_pipe_def)

lemma mem_write_longer: "length b \<le> length (mem_write b i d)"
  by (simp add: mem_write_def)

lemma same_pipe_wr: "same_pipe r r' \<Longrightarrow> same_pipe r (wr m r')"
  using mem_write_longer [of "r_buffer r'" "r_buffer_end r'" m]
  by (auto simp: same_pipe_def wr_def req_write_def Let_def)

lemma same_pipe_time: "same_pipe r r' \<Longrightarrow> same_pipe r (wr_time env s r')"
  by (auto simp: wr_time_def req_write_rfc822_time_def Let_def same_pipe_def
      intro: order.trans [OF _ mem_write_longer])

lemmas same_pipe_writes = same_pipe_wr same_pipe_time

lemma same_pipe_heads:
  assumes "same_pipe r r'"
  shows "same_pipe r (print_http_headers env r')" "same_pipe r (fst (print_set_cookie env (r', g)))"
    "same_pipe r (print_content_type env g r')" "same_pipe r (print_content_length r')"
    "same_pipe r (print_last_modified env r')"
  using assms
  by (auto simp: print_http_headers_def print_set_cookie_def print_content_type_def print_content_length_def
      print_last_modified_def Let_def intro!: same_pipe_writes split: option.split)

lemma same_pipe_type:
  assumes "same_pipe r r'"
  shows "same_pipe r (r' \<lparr> r_content_type := x \<rparr>)"
  using assms by (simp add: same_pipe_def)

lemma same_pipe_ok: "same_pipe r (fst (send_r_request_ok env (r, g)))"
proof (cases "r_simple r")
  case True
  then show ?thesis by (simp add: send_r_request_ok_def same_pipe_def)
next
  case False
  define h where "h = print_http_headers env (wr (lit ''X-XSS-Protection: 1;mode=block~'')
      (wr (lit ''HTTP/1.0 200 OK~'') (r \<lparr> r_response_status := 200 \<rparr>)))"
  obtain r2 g2 where r2: "(if strneq 2 (r_request_uri h) ''//'' then print_set_cookie env (h, g) else (h, g)) = (r2, g2)"
    by fastforce
  define t where "t = (if contains_str (r_request_uri r2) ''.js'' then Some ''text/javascript''
      else if contains_str (r_request_uri r2) ''.css'' then Some ''text/css''
      else case r_content_type r2 of None \<Rightarrow> Some ''text/html''
        | Some ct \<Rightarrow> if contains_str ct ''text/'' then Some ct else Some ''text/html'')"
  define c where "c = print_content_type env g2 (r2 \<lparr> r_content_type := t \<rparr>)"
  have h: "same_pipe r h" unfolding h_def
    by (intro same_pipe_heads same_pipe_writes) (simp add: same_pipe_def)
  have k: "same_pipe r r2" using r2 h same_pipe_heads(2) [OF h, of env g] by (auto split: if_splits)
  have ct: "same_pipe r c" unfolding c_def by (intro same_pipe_heads same_pipe_type k)
  have eq: "(if contains_str (r_request_uri r2) ''.js'' then r2 \<lparr> r_content_type := Some ''text/javascript'' \<rparr>
      else if contains_str (r_request_uri r2) ''.css'' then r2 \<lparr> r_content_type := Some ''text/css'' \<rparr>
      else case r_content_type r2 of None \<Rightarrow> r2 \<lparr> r_content_type := Some ''text/html'' \<rparr>
        | Some ct \<Rightarrow> if contains_str ct ''text/'' then r2 else r2 \<lparr> r_content_type := Some ''text/html'' \<rparr>) =
      r2 \<lparr> r_content_type := t \<rparr>"
    unfolding t_def by (cases r2) (simp split: option.split)
  have body: "fst (send_r_request_ok env (r, g)) = wr (lit ''~'')
      (if r_is_cgi r2 \<noteq> NOT_CGI then (case r_cookie c of None \<Rightarrow> c | Some x \<Rightarrow> wr (lit ''~'') (wr x c))
       else print_last_modified env (print_content_length (print_content_type env g2 r2)))"
    using False
    by (simp only: send_r_request_ok_def Let_def prod.case h_def [symmetric] r2 eq c_def [symmetric] fst_conv if_False
        request.simps cong: if_cong) (simp add: h_def)
  have "same_pipe r (case r_cookie c of None \<Rightarrow> c | Some x \<Rightarrow> wr (lit ''~'') (wr x c))"
    using ct by (auto intro: same_pipe_writes split: option.split)
  moreover have "same_pipe r (print_last_modified env (print_content_length (print_content_type env g2 r2)))"
    by (intro same_pipe_heads k)
  ultimately show ?thesis unfolding body by (simp add: same_pipe_wr del: lit_simps)
qed

lemma find_eoh_bound:
  assumes "find_eoh b = Some (i, n)"
  shows "i + n \<le> length b" "n = 2 \<or> n = 4"
proof -
  have "i + length p \<le> length b" if "strstr b p = Some i" for p
    using strstr_Some(1,2) [OF that] by (metis add.commute diff_add le_diff_conv length_drop nat_add_left_cancel_le prefix_length_le)
  from this [of "[CR, LF, CR, LF]"] this [of "[LF, LF]"] show "i + n \<le> length b"
    using assms by (auto simp: find_eoh_def split: option.splits)
  show "n = 2 \<or> n = 4" using assms by (auto simp: find_eoh_def split: option.splits)
qed

lemma length_cut_at [simp]: "length (cut_at c p b) = length b"
  by (simp add: cut_at_def split: option.split)

lemma cgi_fields_pipe:
  assumes "pipe_room r" "hl + i + n \<le> r_header_end r" "hl = r_header_line r"
  shows "pipe_room (cgi_header_fields hl i n r)"
    "r_status (cgi_header_fields hl i n r) = r_status r" "r_cgi_status (cgi_header_fields hl i n r) = r_cgi_status r"
proof -
  have l: "length (mem_write (r_buffer r) (hl + i) (replicate n NUL)) = length (r_buffer r)"
    by (rule length_mem_write) (use assms in \<open>simp add: pipe_room_def\<close>)
  show "pipe_room (cgi_header_fields hl i n r)"
    using assms l by (auto simp: pipe_room_def cgi_header_fields_def Let_def split: option.split)
  show "r_status (cgi_header_fields hl i n r) = r_status r" "r_cgi_status (cgi_header_fields hl i n r) = r_cgi_status r"
    by (auto simp: cgi_header_fields_def Let_def split: option.split)
qed

lemma done_pipe:
  "cgi_header_done env st = (ret, st') \<Longrightarrow> ret \<noteq> 0 \<Longrightarrow> st' = st"
  by (auto simp: cgi_header_done_def split: if_splits)

text \<open>A header that lets the output go on leaves the pipe in order.\<close>

lemma process_cgi_header_pipe:
  assumes "pipe_room r" "r_status r = PIPE_WRITE" "cstr (drop (r_header_line r) (r_buffer r)) = cstr (unsent r)"
    and "process_cgi_header env (r, g) = (ret, r', g')" "ret \<noteq> 0"
  shows "pipe_ok r'"
proof -
  define r1 where "r1 = r \<lparr> r_cgi_status := CGI_WRITE \<rparr>"
  have ok: "pipe_room r1" "r_status r1 = PIPE_WRITE" "r_cgi_status r1 = CGI_WRITE" "r_header_line r1 = r_header_line r"
    "r_header_end r1 = r_header_end r"
    using assms(1,2) by (simp_all add: r1_def pipe_room_def)
  have okI: "pipe_ok q" if "pipe_room q" "r_status q = PIPE_WRITE" "r_cgi_status q = CGI_WRITE" for q
    using that by (simp add: pipe_ok_def pipe_room_def)
  let ?buf = "cstr (drop (r_header_line r) (r_buffer r))"
  have len: "r_header_line r + length ?buf \<le> r_header_end r"
  proof -
    have "length (cstr (unsent r)) \<le> length (unsent r)" by (simp add: cstr_def length_takeWhile_le)
    then show ?thesis using assms(1) unfolding assms(3) by (auto simp: unsent_def bslice_def pipe_room_def)
  qed
  obtain i n where e: "find_eoh ?buf = Some (i, n)"
    using assms(4,5) by (auto simp: process_cgi_header_def Let_def split: option.splits)
  note b = find_eoh_bound [OF e]
  have fit: "r_header_line r + i + n \<le> r_header_end r" using b(1) len by simp
  show ?thesis
  proof (cases "r_simple r")
    case True
    then have "r' = r1 \<lparr> r_header_line := r_header_line r + i + (if char_at ?buf (i + 1) = CR then 2 else 1) \<rparr>"
      using assms(4) e by (simp add: process_cgi_header_def Let_def r1_def)
    then show ?thesis using ok fit b(2) by (intro okI) (auto simp: pipe_room_def)
  next
    case False
    show ?thesis
    proof (cases "strncaseeq 8 ?buf ''Status: ''")
      case True
      then have "r' = r1 \<lparr> r_header_line := r_header_line r - 1,
          r_buffer := mem_write (r_buffer r) (r_header_line r - 1) ''HTTP/1.0 '' \<rparr>"
        using assms(4,5) e False by (auto simp: process_cgi_header_def Let_def r1_def dest: done_pipe)
      then show ?thesis
        using ok mem_write_longer [of "r_buffer r" "r_header_line r - 1" "''HTTP/1.0 ''"] unfolding r1_def
        by (intro okI) (auto simp: pipe_room_def)
    next
      case st: False
      show ?thesis
      proof (cases "strncaseeq 10 ?buf ''Location: ''")
        case True
        then show ?thesis using assms(4,5) e False st by (simp add: process_cgi_header_def Let_def split: if_splits)
      next
        case lo: False
        let ?f = "cgi_header_fields (r_header_line r) i n r1"
        have "(r', g') = send_r_request_ok env (?f, g)"
          using assms(4,5) e False st lo by (auto simp: process_cgi_header_def Let_def r1_def dest: done_pipe)
        then have s: "same_pipe ?f r'" using same_pipe_ok [of ?f env g] by (metis fst_conv)
        have "pipe_room ?f" "r_status ?f = PIPE_WRITE" "r_cgi_status ?f = CGI_WRITE"
          using cgi_fields_pipe [OF ok(1) fit [folded ok(5)] ok(4) [symmetric]] ok(2,3) by simp_all
        then show ?thesis using s by (intro okI) (auto simp: same_pipe_def pipe_room_def)
      qed
    qed
  qed
qed

text \<open>A visit while the header is read: more bytes, or the header goes to \<open>process_cgi_header\<close>.\<close>

definition header_handed :: "env \<Rightarrow> st \<Rightarrow> request \<Rightarrow> int \<times> st \<Rightarrow> bool" where
  "header_handed env st r1 res \<longleftrightarrow>
    process_cgi_header env (r1, snd st) = res \<and> unsent r1 = unsent (fst st) \<and>
    cstr (drop (r_header_line r1) (r_buffer r1)) = cstr (unsent r1) \<and> pipe_room r1 \<and> r_status r1 = PIPE_WRITE"

lemma bslice_update: "bslice i j (b [j := c]) = bslice i j b"
  by (cases "i \<le> j") (simp_all add: bslice_def drop_update_swap)

lemma cstr_update: "i \<le> j \<Longrightarrow> j \<le> length b \<Longrightarrow> cstr (drop i (b [j := NUL])) = cstr (bslice i j b)"
proof (cases "j < length b")
  case True
  assume "i \<le> j" "j \<le> length b"
  have "drop i (b [j := NUL]) = bslice i j b @ NUL # drop (Suc j) b"
    using True \<open>i \<le> j\<close> by (simp add: upd_conv_take_nth_drop bslice_def drop_append drop_take)
  moreover have "cstr (x @ NUL # y) = cstr x" for x y by (induction x) (simp_all add: cstr_def)
  ultimately show ?thesis by simp
next
  case False
  assume "i \<le> j" "j \<le> length b"
  then show ?thesis using False by (simp add: bslice_def list_update_beyond)
qed

lemma pipe_header_step:
  assumes "pipe_room r" "r_status r = PIPE_READ" "r_cgi_status r = CGI_READ" "io_bounded env"
    and "pipe_step env (r, g) = (ret, r', g')"
  shows "(g' = g \<and> pipe_room r' \<and> r_status r' = PIPE_READ \<and> r_cgi_status r' = CGI_READ \<and> unsent r' = unsent r @ pipe_in env r) \<or>
    (pipe_in env r = [] \<and> (\<exists>r1. header_handed env (r, g) r1 (ret, r', g')))"
proof -
  let ?cut = "(r_buffer r) [r_header_end r := NUL]"
  have c: "cstr (drop (r_header_line r) ?cut) = cstr (unsent r)" "bslice (r_header_line r) (r_header_end r) ?cut = unsent r"
    using assms(1) cstr_update [of "r_header_line r" "r_header_end r" "r_buffer r"]
    by (simp_all add: unsent_def bslice_update pipe_room_def)
  have handed: "header_handed env (r, g) r1 (ret, r', g')"
    if "process_cgi_header env (r1, g) = (ret, r', g')" "r1 = r \<lparr> r_status := PIPE_WRITE, r_buffer := ?cut \<rparr> \<or>
      r1 = r \<lparr> r_status := PIPE_WRITE, r_cgi_status := CGI_CLOSE, r_buffer := ?cut \<rparr>" for r1
    using that assms(1) c by (auto simp: header_handed_def unsent_def pipe_room_def)
  show ?thesis
  proof (cases "r_header_end r = r_max_buffer_size r")
    case True
    then have "process_cgi_header env (r \<lparr> r_status := PIPE_WRITE, r_buffer := ?cut \<rparr>, g) = (ret, r', g')"
      using assms(2,3,5) by (simp add: pipe_step_def read_from_pipe_def)
    then show ?thesis using handed True by (intro disjI2 conjI exI) (auto simp: pipe_in_def)
  next
    case False
    then have n0: "r_max_buffer_size r - r_header_end r \<noteq> 0" using assms(1) by (simp add: pipe_room_def)
    note step = assms(5) [unfolded pipe_step_def read_from_pipe_def]
    show ?thesis
    proof (cases "e_read env (r_data_fd r) (r_max_buffer_size r - r_header_end r)")
      case (RD_data bs)
      let ?bs = "case r_cp_table r of None \<Rightarrow> bs | Some t \<Rightarrow> map (\<lambda>c. t ! uchar c) bs"
      have len: "length ?bs \<le> r_max_buffer_size r - r_header_end r"
        using RD_data assms(4) by (auto simp: io_bounded_def split: option.split)
      show ?thesis
      proof (cases bs)
        case Nil
        have "process_cgi_header env (r \<lparr> r_status := PIPE_WRITE, r_cgi_status := CGI_CLOSE, r_buffer := ?cut \<rparr>, g) = (ret, r', g')"
          using step assms(2,3) RD_data Nil n0 by (simp add: Let_def)
        moreover have "pipe_in env r = []" using RD_data Nil by (simp add: pipe_in_def split: option.split)
        ultimately show ?thesis using handed by blast
      next
        case (Cons c cs)
        then have r': "r' = r \<lparr> r_buffer := mem_write (r_buffer r) (r_header_end r) ?bs,
                                r_header_end := r_header_end r + length ?bs \<rparr>" "g' = g"
          using step assms(2,3) RD_data n0 by (auto simp: nls_convert_def split: option.splits)
        have "pipe_in env r = ?bs" using RD_data False assms(2) by (simp add: pipe_in_def)
        then show ?thesis
          using assms(1-3) len unfolding r'
          by (auto simp: pipe_room_def unsent_def bslice_mem_write simp del: length_map)
      qed
    qed (use step assms(1-3) n0 in \<open>auto simp: pipe_in_def\<close>)
  qed
qed

text \<open>What a run has done: the header is still read, or it was handed over and the rest was passed on.\<close>

definition piped :: "st \<Rightarrow> bytes \<Rightarrow> bytes \<Rightarrow> st \<Rightarrow> bool" where
  "piped st i out st' \<longleftrightarrow>
    (out = [] \<and> r_cgi_status (fst st') = CGI_READ \<and> unsent (fst st') = unsent (fst st) @ i) \<or>
    (\<exists>env r1 ret r2 g2 rest. process_cgi_header env (r1, snd st) = (ret, r2, g2) \<and>
       cstr (drop (r_header_line r1) (r_buffer r1)) = cstr (unsent r1) \<and> unsent (fst st) @ i = unsent r1 @ rest \<and>
       (if ret = 0 then rest = [] \<and> out = [] \<and> st' = (r2, g2)
        else unsent r2 @ rest = out @ unsent (fst st') \<and> pipe_ok (fst st')))"

lemma pipe_run_header:
  assumes "pipe_room r" "r_status r = PIPE_READ" "r_cgi_status r = CGI_READ" "\<forall>env \<in> set envs. io_bounded env"
    and "pipe_run envs (r, g) = (i, out, st')"
  shows "piped (r, g) i out st'"
  using assms
proof (induction envs arbitrary: r i out st')
  case Nil
  then show ?case by (auto simp: piped_def)
next
  case (Cons env envs)
  obtain ret r1 g1 where s: "pipe_step env (r, g) = (ret, r1, g1)" by (metis prod_cases3)
  have out0: "pipe_out env r = []" using Cons.prems(2) by (simp add: pipe_out_def)
  obtain i' out' st2 where rest: "pipe_run envs (r1, g1) = (i', out', st2)" by (metis prod_cases3)
  have res: "if ret = 0 then i = pipe_in env r \<and> out = [] \<and> st' = (r1, g1) else i = pipe_in env r @ i' \<and> out = out' \<and> st' = st2"
    using Cons.prems(5) s rest out0 by (auto simp: Let_def split: if_splits)
  have io: "io_bounded env" "\<forall>env \<in> set envs. io_bounded env" using Cons.prems(4) by simp_all
  from pipe_header_step [OF Cons.prems(1-3) io(1) s] show ?case
  proof (elim disjE conjE exE)
    assume h: "g1 = g" "pipe_room r1" "r_status r1 = PIPE_READ" "r_cgi_status r1 = CGI_READ" "unsent r1 = unsent r @ pipe_in env r"
    show ?thesis
    proof (cases "ret = 0")
      case True
      then show ?thesis using res h by (simp add: piped_def)
    next
      case False
      have "piped (r1, g) i' out' st2" by (rule Cons.IH [OF h(2-4) io(2)]) (use rest h(1) in simp)
      then show ?thesis using res False h(5) by (simp add: piped_def)
    qed
  next
    fix q assume h: "pipe_in env r = []" "header_handed env (r, g) q (ret, r1, g1)"
    then have p: "process_cgi_header env (q, g) = (ret, r1, g1)" "unsent q = unsent r"
      "cstr (drop (r_header_line q) (r_buffer q)) = cstr (unsent q)" "pipe_room q" "r_status q = PIPE_WRITE"
      by (simp_all add: header_handed_def)
    have tail: "if ret = 0 then i = [] \<and> out = [] \<and> st' = (r1, g1) else unsent r1 @ i = out @ unsent (fst st') \<and> pipe_ok (fst st')"
    proof (cases "ret = 0")
      case False
      have "pipe_ok r1" by (rule process_cgi_header_pipe [OF p(4,5,3,1) False])
      then show ?thesis using pipe_run_transfers [OF _ io(2)] rest res h(1) False by (cases st2) fastforce
    qed (use res h(1) in simp)
    show ?thesis unfolding piped_def
      by (intro disjI2 exI [of _ env] exI [of _ q] exI [of _ ret] exI [of _ r1] exI [of _ g1] exI [of _ i] conjI)
         (use p tail in simp_all)
  qed
qed

text \<open>C19: However reads from the program and writes to the client of a CGI request alternate,
  and however short each of them is, the client gets the bytes of the program (converted to its code
  page) in their order, none lost and none sent twice: what was sent followed by what still waits in the
  buffer is what waited before followed by what was read.  This holds from the moment on at which the
  header of the output is done with (\<open>cgi_status\<close> is not \<open>CGI_READ\<close>).  A run that starts earlier, as \<open>init_cgi\<close>
  leaves the request, first sends nothing and gathers what it reads; then \<open>process_cgi_header\<close> gets exactly
  the bytes gathered, and what it leaves waiting is passed on in the same way, or, when it returns 0, the
  run ends with its answer.\<close>

theorem pipe_transfers:
  assumes "pipe_room r" "r_status r \<in> {PIPE_READ, PIPE_WRITE}" "r_cgi_status r = CGI_READ \<longrightarrow> r_status r = PIPE_READ"
    and "\<forall>env \<in> set envs. io_bounded env" "pipe_run envs (r, g) = (i, out, r', g')"
  shows "if r_cgi_status r \<noteq> CGI_READ then unsent r @ i = out @ unsent r' \<and> pipe_ok r'
    else (out = [] \<and> r_cgi_status r' = CGI_READ \<and> unsent r' = unsent r @ i) \<or>
      (\<exists>env r1 ret r2 g2 rest. process_cgi_header env (r1, g) = (ret, r2, g2) \<and>
        cstr (drop (r_header_line r1) (r_buffer r1)) = cstr (unsent r1) \<and> unsent r @ i = unsent r1 @ rest \<and>
        (if ret = 0 then rest = [] \<and> out = [] \<and> (r', g') = (r2, g2)
         else unsent r2 @ rest = out @ unsent r' \<and> pipe_ok r'))"
proof (cases "r_cgi_status r = CGI_READ")
  case True
  then show ?thesis
    using pipe_run_header [OF assms(1) _ True assms(4,5)] assms(3) by (simp only: piped_def fst_conv snd_conv simp_thms if_False)
next
  case False
  then have "pipe_ok r" using assms(1,2) by (simp add: pipe_ok_def pipe_room_def)
  then show ?thesis using pipe_run_transfers [OF _ assms(4,5)] False by simp
qed

definition sample_pipe :: "read_result \<Rightarrow> io_result \<Rightarrow> env" where
  "sample_pipe rd wt = sample_env \<lparr> e_read := \<lambda>_ n. (if n < 3 then RD_again else rd),
     e_write := \<lambda>_ bs. (case wt of IO_ok n \<Rightarrow> if length bs < n then IO_again else wt | _ \<Rightarrow> wt) \<rparr>"

theorem pipe_transfers_witness:
  "fst (snd (pipe_run
     [sample_pipe (RD_data ''abc'') IO_err, sample_pipe (RD_data []) IO_err, sample_pipe RD_again (IO_ok 2),
      sample_pipe RD_again IO_again]
     (fresh_request 8 \<lparr> r_status := PIPE_READ, r_cgi_status := CGI_WRITE \<rparr>, globals_init))) = ''ab''"
proof -
  let ?r = "fresh_request 8 \<lparr> r_status := PIPE_READ, r_cgi_status := CGI_WRITE \<rparr>"
  let ?envs = "[sample_pipe (RD_data ''abc'') IO_err, sample_pipe (RD_data []) IO_err,
    sample_pipe RD_again (IO_ok 2), sample_pipe RD_again IO_again]"
  have b: "\<forall>env \<in> set ?envs. io_bounded env"
    by (auto simp: io_bounded_def sample_pipe_def split: if_splits io_result.splits)
  obtain i out r' g' where run: "pipe_run ?envs (?r, globals_init) = (i, out, r', g')" by (metis prod_cases4)
  have "i = ''abc'' \<and> unsent r' = ''c''"
    using run by (simp add: pipe_step_def read_from_pipe_def write_from_pipe_def fresh_request_def
        blank_request_def sample_pipe_def pipe_in_def pipe_out_def unsent_def bslice_def mem_write_def
        numeral_eq_Suc) auto
  moreover have "unsent ?r @ i = out @ unsent r'"
    using pipe_transfers [OF _ _ _ b run] by (simp add: pipe_room_def fresh_request_def blank_request_def)
  ultimately show ?thesis
    using run by (simp add: unsent_def fresh_request_def blank_request_def)
qed

end
