(* ===== verification/Logline.thy ===== *)
theory Logline
  imports Cgi
begin

text \<open>
  The lines of a request header (\<open>src/src/request.c\<close>): the request line (\<open>request_type\<close>,
  \<open>process_logline\<close>) and the option lines (\<open>process_option_line\<close>).  The lines are read in place: a line
  is the C string at \<open>header_line\<close> of \<open>client_stream\<close>, \<open>header_end\<close> is its end.  A value kept in the
  request is the string the code's pointer refers to.
\<close>

section \<open>The request line\<close>

definition request_types :: "(string \<times> http_method) list" where
  "request_types = [(''GET '', M_GET), (''POST '', M_POST), (''HEAD '', M_HEAD)]"

fun request_type_loop :: "(string \<times> http_method) list \<Rightarrow> bool \<Rightarrow> request \<Rightarrow> http_method" where
  "request_type_loop [] max_out req = (if max_out then M_SHORT else M_INVALID)"
| "request_type_loop ((str, type) # ts) max_out req =
    (if r_client_stream_pos req < length str then request_type_loop ts True req
     else if take (length str) (r_client_stream req) = str then type
     else request_type_loop ts max_out req)"

definition request_type :: "request \<Rightarrow> http_method" where
  "request_type req = request_type_loop request_types False req"

definition line_text :: "request \<Rightarrow> string" where
  "line_text req = cstr (drop (r_header_line req) (r_client_stream req))"

definition http_fmt :: "directive list" where
  "http_fmt = map D_lit ''HTTP/'' @ [D_int, D_lit (CHR ''.''), D_int]"

definition http_version_ok :: "string \<Rightarrow> bool" where
  "http_version_ok s = (case sscanf s http_fmt of [C_int p1, C_int p2] \<Rightarrow> p1 \<ge> 1 | _ \<Rightarrow> False)"

definition SIMPLE_HTTP_VERSION :: string where "SIMPLE_HTTP_VERSION = ''HTTP/0.9''"

definition bad_line :: "env \<Rightarrow> st \<Rightarrow> int \<times> st" where
  "bad_line env st = (0, send_r_bad_request env st)"

definition process_logline :: "env \<Rightarrow> st \<Rightarrow> int \<times> st" where
  "process_logline env st =
    (let (req, g) = st; logline = line_text req;
         req = req \<lparr> r_logline := Some logline, r_method := request_type req \<rparr>
     in if r_method req = M_INVALID \<or> r_method req = M_SHORT then bad_line env (req, g)
        else
          let stop = (if char_at logline 3 \<noteq> CHR '' '' then 4 else 3);
              text = dropWhile (\<lambda>c. c = CHR '' '') (drop (stop + 1) logline);
              uri = takeWhile (\<lambda>c. c \<noteq> CHR '' '') text;
              text2 = dropWhile (\<lambda>c. c \<noteq> CHR '' '') text
          in if length uri > MAX_HEADER_LENGTH then bad_line env (req, g)
             else
               let req = req \<lparr> r_request_uri := uri \<rparr> in
               if text2 \<noteq> [] \<and> \<not> http_version_ok (tl text2) then bad_line env (req, g)
               else
                 let req = (if text2 \<noteq> [] then req \<lparr> r_http_version := Some (tl text2), r_simple := False \<rparr>
                            else req \<lparr> r_http_version := Some SIMPLE_HTTP_VERSION, r_simple := True \<rparr>)
                 in if r_method req = M_HEAD \<and> r_simple req then bad_line env (req, g)
                    else (1, create_env (e_cfg env) req, g))"

section \<open>The option lines\<close>

text \<open>The line is removed from \<open>client_stream\<close> and the bytes behind it move up.\<close>

definition eat_line :: "request \<Rightarrow> nat \<times> request" where
  "eat_line req =
    (let throw = r_header_end req - r_header_line req + 1
     in (throw,
         req \<lparr> r_client_stream := mem_write (r_client_stream req) (r_header_line req)
                 (bslice (r_header_end req + 1) CLIENT_STREAM_SIZE (r_client_stream req)),
               r_client_stream_pos := r_client_stream_pos req - throw \<rparr>))"

text \<open>\<open>memcmp\<close> with the name and its terminating zero byte compares the names; for \<open>COOKIE\<close> the zero
  byte is left out.\<close>

definition header_is :: "string \<Rightarrow> string \<Rightarrow> bool" where
  "header_is line name \<longleftrightarrow> line = name"

definition header_starts :: "string \<Rightarrow> string \<Rightarrow> bool" where
  "header_starts line name \<longleftrightarrow> prefix name line"

text \<open>What a header sets: the first one of a name that the server knows is kept, \<open>Connection\<close> ends a
  persistent connection, every other one (\<open>None\<close>) goes to the CGI environment.\<close>

definition known_header :: "config \<Rightarrow> string \<Rightarrow> string \<Rightarrow> request \<Rightarrow> request option" where
  "known_header cfg name val req =
    (if header_is name ''IF_MODIFIED_SINCE'' \<and> r_if_modified_since req = None
     then Some (req \<lparr> r_if_modified_since := Some val \<rparr>)
     else if header_is name ''CONTENT_TYPE'' \<and> r_content_type req = None
     then Some (req \<lparr> r_content_type := Some val \<rparr>)
     else if header_is name ''CONTENT_LENGTH'' \<and> r_content_length req = None \<and> atoi val \<ge> 0
     then Some (req \<lparr> r_content_length := Some val \<rparr>)
     else if header_is name ''HOST'' \<and> r_host req = None then Some (req \<lparr> r_host := Some val \<rparr>)
     else if header_is name ''REFERER'' \<and> r_referer req = None then Some (req \<lparr> r_referer := Some val \<rparr>)
     else if header_is name ''AUTHORIZATION'' \<and> r_authorization req = None
     then Some (req \<lparr> r_authorization := Some val \<rparr>)
     else if header_is name ''USER_AGENT'' \<and> r_user_agent req = None then Some (req \<lparr> r_user_agent := Some val \<rparr>)
     else if header_starts name ''COOKIE'' \<and> r_cookie req = None then Some (req \<lparr> r_cookie := Some val \<rparr>)
     else if header_is name ''CONNECTION'' \<and> ka_max cfg \<noteq> 0 \<and> r_keepalive req \<noteq> KA_STOPPED
     then Some (req \<lparr> r_keepalive := KA_STOPPED \<rparr>)
     else None)"

definition process_option_line :: "config \<Rightarrow> request \<Rightarrow> nat \<times> request" where
  "process_option_line cfg req =
    (let line = line_text req in
     case strchr line (CHR '':'') of
       None \<Rightarrow> (0, req)
     | Some i \<Rightarrow>
         (let name = to_upper (take i line);
              val = dropWhile (\<lambda>c. c = CHR '' '' \<or> c = CHR 0x09) (drop (i + 1) line);
              req = req \<lparr> r_client_stream := mem_write (r_client_stream req) (r_header_line req) (name @ [NUL]) \<rparr>
          in case known_header cfg name val req of
               Some req' \<Rightarrow> (0, req')
             | None \<Rightarrow> eat_line (add_cgi_env name val req)))"

section \<open>Requests lines of the usual form\<close>

definition uri_ok :: "string \<Rightarrow> bool" where
  "uri_ok uri \<longleftrightarrow> uri \<noteq> [] \<and> CHR '' '' \<notin> set uri \<and> length uri \<le> MAX_HEADER_LENGTH"

fun method_text :: "http_method \<Rightarrow> string" where
  "method_text M_GET = ''GET ''"
| "method_text M_POST = ''POST ''"
| "method_text M_HEAD = ''HEAD ''"
| "method_text _ = []"

lemma request_type_text:
  assumes "m \<in> {M_GET, M_POST, M_HEAD}" "take (length (method_text m)) (r_client_stream req) = method_text m"
    and "5 \<le> r_client_stream_pos req"
  shows "request_type req = m"
proof -
  have "take 1 (r_client_stream req) = take 1 (method_text m)"
    using arg_cong [OF assms(2), of "take 1"] assms(1) by auto
  then have "take n (r_client_stream req) \<noteq> c # cs" if "n > 0" "c \<noteq> hd (method_text m)" for n c cs
    using that assms(1) by (cases "r_client_stream req"; cases n) auto
  then show ?thesis using assms by (auto simp: request_type_def request_types_def)
qed

lemma http_fmt_version: "http_version_ok (''HTTP/'' @ digs a @ ''.'' @ digs b) \<longleftrightarrow> a \<ge> 1"
proof -
  have sp: "dropWhile is_space (digs n @ s) = digs n @ s" for n s
    using digs_digits [of n] by (cases "digs n") (auto simp: is_digit_def is_space_def)
  have sc: "scan_int (digs n @ s) = Some (int n, s)" if "s = [] \<or> \<not> is_digit (hd s)" for n s
  proof -
    have tw: "takeWhile is_digit (digs n @ s) = digs n" "dropWhile is_digit (digs n @ s) = s"
      using digs_digits [of n] that by (cases s; auto simp: takeWhile_append dropWhile_append)+
    obtain d ds where d: "digs n = d # ds" by (cases "digs n") auto
    then have "d \<noteq> CHR ''-''" "d \<noteq> CHR ''+''"
      using digs_digits [of n] by (auto simp: is_digit_def uchar_def)
    then show ?thesis
      using tw d sp [of n s] digits_val_digs [of n] digs_digits [of n] by (simp add: scan_int_def Let_def)
  qed
  show ?thesis
    using sc [of "CHR ''.'' # digs b" a] sc [of "[]" b]
    by (simp add: http_version_ok_def http_fmt_def is_digit_def uchar_def)
qed

text \<open>The parts of a request line.\<close>

definition request_line :: "http_method \<Rightarrow> string \<Rightarrow> string option \<Rightarrow> string" where
  "request_line m uri version =
    method_text m @ uri @ (case version of None \<Rightarrow> [] | Some v \<Rightarrow> CHR '' '' # v)"

lemma split_words:
  assumes "c \<notin> set w" "w \<noteq> []"
  shows "dropWhile (\<lambda>d. d = c) (w @ c # v) = w @ c # v" "dropWhile (\<lambda>d. d = c) w = w"
    "takeWhile (\<lambda>d. d \<noteq> c) (w @ c # v) = w" "dropWhile (\<lambda>d. d \<noteq> c) (w @ c # v) = c # v"
    "takeWhile (\<lambda>d. d \<noteq> c) w = w" "dropWhile (\<lambda>d. d \<noteq> c) w = []"
proof -
  have ne: "\<forall>d\<in>set w. d \<noteq> c" using assms(1) by auto
  obtain d u where w: "w = d # u" "d \<noteq> c" using assms by (cases w) auto
  show "dropWhile (\<lambda>d. d = c) (w @ c # v) = w @ c # v" "dropWhile (\<lambda>d. d = c) w = w"
    by (simp_all add: w)
  show "takeWhile (\<lambda>d. d \<noteq> c) (w @ c # v) = w" "dropWhile (\<lambda>d. d \<noteq> c) (w @ c # v) = c # v"
    "takeWhile (\<lambda>d. d \<noteq> c) w = w" "dropWhile (\<lambda>d. d \<noteq> c) w = []"
    using ne by (simp_all add: takeWhile_append2 dropWhile_append2)
qed

lemma logline_words:
  assumes "m \<in> {M_GET, M_POST, M_HEAD}" "uri_ok uri"
  shows "char_at (request_line m uri v) 3 \<noteq> CHR '' '' \<longleftrightarrow> m \<noteq> M_GET"
    "drop ((if m \<noteq> M_GET then 4 else 3) + 1) (request_line m uri v) = uri @ (case v of None \<Rightarrow> [] | Some v \<Rightarrow> CHR '' '' # v)"
proof -
  obtain c w where w: "uri = c # w" "c \<noteq> CHR '' ''" using assms(2) by (cases uri) (auto simp: uri_ok_def)
  consider "m = M_GET" | "m = M_POST" | "m = M_HEAD" using assms(1) by auto
  then show "char_at (request_line m uri v) 3 \<noteq> CHR '' '' \<longleftrightarrow> m \<noteq> M_GET"
    "drop ((if m \<noteq> M_GET then 4 else 3) + 1) (request_line m uri v) =
       uri @ (case v of None \<Rightarrow> [] | Some v \<Rightarrow> CHR '' '' # v)"
    by (cases; simp add: request_line_def char_at_def w(1))+
qed

lemma logline_parsed:
  assumes "m \<in> {M_GET, M_POST, M_HEAD}" "uri_ok uri"
    and "line_text req = request_line m uri version" "request_type req = m"
  defines "parsed \<equiv> req \<lparr> r_logline := Some (line_text req), r_method := m, r_request_uri := uri \<rparr>"
  shows "process_logline env (req, g) =
    (case version of
       Some v \<Rightarrow>
         if http_version_ok v
         then (1, create_env (e_cfg env) (parsed \<lparr> r_http_version := Some v, r_simple := False \<rparr>), g)
         else (0, send_r_bad_request env (parsed, g))
     | None \<Rightarrow>
         let simple = parsed \<lparr> r_http_version := Some SIMPLE_HTTP_VERSION, r_simple := True \<rparr>
         in if m = M_HEAD then (0, send_r_bad_request env (simple, g))
            else (1, create_env (e_cfg env) simple, g))"
proof -
  have m: "m \<noteq> M_INVALID" "m \<noteq> M_SHORT" using assms(1) by auto
  have u: "CHR '' '' \<notin> set uri" "uri \<noteq> []" "\<not> MAX_HEADER_LENGTH < length uri"
    using assms(2) by (auto simp: uri_ok_def)
  define line where "line = line_text req"
  define rest where "rest = (case version of None \<Rightarrow> [] | Some v \<Rightarrow> CHR '' '' # v)"
  have line: "dropWhile (\<lambda>c. c = CHR '' '') (drop ((if char_at line 3 \<noteq> CHR '' '' then 4 else 3) + 1) line) = uri @ rest"
    using logline_words [OF assms(1,2), of version] split_words [OF u(1,2)]
    by (cases version) (simp_all add: line_def assms(3) rest_def)
  have words: "takeWhile (\<lambda>c. c \<noteq> CHR '' '') (uri @ rest) = uri" "dropWhile (\<lambda>c. c \<noteq> CHR '' '') (uri @ rest) = rest"
    using split_words [OF u(1,2)] by (cases version; simp add: rest_def)+
  show ?thesis
    unfolding process_logline_def Let_def prod.case line_def [symmetric] line words assms(4) parsed_def
    using m u(3) by (cases version) (simp_all add: bad_line_def rest_def)
qed

text \<open>C37: A request line of the usual form is understood: the method, the address up to the next blank
  and the version are those of the line, whatever they are, and the environment of a CGI program is
  set up.  A line without a version is a simple request, for which \<open>HEAD\<close> is refused; so is a version
  below 1.\<close>

theorem process_logline_parses:
  assumes "m \<in> {M_GET, M_POST, M_HEAD}" "uri_ok uri"
    and "line_text req = request_line m uri version" "request_type req = m"
  defines "parsed \<equiv> req \<lparr> r_logline := Some (line_text req), r_method := m, r_request_uri := uri \<rparr>"
  shows "process_logline env (req, g) =
    (case version of
       Some v \<Rightarrow>
         if http_version_ok v
         then (1, create_env (e_cfg env) (parsed \<lparr> r_http_version := Some v, r_simple := False \<rparr>), g)
         else (0, send_r_bad_request env (parsed, g))
     | None \<Rightarrow>
         let simple = parsed \<lparr> r_http_version := Some SIMPLE_HTTP_VERSION, r_simple := True \<rparr>
         in if m = M_HEAD then (0, send_r_bad_request env (simple, g))
            else (1, create_env (e_cfg env) simple, g))"
  unfolding parsed_def by (rule logline_parsed [OF assms(1-4)])

definition sample_line :: request where
  "sample_line = blank_request \<lparr> r_client_stream := ''GET /a HTTP/1.0'' @ [NUL], r_client_stream_pos := 15 \<rparr>"

theorem process_logline_parses_witness:
  "fst (process_logline sample_env (sample_line, globals_init)) = 1 \<and>
   r_request_uri (fst (snd (process_logline sample_env (sample_line, globals_init)))) = ''/a''"
proof -
  have d: "digs 1 = ''1''" "digs (Suc 0) = ''1''" "digs 0 = ''0''" by (simp_all add: digs.simps char_eval)
  have t: "line_text sample_line = request_line M_GET ''/a'' (Some (''HTTP/'' @ digs 1 @ ''.'' @ digs 0))"
    by (simp add: line_text_def sample_line_def blank_request_def cstr_def request_line_def d)
  have r: "request_type sample_line = M_GET"
    by (simp add: request_type_def request_types_def sample_line_def blank_request_def)
  have u: "uri_ok ''/a''" by (simp add: uri_ok_def MAX_HEADER_LENGTH_def)
  have "process_logline sample_env (sample_line, globals_init) =
    (case Some (''HTTP/'' @ digs 1 @ ''.'' @ digs 0) of
       Some v \<Rightarrow>
         if http_version_ok v
         then (1, create_env (e_cfg sample_env) (sample_line \<lparr> r_logline := Some (line_text sample_line),
                r_method := M_GET, r_request_uri := ''/a'', r_http_version := Some v, r_simple := False \<rparr>), globals_init)
         else (0, send_r_bad_request sample_env (sample_line \<lparr> r_logline := Some (line_text sample_line),
                r_method := M_GET, r_request_uri := ''/a'' \<rparr>, globals_init))
     | None \<Rightarrow> undefined)"
    using process_logline_parses [OF _ u t r, of sample_env globals_init] by simp
  then show ?thesis
    using http_fmt_version [of 1 0] by (simp add: create_env_def)
qed

end
