(* ===== verification/Alias.thy ===== *)
theory Alias
  imports Response
begin

text \<open>
  Aliases and the translation of a URI into a path: \<open>src/src/alias.c\<close>, with the code pages chosen by
  URL, by browser and by referer from \<open>src/src/nls.c\<close>.  \<open>translate_uri\<close> is cut into the steps of
  the C function; each error answer returns 0 after sending its response.
\<close>

definition ALIAS_HASHTABLE_SIZE :: nat where "ALIAS_HASHTABLE_SIZE = 17"
definition CODEPAGE_HASHTABLE_SIZE :: int where "CODEPAGE_HASHTABLE_SIZE = 47"

section \<open>The table of aliases\<close>

text \<open>The first byte counts as a signed character, the rest up to a slash as unsigned ones, in 32 bit
  arithmetic.  An empty URI matches no alias, so the value for it is not looked at.\<close>

definition get_alias_hash_value :: "string \<Rightarrow> nat" where
  "get_alias_hash_value file =
    (let first = (case file of [] \<Rightarrow> 0 | c # _ \<Rightarrow> nat (schar c mod 2 ^ 32));
         rest = takeWhile (\<lambda>c. c \<noteq> CHR ''/'') (drop 1 file)
     in fold (\<lambda>c hash. (hash + uchar c) mod 2 ^ 32) rest first mod ALIAS_HASHTABLE_SIZE)"

text \<open>The walk of \<open>add_alias\<close>: \<open>while (old->next)\<close> looks at every entry but the last.\<close>

fun alias_append :: "string \<Rightarrow> alias_rec \<Rightarrow> alias_rec list \<Rightarrow> alias_rec list" where
  "alias_append fakename new [] = [new]"
| "alias_append fakename new [old] = [old, new]"
| "alias_append fakename new (old # nxt # rest) =
    (if fakename = a_fakename old then old # nxt # rest
     else old # alias_append fakename new (nxt # rest))"

definition new_alias :: "string \<Rightarrow> string \<Rightarrow> alias_type \<Rightarrow> alias_rec" where
  "new_alias fakename realname ty =
    \<lparr> a_fakename = fakename, a_realname = realname, a_type = ty,
      a_fake_len = length fakename, a_real_len = length realname \<rparr>"

text \<open>The type of a code page entry is not initialised and not read; here it is \<open>ALIAS\<close>.\<close>

definition add_cp_url :: "string \<Rightarrow> string \<Rightarrow> tables \<Rightarrow> tables" where
  "add_cp_url fakename0 codepage t =
    (let fakename = (if fakename0 \<noteq> [] \<and> last fakename0 = CHR ''/'' then butlast fakename0 else fakename0);
         hash = get_alias_hash_value fakename
     in t \<lparr> cp_url_hashtable := (cp_url_hashtable t)
          (hash := alias_append fakename (new_alias fakename codepage ALIAS) (cp_url_hashtable t hash)) \<rparr>)"

definition add_alias :: "string \<Rightarrow> string \<Rightarrow> alias_type \<Rightarrow> tables \<Rightarrow> tables" where
  "add_alias fakename realname ty t =
    (let hash = get_alias_hash_value fakename
     in t \<lparr> alias_hashtable := (alias_hashtable t)
          (hash := alias_append fakename (new_alias fakename realname ty) (alias_hashtable t hash)) \<rparr>)"

definition chroot_aliases :: "config \<Rightarrow> tables \<Rightarrow> tables" where
  "chroot_aliases cfg t =
    (case server_chroot cfg of
       None \<Rightarrow> t
     | Some root \<Rightarrow>
         t \<lparr> alias_hashtable := (\<lambda>hash.
           if hash < ALIAS_HASHTABLE_SIZE
           then map (\<lambda>a. if a_type a \<noteq> REDIRECT then a \<lparr> a_realname := cut_prefix root (a_realname a) \<rparr> else a)
                  (alias_hashtable t hash)
           else alias_hashtable t hash) \<rparr>)"

definition dump_alias :: "tables \<Rightarrow> tables" where
  "dump_alias t = t \<lparr> alias_hashtable :=
     (\<lambda>i. if i < ALIAS_HASHTABLE_SIZE then [] else alias_hashtable t i) \<rparr>"

text \<open>The walk along a chain: the first entry whose fake name is a prefix of the URI is taken when the
  prefix ends at a path component, and ends the search without a result otherwise.\<close>

fun alias_walk :: "alias_rec list \<Rightarrow> string \<Rightarrow> alias_rec option" where
  "alias_walk [] uri = None"
| "alias_walk (a # rest) uri =
    (if prefix (a_fakename a) uri then
       (if \<not> (a_fakename a \<noteq> [] \<and> last (a_fakename a) = CHR ''/'') \<and>
           char_at uri (a_fake_len a) \<noteq> CHR ''/'' \<and> char_at uri (a_fake_len a) \<noteq> NUL
        then None else Some a)
     else alias_walk rest uri)"

section \<open>Code pages\<close>

definition get_cp_hash_value :: "string \<Rightarrow> int" where
  "get_cp_hash_value name = fold (\<lambda>c hash. hash + schar c) name 0 smod CODEPAGE_HASHTABLE_SIZE"

text \<open>The contents of the file are a parameter: \<open>None\<close> when it cannot be opened; a table is read
  when the file has at least 256 bytes.\<close>

definition nls_load_codepage :: "(string \<Rightarrow> bytes option) \<Rightarrow> string \<Rightarrow> string \<Rightarrow> tables \<Rightarrow> tables" where
  "nls_load_codepage files name filename t =
    (let hash = get_cp_hash_value name; chain = cp_hashtable t hash in
     if name \<in> fst ` set chain then t
     else case files filename of
       None \<Rightarrow> t
     | Some bs \<Rightarrow>
         if length bs < 256 then t
         else t \<lparr> cp_hashtable := (cp_hashtable t) (hash := (name, take 256 bs) # chain) \<rparr>)"

definition nls_get_table :: "tables \<Rightarrow> string \<Rightarrow> bytes option" where
  "nls_get_table t name = map_of (cp_hashtable t (get_cp_hash_value name)) name"

definition nls_get_cp_hash_value :: "string \<Rightarrow> nat" where
  "nls_get_cp_hash_value file = get_alias_hash_value file"

definition nls_try_redirect :: "env \<Rightarrow> st \<Rightarrow> int \<times> st" where
  "nls_try_redirect env st =
    (let (req, g) = st; cfg = e_cfg env in
     case r_referer req of
       None \<Rightarrow> (1, st)
     | Some referer \<Rightarrow>
         if length referer < 7 \<or> \<not> strneq 7 referer ''http://'' then (1, st)
         else
           let url = dropWhile (\<lambda>c. c \<noteq> CHR ''/'') (drop 7 referer) in
           if url = [] then (1, st)
           else case alias_walk (cp_url_hashtable (g_tab g) (nls_get_cp_hash_value url)) url of
             None \<Rightarrow> (1, st)
           | Some current \<Rightarrow>
               let host = opt (server_name cfg) (r_host req);
                   buffer = ''http://'' @ host @
                     (if server_port cfg \<noteq> 80 then '':'' @ show_int (server_port cfg) else []) @
                     a_fakename current @ ''/'' @ drop 1 (r_request_uri req)
               in (0, send_redirect_perm env buffer st))"

definition add_cp_brows :: "string \<Rightarrow> string \<Rightarrow> tables \<Rightarrow> tables" where
  "add_cp_brows browsermatch codepage t =
    t \<lparr> cp_browsers := (browsermatch, codepage) # cp_browsers t \<rparr>"

definition nls_set_codepage :: "env \<Rightarrow> globals \<Rightarrow> request \<Rightarrow> request" where
  "nls_set_codepage env g req =
    (if \<not> strneq 5 (get_mime_type (e_cfg env) (g_tab g) (r_request_uri req)) ''text/''
     then req \<lparr> r_cp_table := None, r_send_charset := False \<rparr>
     else
       let req = (case (r_user_agent req, r_cp_name req) of
                    (Some ua, None) \<Rightarrow>
                      (case List.find (\<lambda>(m, _). strmatch ua m) (cp_browsers (g_tab g)) of
                         Some (_, cp) \<Rightarrow> req \<lparr> r_cp_name := Some cp \<rparr>
                       | None \<Rightarrow> req)
                  | _ \<Rightarrow> req)
       in case r_cp_name req of
            None \<Rightarrow> req
          | Some cp \<Rightarrow>
              if cp = ''no-conv'' then req \<lparr> r_cp_name := local_codepage (e_cfg env) \<rparr>
              else if cp = ''no-charset'' then req \<lparr> r_send_charset := False, r_cp_name := None \<rparr>
              else req \<lparr> r_cp_table := nls_get_table (g_tab g) cp \<rparr>)"

section \<open>Translating a URI\<close>

text \<open>An absolute URI loses its scheme and host.\<close>

definition uri_strip_host :: "string \<Rightarrow> string" where
  "uri_strip_host uri =
    (case (strncaseeq 7 uri ''http://'', strchr (drop 7 uri) (CHR ''/'')) of
       (True, Some i) \<Rightarrow> drop (7 + i) uri
     | _ \<Rightarrow> (case (strncaseeq 8 uri ''https://'', strchr (drop 8 uri) (CHR ''/'')) of
               (True, Some i) \<Rightarrow> drop (8 + i) uri
             | _ \<Rightarrow> uri))"

text \<open>The scan for the query: whether the last component before it starts with \<open>nph-\<close>, and the text
  after the question mark.\<close>

fun uri_scan :: "string \<Rightarrow> bool \<Rightarrow> bool \<times> string option" where
  "uri_scan [] is_nph = (is_nph, None)"
| "uri_scan (c # s) is_nph =
    (if c = CHR ''?'' then (is_nph, Some s)
     else uri_scan s (if c = CHR ''/'' then prefix ''nph-'' s else is_nph))"

definition uri_codepage :: "tables \<Rightarrow> request \<Rightarrow> request" where
  "uri_codepage t req =
    (case alias_walk (cp_url_hashtable t (get_alias_hash_value (r_request_uri req))) (r_request_uri req) of
       None \<Rightarrow> req
     | Some a \<Rightarrow> req \<lparr> r_request_uri := drop (a_fake_len a) (r_request_uri req),
                      r_cp_name := Some (a_realname a) \<rparr>)"

text \<open>\<open>path_info\<close> and \<open>path_translated\<close> of a script: aliases first (as plain prefixes), then the
  user's directory, then the document root.  \<open>None\<close> when the user does not exist.\<close>

definition script_path_translated ::
  "env \<Rightarrow> tables \<Rightarrow> string \<Rightarrow> string option \<times> tables" where
  "script_path_translated env t path_info =
    (case List.find (\<lambda>a. prefix (a_fakename a) path_info) (alias_hashtable t (get_alias_hash_value path_info)) of
       Some a \<Rightarrow> (Some (a_realname a @ drop (a_fake_len a) path_info), t)
     | None \<Rightarrow>
         (case user_dir (e_cfg env) of
            Some ud \<Rightarrow>
              if char_at path_info 1 = CHR ''~'' then
                let rest = drop 2 path_info;
                    (home, t) = get_home_dir (e_cfg env) (e_getpwnam env)
                                  (takeWhile (\<lambda>c. c \<noteq> CHR ''/'') rest) t
                in (map_option (\<lambda>h. h @ ''/'' @ ud @ dropWhile (\<lambda>c. c \<noteq> CHR ''/'') rest) home, t)
              else (Some (document_root (e_cfg env) @ path_info), t)
          | None \<Rightarrow> (Some (document_root (e_cfg env) @ path_info), t)))"

text \<open>\<open>init_script_alias\<close> looks for the end of the script's name from the place after
  \<open>real_len\<close> on, past the terminating zero when nothing follows the alias: \<open>e_stack\<close> is what the
  stack holds there.\<close>

definition script_memory :: "env \<Rightarrow> request \<Rightarrow> alias_rec \<Rightarrow> bytes" where
  "script_memory env req current1 =
    (a_realname current1 @ drop (a_fake_len current1) (r_request_uri req)) @ [NUL] @ e_stack env"

definition script_index :: "bytes \<Rightarrow> nat \<Rightarrow> nat" where
  "script_index pathname real_len =
    real_len + 1 +
      length (takeWhile (\<lambda>c. c \<noteq> CHR ''/'' \<and> c \<noteq> NUL) (drop (real_len + 1) pathname))"

definition script_path_info :: "env \<Rightarrow> bytes \<Rightarrow> nat \<Rightarrow> st \<Rightarrow> bool \<times> st" where
  "script_path_info env mem index st =
    (let (req, g) = st in
     if char_at mem index = CHR ''/'' then
       let path_info = cstr (drop index mem);
           (tr, t) = script_path_translated env (g_tab g) path_info;
           req = req \<lparr> r_path_info := Some path_info \<rparr>;
           g = g \<lparr> g_tab := t \<rparr>
       in (case tr of
             None \<Rightarrow> (False, req, g)
           | Some p \<Rightarrow> (True, req \<lparr> r_path_translated := Some p \<rparr>, g))
     else (True, req, g))"

definition script_finish :: "env \<Rightarrow> string \<Rightarrow> st \<Rightarrow> int \<times> st" where
  "script_finish env pathname st =
    (let (req, g) = st in
     case e_stat env pathname of
       None \<Rightarrow>
         if r_method req = M_POST \<or> \<not> contains_str (r_request_uri req) ''.'' then (1, st)
         else (0, send_r_not_found env st)
     | Some sb \<Rightarrow>
         if \<not> st_isreg sb \<or> \<not> e_access_rx env pathname then (0, send_r_forbidden env st)
         else (1, req \<lparr> r_pathname := Some pathname, r_script_name := Some (r_request_uri req) \<rparr>, g))"

definition init_script_alias :: "env \<Rightarrow> st \<Rightarrow> alias_rec \<Rightarrow> int \<times> st" where
  "init_script_alias env st current1 =
    (let mem = script_memory env (fst st) current1;
         index = script_index mem (a_real_len current1);
         (found, st) = script_path_info env mem index st
     in if \<not> found then (0, send_r_not_found env st)
        else script_finish env (cstr (take index mem)) st)"

text \<open>The document root of the virtual host; a host that is not configured is forgotten, the local
  address takes its place when that is a configured one.\<close>

definition uri_vhost_root :: "env \<Rightarrow> tables \<Rightarrow> request \<Rightarrow> string \<times> request" where
  "uri_vhost_root env t req =
    (if virtualhost t then
       (case (case r_host req of None \<Rightarrow> None | Some h \<Rightarrow> get_virtual_host t h) of
          Some docroot \<Rightarrow> (docroot, req)
        | None \<Rightarrow>
            (let req = req \<lparr> r_host := None \<rparr> in
             case r_local_ip_addr req of
               None \<Rightarrow> (document_root (e_cfg env), req)
             | Some ip \<Rightarrow>
                 (case get_virtual_host t ip of
                    None \<Rightarrow> (document_root (e_cfg env), req)
                  | Some docroot \<Rightarrow> (docroot, req \<lparr> r_host := Some ip \<rparr>))))
     else (document_root (e_cfg env), req))"

text \<open>The path when no alias matches: the directory of a user, or the document root of the virtual
  host; \<open>None\<close> after an error answer.\<close>

definition uri_docroot :: "env \<Rightarrow> st \<Rightarrow> string option \<times> st" where
  "uri_docroot env st =
    (let (req, g) = st; uri = r_request_uri req; ud = user_dir (e_cfg env) in
     if ud \<noteq> None \<and> char_at uri 1 = CHR ''~'' then
       let rest = drop 2 uri; p = dropWhile (\<lambda>c. c \<noteq> CHR ''/'') rest;
           (home, t) = get_home_dir (e_cfg env) (e_getpwnam env)
                         (takeWhile (\<lambda>c. c \<noteq> CHR ''/'') rest) (g_tab g);
           g = g \<lparr> g_tab := t \<rparr>
       in (case home of
             None \<Rightarrow> (None, send_r_not_found env (req, g))
           | Some h \<Rightarrow>
               if length h + 1 + length (opt [] ud) + length p > MAX_HEADER_LENGTH
               then (None, send_r_bad_request env (req, g))
               else (Some (h @ ''/'' @ opt [] ud @ p), req, g))
     else
       let (docroot, req) = uri_vhost_root env (g_tab g) req in (Some (docroot @ uri), req, g))"

definition CGI_MIME_TYPE :: string where "CGI_MIME_TYPE = ''application/x-httpd-cgi''"

text \<open>The last decision: a script, a POST to something else, or a file.\<close>

definition uri_classify :: "env \<Rightarrow> bool \<Rightarrow> string \<Rightarrow> st \<Rightarrow> int \<times> st" where
  "uri_classify env is_nph buffer st =
    (let (req, g) = st; req = req \<lparr> r_pathname := Some buffer \<rparr> in
     if contains_str (r_request_uri req) ''share.js''
     then (1, req \<lparr> r_is_cgi := CGI, r_script_name := Some (r_request_uri req) \<rparr>, g)
     else if get_mime_type (e_cfg env) (g_tab g) buffer = CGI_MIME_TYPE
     then (1, req \<lparr> r_is_cgi := (if is_nph then NPH else CGI), r_script_name := Some (r_request_uri req) \<rparr>, g)
     else if r_method req = M_POST then (0, send_r_not_found env (req, g))
     else (1, req, g))"

definition uri_alias :: "env \<Rightarrow> bool \<Rightarrow> alias_rec \<Rightarrow> st \<Rightarrow> int \<times> st" where
  "uri_alias env is_nph current st =
    (let (req, g) = st; buffer = a_realname current @ drop (a_fake_len current) (r_request_uri req) in
     case a_type current of
       SCRIPTALIAS \<Rightarrow>
         init_script_alias env (req \<lparr> r_is_cgi := (if is_nph then NPH else CGI) \<rparr>, g) current
     | REDIRECT \<Rightarrow> (0, send_redirect_temp env buffer st)
     | ALIAS \<Rightarrow> (1, req \<lparr> r_pathname := Some buffer \<rparr>, g))"

text \<open>The search for an alias, and the document root when there is none.\<close>

definition uri_route :: "env \<Rightarrow> bool \<Rightarrow> st \<Rightarrow> int \<times> st" where
  "uri_route env is_nph st =
    (let (req, g) = st in
     case alias_walk (alias_hashtable (g_tab g) (get_alias_hash_value (r_request_uri req)))
            (r_request_uri req) of
       Some current \<Rightarrow> uri_alias env is_nph current st
     | None \<Rightarrow>
         (case uri_docroot env st of
            (None, st) \<Rightarrow> (0, st)
          | (Some buffer, st) \<Rightarrow> uri_classify env is_nph buffer st))"

text \<open>The text after the first question mark becomes the query string.\<close>

definition uri_set_query :: "string \<Rightarrow> string option \<Rightarrow> request \<Rightarrow> request" where
  "uri_set_query uri query req =
    (case query of
       None \<Rightarrow> req
     | Some q \<Rightarrow> req \<lparr> r_request_uri := takeWhile (\<lambda>c. c \<noteq> CHR ''?'') uri, r_query_string := Some q \<rparr>)"

definition translate_uri :: "env \<Rightarrow> st \<Rightarrow> int \<times> st" where
  "translate_uri env st =
    (let (req, g) = st; req = req \<lparr> r_request_uri := uri_strip_host (r_request_uri req) \<rparr> in
     if r_request_uri req = ''/admentor/admin/'' then (0, send_r_bad_request env (req, g))
     else case unescape_uri (r_request_uri req) of
       None \<Rightarrow> (0, send_r_bad_request env (req, g))
     | Some uri \<Rightarrow>
         let uri = clean_pathname uri; req = req \<lparr> r_request_uri := uri \<rparr> in
         if char_at uri 0 \<noteq> CHR ''/'' then (0, send_r_not_found env (req, g))
         else
           let (is_nph, query) = uri_scan uri False;
               req = uri_set_query uri query req;
               req = uri_codepage (g_tab g) req
           in uri_route env is_nph (req, g))"

section \<open>Where a translated path can lie\<close>

text \<open>No empty, dot or dot-dot component between two slashes.\<close>

definition no_climb :: "string \<Rightarrow> bool" where
  "no_climb u \<longleftrightarrow> (\<forall>p \<in> {''//'', ''/./'', ''/../''}. \<not> sublist p u)"

lemma no_climb_sublist: "no_climb s \<Longrightarrow> sublist u s \<Longrightarrow> no_climb u"
  unfolding no_climb_def using sublist_order.order.trans by blast

lemma no_climb_clean: "no_climb (takeWhile (\<lambda>c. c \<noteq> CHR ''?'') (clean_pathname s))"
  unfolding no_climb_def clean_pathname_def
  using clean_sublist [OF clean_takeWhile [OF clean_clean_from [of False s]]] by simp

lemma set_skip_dots: "set (skip_dots s) \<subseteq> set s"
proof (induction s rule: skip_dots.induct)
  case (1 s)
  then show ?case by (subst skip_dots.simps) (auto dest: in_set_dropD)
qed

lemma set_clean: "set (clean_pathname s) \<subseteq> set s"
proof -
  have "set (clean_from b s) \<subseteq> set s" for b
  proof (induction b s rule: clean_from.induct)
    case (2 b c s)
    then show ?case using set_skip_dots [of s] by auto
  qed simp
  then show ?thesis by (simp add: clean_pathname_def)
qed

lemma sublist_dropWhile: "sublist (dropWhile P s) s"
  by (metis suffix_dropWhile suffix_imp_sublist)

lemma uri_scan_None: "snd (uri_scan s n) = None \<longleftrightarrow> CHR ''?'' \<notin> set s"
  by (induction s n rule: uri_scan.induct) auto

text \<open>The entries the configuration makes: lengths are right and the strings are C strings; the name of a
  code page has lost its slash.\<close>

definition ends_slash :: "string \<Rightarrow> bool" where
  "ends_slash s \<longleftrightarrow> s \<noteq> [] \<and> last s = CHR ''/''"

definition alias_ok :: "alias_rec \<Rightarrow> bool" where
  "alias_ok a \<longleftrightarrow> a_fake_len a = length (a_fakename a) \<and> a_real_len a = length (a_realname a) \<and>
     NUL \<notin> set (a_realname a)"

definition aliases_ok :: "tables \<Rightarrow> bool" where
  "aliases_ok t \<longleftrightarrow> (\<forall>h. \<forall>a \<in> set (alias_hashtable t h). alias_ok a) \<and>
     (\<forall>h. \<forall>a \<in> set (cp_url_hashtable t h). a_fake_len a = length (a_fakename a) \<and> \<not> ends_slash (a_fakename a))"

lemma set_alias_append: "set (alias_append f new xs) \<subseteq> insert new (set xs)"
  by (induction f new xs rule: alias_append.induct) auto

lemma aliases_ok_add: "aliases_ok t \<Longrightarrow> NUL \<notin> set r \<Longrightarrow> aliases_ok (add_alias f r ty t)"
  using set_alias_append
  by (fastforce simp: aliases_ok_def alias_ok_def add_alias_def new_alias_def Let_def)

lemma aliases_ok_add_cp:
  assumes "aliases_ok t" "\<not> suffix ''//'' f"
  shows "aliases_ok (add_cp_url f cp t)"
proof -
  have "\<not> ends_slash (if f \<noteq> [] \<and> last f = CHR ''/'' then butlast f else f)"
  proof
    assume a: "ends_slash (if f \<noteq> [] \<and> last f = CHR ''/'' then butlast f else f)"
    then have f: "f \<noteq> []" "last f = CHR ''/''" "ends_slash (butlast f)"
      by (auto simp: ends_slash_def split: if_splits)
    then have "f = butlast (butlast f) @ ''//''"
      by (metis append.assoc append_Cons append_Nil append_butlast_last_id ends_slash_def)
    then show False using assms(2) by (metis suffixI)
  qed
  then show ?thesis
    using assms(1) set_alias_append
    by (fastforce simp: aliases_ok_def add_cp_url_def new_alias_def Let_def)
qed

text \<open>The directories the configuration and the password file name.\<close>

definition configured_root :: "env \<Rightarrow> tables \<Rightarrow> string \<Rightarrow> bool" where
  "configured_root env t root \<longleftrightarrow>
     root = document_root (e_cfg env) \<or>
     (\<exists>h. root \<in> snd ` set (virtualhost_hashtable t h)) \<or>
     (\<exists>h. root \<in> a_realname ` set (alias_hashtable t h)) \<or>
     (\<exists>user home ud. e_getpwnam env user = Some home \<and> user_dir (e_cfg env) = Some ud \<and>
        root = home @ ''/'' @ ud)"

text \<open>What follows a directory's name stays below it: it begins where a component begins, and no
  component before a slash leads back up.  Behind the real name of an alias whose fake name ends in a slash
  the text goes on without a slash of its own, as for \<open>ScriptAlias /boaform/ /web\<close> of \<open>boa.conf\<close>.\<close>

definition joins_names :: "tables \<Rightarrow> string \<Rightarrow> bool" where
  "joins_names t root \<longleftrightarrow> (\<exists>h. \<exists>a \<in> set (alias_hashtable t h). a_realname a = root \<and> ends_slash (a_fakename a))"

definition stays_below :: "tables \<Rightarrow> string \<Rightarrow> string \<Rightarrow> bool" where
  "stays_below t root u \<longleftrightarrow> no_climb u \<and> \<not> prefix ''../'' u \<and>
     (u = [] \<or> hd u = CHR ''/'' \<or> ends_slash root \<or> joins_names t root)"

definition under_root :: "env \<Rightarrow> tables \<Rightarrow> string \<Rightarrow> bool" where
  "under_root env t path \<longleftrightarrow> (\<exists>root u. path = root @ u \<and> configured_root env t root \<and> stays_below t root u)"

lemma below_prefix: "stays_below t root u \<Longrightarrow> prefix v u \<Longrightarrow> stays_below t root v"
  unfolding stays_below_def
  using no_climb_sublist [of u v] prefix_imp_sublist [of v u] prefix_order.trans [of "''../''" v u]
  by (cases v; cases u) auto

lemma below_slash: "no_climb u \<Longrightarrow> u = [] \<or> hd u = CHR ''/'' \<Longrightarrow> stays_below t root u"
  by (cases u) (auto simp: stays_below_def)

lemma alias_walk_in: "alias_walk xs uri = Some a \<Longrightarrow> a \<in> set xs"
  by (induction xs uri rule: alias_walk.induct) (auto split: if_splits)

lemma alias_walk_cut:
  assumes "alias_walk xs uri = Some a" "a_fake_len a = length (a_fakename a)" "NUL \<notin> set uri"
  shows "\<exists>rest. uri = a_fakename a @ rest \<and> (rest = [] \<or> hd rest = CHR ''/'' \<or> ends_slash (a_fakename a))"
  using assms
proof (induction xs uri rule: alias_walk.induct)
  case (2 b xs uri)
  show ?case
  proof (cases "prefix (a_fakename b) uri")
    case True
    then obtain rest where uri: "uri = a_fakename b @ rest" by (auto simp: prefix_def)
    have "a = b" using 2(2) True by (simp split: if_splits)
    then have "ends_slash (a_fakename a) \<or> char_at uri (length (a_fakename a)) = CHR ''/'' \<or> char_at uri (length (a_fakename a)) = NUL"
      using 2(2,3) True by (auto simp: ends_slash_def split: if_splits)
    then have "rest = [] \<or> hd rest = CHR ''/'' \<or> ends_slash (a_fakename a)"
      using 2(4) uri \<open>a = b\<close> by (cases rest) (auto simp: char_at_def)
    then show ?thesis using uri \<open>a = b\<close> by blast
  qed (use 2 in simp)
qed simp

text \<open>Behind the real name stands what follows the fake name.\<close>

lemma alias_below:
  assumes "alias_walk (alias_hashtable t h) uri = Some a" "alias_ok a" "NUL \<notin> set uri" "no_climb uri"
  shows "stays_below t (a_realname a) (drop (a_fake_len a) uri)"
proof -
  obtain rest where r: "uri = a_fakename a @ rest" "rest = [] \<or> hd rest = CHR ''/'' \<or> ends_slash (a_fakename a)"
    using alias_walk_cut [OF assms(1) _ assms(3)] assms(2) by (auto simp: alias_ok_def)
  have d: "drop (a_fake_len a) uri = rest" using r(1) assms(2) by (simp add: alias_ok_def)
  have nc: "no_climb rest" using no_climb_sublist [OF assms(4)] r(1) by simp
  show ?thesis
  proof (cases "rest = [] \<or> hd rest = CHR ''/''")
    case True
    then show ?thesis using below_slash [OF nc] d by simp
  next
    case False
    then have e: "ends_slash (a_fakename a)" using r(2) by simp
    then obtain f where f: "a_fakename a = f @ ''/''"
      by (metis append_butlast_last_id ends_slash_def)
    have "\<not> prefix ''../'' rest"
    proof
      assume "prefix ''../'' rest"
      then obtain v where "uri = f @ ''/../'' @ v" using r(1) f by (auto simp: prefix_def)
      then have "sublist ''/../'' uri" by (metis sublist_appendI)
      then show False using assms(4) by (simp add: no_climb_def)
    qed
    moreover have "joins_names t (a_realname a)" using alias_walk_in [OF assms(1)] e by (auto simp: joins_names_def)
    ultimately show ?thesis using nc d by (simp add: stays_below_def)
  qed
qed

lemma get_virtual_host_in: "get_virtual_host t n = Some d \<Longrightarrow> \<exists>h. d \<in> snd ` set (virtualhost_hashtable t h)"
proof -
  have "chain_find eq k xs = Some d \<Longrightarrow> d \<in> snd ` set xs" for eq k and xs :: "(string \<times> string) list"
    by (induction eq k xs rule: chain_find.induct) (auto split: if_splits)
  then show "get_virtual_host t n = Some d \<Longrightarrow> \<exists>h. d \<in> snd ` set (virtualhost_hashtable t h)"
    unfolding get_virtual_host_def by blast
qed

lemma uri_vhost_root_root: "uri_vhost_root env t req = (d, req') \<Longrightarrow> configured_root env t d"
  using get_virtual_host_in
  by (auto simp: uri_vhost_root_def configured_root_def Let_def split: if_splits option.splits)

lemma uri_vhost_root_fields:
  "uri_vhost_root env t req = (d, req') \<Longrightarrow>
   r_pathname req' = r_pathname req \<and> r_request_uri req' = r_request_uri req \<and>
   r_method req' = r_method req \<and> r_response_status req' = r_response_status req"
  by (auto simp: uri_vhost_root_def Let_def split: if_splits option.splits)

lemma get_home_dir_some:
  "passwd_ok gp t \<Longrightarrow> get_home_dir cfg gp n t = (Some h, t') \<Longrightarrow> gp n = Some h"
  by (auto simp: get_home_dir_def passwd_ok_def Let_def split: if_splits option.splits
      dest!: chain_find_in)

lemma uri_docroot_under:
  assumes "uri_docroot env (req, g) = (Some path, req', g')" "no_climb (r_request_uri req)"
    "r_request_uri req = [] \<or> hd (r_request_uri req) = CHR ''/''" "passwd_ok (e_getpwnam env) (g_tab g)"
  shows "under_root env (g_tab g) path"
proof (cases "user_dir (e_cfg env) \<noteq> None \<and> char_at (r_request_uri req) 1 = CHR ''~''")
  case True
  let ?rest = "drop 2 (r_request_uri req)"
  obtain home t where h: "get_home_dir (e_cfg env) (e_getpwnam env)
      (takeWhile (\<lambda>c. c \<noteq> CHR ''/'') ?rest) (g_tab g) = (home, t)" by fastforce
  obtain h0 where h0: "home = Some h0"
    "path = h0 @ ''/'' @ opt [] (user_dir (e_cfg env)) @ dropWhile (\<lambda>c. c \<noteq> CHR ''/'') ?rest"
    using assms(1) True h by (auto simp: uri_docroot_def Let_def split: option.splits if_splits)
  have "sublist (dropWhile (\<lambda>c. c \<noteq> CHR ''/'') ?rest) (r_request_uri req)"
    using sublist_dropWhile sublist_drop sublist_order.order.trans by blast
  then have "no_climb (dropWhile (\<lambda>c. c \<noteq> CHR ''/'') ?rest)"
    using no_climb_sublist [OF assms(2)] by blast
  moreover have "dropWhile (\<lambda>c. c \<noteq> CHR ''/'') ?rest = [] \<or> hd (dropWhile (\<lambda>c. c \<noteq> CHR ''/'') ?rest) = CHR ''/''"
    using hd_dropWhile [of "\<lambda>c. c \<noteq> CHR ''/''" ?rest] by blast
  ultimately have nc: "stays_below t' root (dropWhile (\<lambda>c. c \<noteq> CHR ''/'') ?rest)" for t' root
    by (rule below_slash)
  have "e_getpwnam env (takeWhile (\<lambda>c. c \<noteq> CHR ''/'') ?rest) = Some h0"
    using get_home_dir_some [OF assms(4)] h h0(1) by blast
  then have "configured_root env (g_tab g) (h0 @ ''/'' @ opt [] (user_dir (e_cfg env)))"
    using True by (auto simp: configured_root_def)
  then show ?thesis
    unfolding under_root_def h0(2) by (intro exI conjI) (use nc in simp_all)
next
  case False
  obtain d r where v: "uri_vhost_root env (g_tab g) req = (d, r)" by fastforce
  then have "path = d @ r_request_uri req" using assms(1) False by (auto simp: uri_docroot_def Let_def)
  then show ?thesis using uri_vhost_root_root [OF v] below_slash [OF assms(2,3)] unfolding under_root_def by blast
qed

lemma cstr_append: "NUL \<notin> set a \<Longrightarrow> cstr (a @ b) = a @ cstr b"
  unfolding cstr_def by (rule takeWhile_append2) auto

lemma cstr_prefix: "prefix (cstr s) s"
  by (simp add: cstr_def takeWhile_is_prefix)

text \<open>The script's path keeps the whole real name and a beginning of what follows it.\<close>

lemma script_pathname:
  assumes "a_real_len a = length (a_realname a)" "NUL \<notin> set (a_realname a)" "a_real_len a < n"
  shows "\<exists>k. cstr (take n ((a_realname a @ rest) @ [NUL] @ junk)) = a_realname a @ cstr (take k rest)"
proof -
  have "take n ((a_realname a @ rest) @ [NUL] @ junk) =
        a_realname a @ take (n - length (a_realname a)) (rest @ [NUL] @ junk)"
    using assms(1,3) by simp
  moreover have "cstr (take m (rest @ NUL # junk)) = cstr (take m rest)" for m
  proof (cases "m \<le> length rest")
    case False
    have "cstr (rest @ NUL # u) = cstr rest" for u
      by (induction rest) (simp_all add: cstr_def)
    then show ?thesis using False by (simp add: take_Cons')
  qed simp
  ultimately have "cstr (take n ((a_realname a @ rest) @ [NUL] @ junk)) =
      a_realname a @ cstr (take (n - length (a_realname a)) rest)"
    by (simp only: cstr_append [OF assms(2)] append_Cons append_Nil)
  then show ?thesis by blast
qed

lemma below_part: "stays_below t root u \<Longrightarrow> stays_below t root (cstr (take k u))"
  using below_prefix prefix_order.trans [OF cstr_prefix take_is_prefix] by blast

lemma script_path_info_fields:
  "script_path_info env mem i (req, g) = (b, req', g') \<Longrightarrow> r_pathname req' = r_pathname req"
  by (auto simp: script_path_info_def Let_def split: if_splits prod.splits option.splits)

lemma script_path_info_cgi:
  "script_path_info env mem i (req, g) = (b, req', g') \<Longrightarrow> r_is_cgi req' = r_is_cgi req"
  by (auto simp: script_path_info_def Let_def split: if_splits prod.splits option.splits)

lemma init_script_alias_path:
  assumes "init_script_alias env (req, g) a = (1, req', g')"
    "stays_below (g_tab g) (a_realname a) (drop (a_fake_len a) (r_request_uri req))"
    "a \<in> set (alias_hashtable (g_tab g) h)" "aliases_ok (g_tab g)"
  shows "r_is_cgi req' = r_is_cgi req \<and> (r_pathname req' = r_pathname req \<or>
         (\<exists>path. r_pathname req' = Some path \<and> under_root env (g_tab g) path))"
proof -
  let ?rest = "drop (a_fake_len a) (r_request_uri req)"
  let ?mem = "script_memory env req a"
  let ?i = "script_index ?mem (a_real_len a)"
  have ok: "a_real_len a = length (a_realname a)" "NUL \<notin> set (a_realname a)"
    using assms(3,4) by (auto simp: aliases_ok_def alias_ok_def)
  have root: "configured_root env (g_tab g) (a_realname a)"
    using assms(3) by (auto simp: configured_root_def)
  have "a_real_len a < ?i" by (simp add: script_index_def)
  from script_pathname [OF ok this, of ?rest "e_stack env"]
  obtain k where k: "cstr (take ?i ?mem) = a_realname a @ cstr (take k ?rest)"
    unfolding script_memory_def by blast
  then have under: "under_root env (g_tab g) (cstr (take ?i ?mem))"
    using root below_part [OF assms(2), of k] unfolding under_root_def by blast
  obtain b r1 g1 where p: "script_path_info env ?mem ?i (req, g) = (b, r1, g1)"
    by (metis prod_cases3)
  have "script_finish env (cstr (take ?i ?mem)) (r1, g1) = (1, req', g')"
    using assms(1) p by (auto simp: init_script_alias_def Let_def split: if_splits)
  then have "r_is_cgi req' = r_is_cgi r1 \<and> (r_pathname req' = r_pathname r1 \<or> r_pathname req' = Some (cstr (take ?i ?mem)))"
    by (auto simp: script_finish_def Let_def split: if_splits option.splits)
  then show ?thesis using under script_path_info_fields [OF p] script_path_info_cgi [OF p] by auto
qed

lemma unescape_uri_NUL: "unescape_uri s = Some uri \<Longrightarrow> NUL \<notin> set uri"
  by (auto simp: unescape_uri_def cstr_def Let_def dest: set_takeWhileD)

lemma uri_codepage_facts:
  assumes "aliases_ok t" "no_climb (r_request_uri r)" "hd (r_request_uri r) = CHR ''/''" "NUL \<notin> set (r_request_uri r)"
  shows "no_climb (r_request_uri (uri_codepage t r)) \<and> NUL \<notin> set (r_request_uri (uri_codepage t r)) \<and>
    (r_request_uri (uri_codepage t r) = [] \<or> hd (r_request_uri (uri_codepage t r)) = CHR ''/'')"
proof (cases "alias_walk (cp_url_hashtable t (get_alias_hash_value (r_request_uri r))) (r_request_uri r)")
  case (Some a)
  have a: "a_fake_len a = length (a_fakename a)" "\<not> ends_slash (a_fakename a)"
    using assms(1) alias_walk_in [OF Some] by (auto simp: aliases_ok_def)
  then obtain rest where r: "r_request_uri r = a_fakename a @ rest" "rest = [] \<or> hd rest = CHR ''/''"
    using alias_walk_cut [OF Some a(1) assms(4)] by blast
  then have "r_request_uri (uri_codepage t r) = rest" using Some a by (simp add: uri_codepage_def)
  moreover have "no_climb rest" using no_climb_sublist [OF assms(2)] r(1) by simp
  ultimately show ?thesis using r assms(4) by simp
qed (use assms in \<open>simp add: uri_codepage_def\<close>)

lemma translate_uri_path:
  assumes "translate_uri env (req, g) = (1, req', g')" "r_pathname req = None"
    and ok: "aliases_ok (g_tab g)" "passwd_ok (e_getpwnam env) (g_tab g)"
  shows "(r_pathname req' = None \<and> r_is_cgi req' \<noteq> NOT_CGI) \<or>
         (\<exists>path. r_pathname req' = Some path \<and> under_root env (g_tab g) path)"
proof -
  obtain uri where uri: "unescape_uri (uri_strip_host (r_request_uri req)) = Some uri"
    using assms(1) by (auto simp: translate_uri_def Let_def split: if_splits option.splits)
  let ?uri = "clean_pathname uri"
  obtain nph query where q: "uri_scan ?uri False = (nph, query)" by fastforce
  let ?r1 = "uri_set_query ?uri query (req \<lparr> r_request_uri := ?uri \<rparr>)"
  let ?r2 = "uri_codepage (g_tab g) ?r1"
  have "r_request_uri ?r1 = takeWhile (\<lambda>c. c \<noteq> CHR ''?'') ?uri"
  proof (cases query)
    case None
    then have "\<forall>c \<in> set ?uri. c \<noteq> CHR ''?''" using uri_scan_None [of ?uri False] q by auto
    then have "takeWhile (\<lambda>c. c \<noteq> CHR ''?'') ?uri = ?uri" by (simp only: takeWhile_eq_all_conv)
    moreover have "r_request_uri ?r1 = ?uri" using None by (simp add: uri_set_query_def)
    ultimately show ?thesis by (simp only:)
  qed (simp add: uri_set_query_def)
  moreover have "char_at ?uri 0 = CHR ''/''"
    using assms(1) uri by (simp add: translate_uri_def Let_def split: if_splits)
  moreover have "NUL \<notin> set ?uri" using uri unescape_uri_NUL set_clean by blast
  ultimately have u1: "no_climb (r_request_uri ?r1)" "hd (r_request_uri ?r1) = CHR ''/''" "NUL \<notin> set (r_request_uri ?r1)"
    using no_climb_clean [of uri] by (cases ?uri; auto simp: char_at_def dest: set_takeWhileD)+
  then have u2: "no_climb (r_request_uri ?r2) \<and> NUL \<notin> set (r_request_uri ?r2) \<and>
      (r_request_uri ?r2 = [] \<or> hd (r_request_uri ?r2) = CHR ''/'')"
    by (rule uri_codepage_facts [OF ok(1)])
  then have nc: "no_climb (r_request_uri ?r2)" by blast
  have path: "r_pathname ?r2 = None"
    using assms(2) by (simp add: uri_codepage_def uri_set_query_def split: option.split)
  let ?walk = "alias_walk (alias_hashtable (g_tab g) (get_alias_hash_value (r_request_uri ?r2)))
                 (r_request_uri ?r2)"
  have step: "uri_route env nph (?r2, g) = (1, req', g')"
    using assms(1) uri q
    by (simp add: translate_uri_def Let_def split: if_splits)
  show ?thesis
  proof (cases ?walk)
    case (Some a)
    note a = alias_walk_in [OF Some]
    have below: "stays_below (g_tab g) (a_realname a) (drop (a_fake_len a) (r_request_uri ?r2))"
      by (rule alias_below [OF Some]) (use a ok(1) u2 in \<open>auto simp: aliases_ok_def\<close>)
    have root: "under_root env (g_tab g) (a_realname a @ drop (a_fake_len a) (r_request_uri ?r2))"
      using a below unfolding under_root_def configured_root_def by blast
    show ?thesis
    proof (cases "a_type a")
      case SCRIPTALIAS
      then show ?thesis
        using step Some path below
          init_script_alias_path [OF _ _ a ok(1), of env "?r2 \<lparr> r_is_cgi := if nph then NPH else CGI \<rparr>"]
        by (auto simp: uri_route_def uri_alias_def)
    qed (use step Some root in \<open>auto simp: uri_route_def uri_alias_def\<close>)
  next
    case None
    then obtain buffer r3 g3 where d: "uri_docroot env (?r2, g) = (Some buffer, r3, g3)"
      "uri_classify env nph buffer (r3, g3) = (1, req', g')"
      using step by (auto simp: uri_route_def split: prod.splits option.splits)
    then show ?thesis
      using uri_docroot_under [OF d(1) nc _ ok(2)] u2
      by (auto simp: uri_classify_def Let_def split: if_splits)
  qed
qed

text \<open>C18: A request that \<open>translate_uri\<close> accepts gets a path under a configured directory: the
  document root, the root of a virtual host, the real name of an alias or the directory of an
  existing user, followed by text in which no component before a slash is empty, a dot or dot-dot, the
  first one included.  The text begins where a path component begins, so a name such as \<open>/icons..\<close> or
  \<open>/iconsx\<close> does not reach the directory of an alias \<open>/icons\<close> or what lies beside it; only behind the real name
  of an alias that was written with a slash at its end, \<open>/boaform/\<close> for \<open>/web\<close>, is the text appended as it is.
  (A last component of two dots is left by \<open>clean_pathname\<close>, and the request for a script that does not
  exist may be accepted without a path; it is never taken for a file.)\<close>

theorem translate_uri_under_root:
  assumes "translate_uri env (req, g) = (1, req', g')" "r_pathname req = None"
    and ok: "aliases_ok (g_tab g)" "passwd_ok (e_getpwnam env) (g_tab g)"
  shows "(r_pathname req' = None \<and> r_is_cgi req' \<noteq> NOT_CGI) \<or>
         (\<exists>path root u. r_pathname req' = Some path \<and> path = root @ u \<and>
            configured_root env (g_tab g) root \<and>
            \<not> prefix ''../'' u \<and> (\<forall>p \<in> {''//'', ''/./'', ''/../''}. \<not> sublist p u) \<and>
            (u = [] \<or> hd u = CHR ''/'' \<or> ends_slash root \<or>
             (\<exists>h. \<exists>a \<in> set (alias_hashtable (g_tab g) h). a_realname a = root \<and> ends_slash (a_fakename a))))"
  using translate_uri_path [OF assms]
  unfolding under_root_def stays_below_def no_climb_def joins_names_def by blast

text \<open>An alias whose real name ends in a slash, its fake name not: \<open>/icons../b.html\<close> is looked up below the
  document root, \<open>/icons/b.html\<close> below the alias.\<close>

definition icons_globals :: globals where
  "icons_globals = globals_init \<lparr> g_tab := add_alias ''/icons'' ''/img/'' ALIAS tables_init \<rparr>"

theorem translate_uri_under_root_witness:
  "\<exists>root u. ''/var/www/icons../b.html'' = root @ u \<and> configured_root sample_env (g_tab icons_globals) root \<and>
     \<not> prefix ''../'' u \<and> (u = [] \<or> hd u = CHR ''/'' \<or> ends_slash root)"
proof -
  let ?req = "blank_request \<lparr> r_request_uri := ''/icons..//./../b.html?x'' \<rparr>"
  let ?out = "translate_uri sample_env (?req, icons_globals)"
  have h: "get_alias_hash_value ''/icons'' = get_alias_hash_value ''/icons../b.html'' \<or>
      get_alias_hash_value ''/icons'' \<noteq> get_alias_hash_value ''/icons../b.html''" by blast
  have e: "fst ?out = 1 \<and> r_pathname (fst (snd ?out)) = Some ''/var/www/icons../b.html''"
    using h
    by (elim disjE) (simp_all add: translate_uri_def uri_strip_host_def strncaseeq_def strcaseeq_def toupper_def is_lower_def
        uchar_def unescape_uri_def cstr_def clean_pathname_def skip_dots.simps char_at_def uri_codepage_def
        icons_globals_def add_alias_def new_alias_def
        globals_init_def tables_init_def uri_docroot_def uri_vhost_root_def sample_env_def
        sample_config_def uri_classify_def contains_str_def get_mime_type_def strrchr_def find_mime_def
        CGI_MIME_TYPE_def blank_request_def Let_def
        uri_set_query_def uri_route_def)
  obtain r g where o: "?out = (1, r, g)" using e by (metis prod.collapse)
  have ok: "aliases_ok (g_tab icons_globals)" "passwd_ok (e_getpwnam sample_env) (g_tab icons_globals)"
    "r_pathname ?req = None"
  proof -
    have "aliases_ok tables_init" by (simp add: aliases_ok_def tables_init_def)
    then show "aliases_ok (g_tab icons_globals)"
      unfolding icons_globals_def by (simp add: aliases_ok_add)
  qed (simp_all add: icons_globals_def globals_init_def passwd_ok_def tables_init_def add_alias_def blank_request_def Let_def)
  have j: "\<not> ends_slash (a_fakename a)" if "a \<in> set (alias_hashtable (g_tab icons_globals) h)" for a h
    using that by (auto simp: icons_globals_def add_alias_def new_alias_def tables_init_def ends_slash_def Let_def split: if_splits)
  show ?thesis
    using translate_uri_under_root [OF o ok(3,1,2)] e o j by auto
qed

section \<open>Answers of the translation\<close>

lemma script_path_info_status:
  "script_path_info env mem i (req, g) = (b, req', g') \<Longrightarrow> r_response_status req' = r_response_status req"
  by (auto simp: script_path_info_def Let_def split: if_splits prod.splits option.splits)

definition answered :: "nat \<Rightarrow> int \<times> st \<Rightarrow> bool" where
  "answered old res \<longleftrightarrow>
    (fst res = 1 \<and> r_response_status (fst (snd res)) = old) \<or>
    (fst res = 0 \<and> r_response_status (fst (snd res)) \<in> {302, 400, 403, 404})"

lemma answered_script: "answered (r_response_status (fst st)) (init_script_alias env st a)"
proof -
  obtain req g where st: "st = (req, g)" by fastforce
  let ?mem = "script_memory env req a"
  let ?i = "script_index ?mem (a_real_len a)"
  obtain b r1 g1 where p: "script_path_info env ?mem ?i (req, g) = (b, r1, g1)"
    by (metis prod_cases3)
  show ?thesis
    using script_path_info_status [OF p] p
    by (auto simp: st init_script_alias_def Let_def script_finish_def answered_def send_status
        split: option.split)
qed

lemma answered_classify:
  "r_response_status (fst st) = old \<Longrightarrow> answered old (uri_classify env nph buffer st)"
  by (cases st) (simp add: uri_classify_def answered_def Let_def send_status)

lemma answered_alias:
  "r_response_status (fst st) = old \<Longrightarrow> answered old (uri_alias env nph a st)"
  using answered_script [of "((fst st) \<lparr> r_is_cgi := if nph then NPH else CGI \<rparr>, snd st)" env a]
  by (cases st; cases "a_type a") (simp_all add: uri_alias_def Let_def answered_def [of _ "(_, _)"] send_status)

lemma answered_docroot:
  assumes "uri_docroot env st = (d, st')"
  shows "if d = None then r_response_status (fst st') \<in> {302, 400, 403, 404}
         else r_response_status (fst st') = r_response_status (fst st)"
proof -
  obtain req g where st: "st = (req, g)" by fastforce
  show ?thesis
    using assms uri_vhost_root_fields [of env "g_tab g" req]
    by (auto simp: st uri_docroot_def Let_def send_status split: if_splits option.splits prod.splits)
qed

lemma answered_route:
  assumes "r_response_status (fst st) = old"
  shows "answered old (uri_route env nph st)"
proof -
  obtain req g where st: "st = (req, g)" by fastforce
  obtain d st' where d: "uri_docroot env (req, g) = (d, st')" by (metis surj_pair)
  have "answered old (case d of None \<Rightarrow> (0, st') | Some buffer \<Rightarrow> uri_classify env nph buffer st')"
    using answered_docroot [OF d] assms st
    by (auto intro: answered_classify simp: answered_def [of _ "(0, st')"] split: option.split)
  then show ?thesis
    using answered_alias [of "(req, g)" old env nph] assms d
    by (cases d) (simp_all add: st uri_route_def split: option.split)
qed

lemma translate_uri_answered:
  "answered (r_response_status (fst st)) (translate_uri env st)"
proof -
  obtain req g where st: "st = (req, g)" by fastforce
  show ?thesis
  proof (cases "unescape_uri (uri_strip_host (r_request_uri req))")
    case None
    then show ?thesis by (simp add: st translate_uri_def Let_def answered_def send_status)
  next
    case (Some uri)
    let ?uri = "clean_pathname uri"
    obtain nph query where q: "uri_scan ?uri False = (nph, query)" by fastforce
    have "answered (r_response_status req)
        (uri_route env nph (uri_codepage (g_tab g)
          (uri_set_query ?uri query (req \<lparr> r_request_uri := ?uri \<rparr>)), g))"
      by (rule answered_route) (simp add: uri_codepage_def uri_set_query_def split: option.split)
    then show ?thesis
      using Some q by (auto simp: st translate_uri_def Let_def answered_def send_status)
  qed
qed

text \<open>\<open>translate_uri\<close> returns 1 without having touched the response, or 0 after it has sent a
  response of its own: a redirect, a bad request, a forbidden or a not found.\<close>

theorem translate_uri_answers:
  "answered (r_response_status (fst st)) (translate_uri env st)"
  by (rule translate_uri_answered)

section \<open>Configured aliases are found\<close>

definition add_alias_line :: "string \<times> string \<times> alias_type \<Rightarrow> tables \<Rightarrow> tables" where
  "add_alias_line line t = (case line of (f, r, ty) \<Rightarrow> add_alias f r ty t)"

lemma alias_append_mem:
  "\<exists>a \<in> set (alias_append f (new_alias f r ty) xs). a_fakename a = f"
  "a \<in> set xs \<Longrightarrow> a \<in> set (alias_append f new xs)"
   apply (induction f "new_alias f r ty" xs rule: alias_append.induct)
     apply (auto simp: new_alias_def)[3]
  apply (induction f new xs rule: alias_append.induct)
    apply auto
  done

text \<open>What the chains hold after a list of lines: entries of the lines, in the chain of their hash, and
  one for every line's fake name.\<close>

lemma alias_chain_loaded:
  "a \<in> set (alias_hashtable (fold add_alias_line ls tables_init) h) \<Longrightarrow>
     (a_fakename a, a_realname a, a_type a) \<in> set ls \<and> a = new_alias (a_fakename a) (a_realname a) (a_type a)"
  "(f, r, ty) \<in> set ls \<Longrightarrow>
     \<exists>a \<in> set (alias_hashtable (fold add_alias_line ls tables_init) (get_alias_hash_value f)). a_fakename a = f"
proof (induction ls rule: rev_induct)
  case Nil
  { case 1 then show ?case by (simp add: tables_init_def) }
  { case 2 then show ?case by simp }
next
  case (snoc l ls)
  obtain f' r' ty' where l: "l = (f', r', ty')" by (metis prod_cases3)
  let ?t = "fold add_alias_line ls tables_init"
  have t: "alias_hashtable (add_alias_line l ?t) =
      (alias_hashtable ?t) (get_alias_hash_value f' :=
         alias_append f' (new_alias f' r' ty') (alias_hashtable ?t (get_alias_hash_value f')))"
    by (simp add: l add_alias_line_def add_alias_def Let_def del: fun_upd_apply)
  { case 1
    then have "a \<in> set (alias_hashtable ?t h) \<or> a = new_alias f' r' ty'"
      using subsetD [OF set_alias_append [of f' "new_alias f' r' ty'"
          "alias_hashtable ?t (get_alias_hash_value f')"], of a]
      by (auto simp: t split: if_splits)
    then show ?case using snoc(1) by (auto simp: l new_alias_def) }
  { case 2
    show ?case
    proof (cases "(f, r, ty) = l")
      case True
      then show ?thesis using alias_append_mem(1) [of f r ty] by (auto simp: t [unfolded l] l)
    next
      case False
      then obtain a where "a \<in> set (alias_hashtable ?t (get_alias_hash_value f))" "a_fakename a = f"
        using 2 snoc(2) by auto
      then show ?thesis using alias_append_mem(2) [of a] by (auto simp: t intro!: bexI [of _ a])
    qed }
qed

lemma alias_walk_unique:
  assumes "a \<in> set xs" "\<forall>b \<in> set xs. prefix (a_fakename b) uri \<longrightarrow> b = a"
    "prefix (a_fakename a) uri"
    "(a_fakename a \<noteq> [] \<and> last (a_fakename a) = CHR ''/'') \<or>
     char_at uri (a_fake_len a) \<in> {CHR ''/'', NUL}"
  shows "alias_walk xs uri = Some a"
  using assms(1,2)
proof (induction xs)
  case (Cons b xs)
  show ?case
  proof (cases "prefix (a_fakename b) uri")
    case True
    then have "b = a" using Cons.prems(2) by simp
    then show ?thesis using assms(3,4) by auto
  next
    case False
    then have "a \<in> set xs" using Cons.prems(1) assms(3) by auto
    then show ?thesis using False Cons by simp
  qed
qed simp

lemma takeWhile_boundary:
  assumes "(f \<noteq> [] \<and> last f = CHR ''/'') \<or> rest = [] \<or> hd rest = CHR ''/''" "1 < length f"
  shows "takeWhile (\<lambda>c. c \<noteq> CHR ''/'') (drop 1 (f @ rest)) = takeWhile (\<lambda>c. c \<noteq> CHR ''/'') (drop 1 f)"
proof -
  obtain c u where f: "f = c # u" "u \<noteq> []" using assms(2) by (cases f) auto
  show ?thesis
  proof (cases "CHR ''/'' \<in> set u")
    case True
    then show ?thesis using f by (simp add: takeWhile_append1)
  next
    case False
    have "last u \<in> set u" using f(2) by simp
    then have "last u \<noteq> CHR ''/''" using False by metis
    then have "last f \<noteq> CHR ''/''" using f by simp
    then have rest: "rest = [] \<or> hd rest = CHR ''/''" using assms(1) by auto
    have all: "\<And>x. x \<in> set u \<Longrightarrow> x \<noteq> CHR ''/''" using False by auto
    have "takeWhile (\<lambda>c. c \<noteq> CHR ''/'') u = u" using all by (simp add: takeWhile_eq_all_conv)
    moreover have "takeWhile (\<lambda>c. c \<noteq> CHR ''/'') (u @ rest) = u @ takeWhile (\<lambda>c. c \<noteq> CHR ''/'') rest"
      by (rule takeWhile_append2) (rule all)
    moreover have "takeWhile (\<lambda>c. c \<noteq> CHR ''/'') rest = []" using rest by (cases rest) auto
    ultimately show ?thesis using f(1) by (simp only: append_Cons One_nat_def drop_Suc_Cons drop_0 append_Nil2)
  qed
qed

lemma hash_boundary:
  assumes "(f \<noteq> [] \<and> last f = CHR ''/'') \<or> rest = [] \<or> hd rest = CHR ''/''" "1 < length f"
  shows "get_alias_hash_value (f @ rest) = get_alias_hash_value f"
  using takeWhile_boundary [OF assms] assms(2)
  by (cases f) (simp_all add: get_alias_hash_value_def)

text \<open>The hash over the first path component is enough to find an alias: a URI that continues
  a configured fake name at a path component finds the entry of that line, provided no other
  configured fake name is a prefix of the URI.\<close>

theorem configured_alias_found:
  assumes "(f, r, ty) \<in> set ls" "\<forall>(f', r', ty') \<in> set ls. prefix f' (f @ rest) \<longrightarrow> (f', r', ty') = (f, r, ty)"
    and "last f = CHR ''/'' \<or> rest = [] \<or> hd rest = CHR ''/''" "1 < length f"
  shows "alias_walk (alias_hashtable (fold add_alias_line ls tables_init)
           (get_alias_hash_value (f @ rest))) (f @ rest) = Some (new_alias f r ty)"
proof -
  let ?xs = "alias_hashtable (fold add_alias_line ls tables_init) (get_alias_hash_value f)"
  have b: "f \<noteq> [] \<and> last f = CHR ''/'' \<or> rest = [] \<or> hd rest = CHR ''/''" using assms(3,4) by auto
  have uniq: "x = new_alias f r ty" if "x \<in> set ?xs" "prefix (a_fakename x) (f @ rest)" for x
    using alias_chain_loaded(1) [OF that(1)] assms(2) that(2) by fastforce
  obtain a where a: "a \<in> set ?xs" "a_fakename a = f" using alias_chain_loaded(2) [OF assms(1)] by blast
  have "new_alias f r ty \<in> set ?xs" using uniq [OF a(1)] a by simp
  then have "alias_walk ?xs (f @ rest) = Some (new_alias f r ty)"
    by (rule alias_walk_unique)
       (use uniq b in \<open>auto simp: new_alias_def char_at_def nth_append hd_conv_nth\<close>)
  then show ?thesis using hash_boundary [OF b assms(4)] by simp
qed

theorem configured_alias_found_witness:
  "alias_walk (alias_hashtable (fold add_alias_line
      [(''/cgi-bin/'', ''/home/cgi/'', SCRIPTALIAS), (''/icons'', ''/img'', ALIAS)] tables_init)
      (get_alias_hash_value ''/icons/a.png'')) ''/icons/a.png'' = Some (new_alias ''/icons'' ''/img'' ALIAS)"
  using configured_alias_found [of "''/icons''" "''/img''" ALIAS
      "[(''/cgi-bin/'', ''/home/cgi/'', SCRIPTALIAS), (''/icons'', ''/img'', ALIAS)]" "''/a.png''"]
  by simp

end
