(* ===== verification/Forms.thy ===== *)
theory Forms
  imports Params "HOL-Library.Word"
begin

text \<open>
  Forms and page scripts (\<open>src/src/asp_page.c\<close>): the two registries, \<open>handleForm\<close> with its check of
  the posted data, \<open>handleScript\<close> and the correction of the \<open>Content-Length\<close> header.  The functions
  of the registries are values of the model as they are function pointers of the code.  A result
  \<open>None\<close> stands for a crash of the server.
\<close>

type_synonym form_fun = "env \<Rightarrow> st \<Rightarrow> st option"
type_synonym asp_fun = "env \<Rightarrow> string list \<Rightarrow> st \<Rightarrow> st option"

record registry =
  root_form :: "(string \<times> form_fun) list"
  root_asp :: "(string \<times> asp_fun) list"

definition boaFormDefine :: "string \<Rightarrow> form_fun \<Rightarrow> registry \<Rightarrow> registry" where
  "boaFormDefine name fn reg = reg \<lparr> root_form := root_form reg @ [(name, fn)] \<rparr>"

definition boaASPDefine :: "string \<Rightarrow> asp_fun \<Rightarrow> registry \<Rightarrow> registry" where
  "boaASPDefine name fn reg = reg \<lparr> root_asp := (name, fn) # root_asp reg \<rparr>"

section \<open>The check of posted data\<close>

definition byte_word :: "char \<Rightarrow> 32 word" where
  "byte_word c = word_of_int (schar c)"

text \<open>The sum over groups of four (signed) bytes; a shorter last group is filled with zeros.\<close>

fun post_csum :: "bytes \<Rightarrow> 32 word" where
  "post_csum (a # b # c # d # s) =
    push_bit 24 (byte_word a) + push_bit 16 (byte_word b) + push_bit 8 (byte_word c) + byte_word d + post_csum s"
| "post_csum [a, b, c] = push_bit 24 (byte_word a) + push_bit 16 (byte_word b) + push_bit 8 (byte_word c)"
| "post_csum [a, b] = push_bit 24 (byte_word a) + push_bit 16 (byte_word b)"
| "post_csum [a] = push_bit 24 (byte_word a)"
| "post_csum [] = 0"

definition fold_csum :: "32 word \<Rightarrow> 32 word" where
  "fold_csum csum0 =
    (let csum = and csum0 0xffff + drop_bit 16 csum0;
         csum = and csum 0xffff
     in and (not csum) 0xffff)"

text \<open>\<open>strtoul\<close> to the base ten where \<open>long\<close> has 32 bits: a number that does not fit is the largest.\<close>

definition strtoul_word :: "string \<Rightarrow> 32 word" where
  "strtoul_word s = (if abs (atoi s) \<ge> 2 ^ 32 then - 1 else word_of_int (atoi s))"

text \<open>Whether the data pass: the value of \<open>postSecurityFlag\<close> is the sum over the data in front of
  it.  Data without such a parameter are not checked.\<close>

definition post_flag_ok :: "env \<Rightarrow> request \<Rightarrow> bool option" where
  "post_flag_ok env req =
    (case boaGetVar env req ''postSecurityFlag'' [] of
       P_val v \<Rightarrow>
         (let buf = e_file env (r_post_data_fd req) in
          if buf \<noteq> [] \<and> e_mmap env (r_post_data_fd req) \<noteq> None
          then (case memstr buf ''postSecurityFlag'' (length buf) of
                  None \<Rightarrow> Some True
                | Some n \<Rightarrow> Some (strtoul_word v = fold_csum (post_csum (take n buf))))
          else Some True)
     | _ \<Rightarrow> None)"

section \<open>Forms\<close>

definition form_name :: "string \<Rightarrow> string option" where
  "form_name uri =
    (case strstr uri ''/boaform/admin/'' of
       Some i \<Rightarrow> Some (drop (i + 15) uri)
     | None \<Rightarrow> map_option (\<lambda>i. drop (i + 9) uri) (strstr uri ''/boaform/''))"

text \<open>The search along the list of forms; an empty list is dereferenced.\<close>

definition run_form :: "registry \<Rightarrow> env \<Rightarrow> string \<Rightarrow> st \<Rightarrow> st option" where
  "run_form reg env name st =
    (if root_form reg = [] then None
     else case map_of (root_form reg) name of
            None \<Rightarrow> Some (send_r_not_found env st)
          | Some function \<Rightarrow> function env (send_r_request_ok env st))"

definition handleForm :: "registry \<Rightarrow> env \<Rightarrow> st \<Rightarrow> st option" where
  "handleForm reg env st =
    (let req = fst st in
     case form_name (r_request_uri req) of
       None \<Rightarrow> Some (send_r_not_found env st)
     | Some name \<Rightarrow>
         if attack_req_check env req then Some (send_r_bad_request env st)
         else if r_method req = M_POST then
           (case post_flag_ok env req of
              None \<Rightarrow> None
            | Some ok \<Rightarrow> if ok then run_form reg env name st else Some (send_r_bad_request env st))
         else run_form reg env name st)"

section \<open>Page scripts\<close>

text \<open>\<open>strspn\<close> and \<open>strcspn\<close> at an offset of the mapped page, which ends with zero bytes.\<close>

definition strspn_at :: "bytes \<Rightarrow> nat \<Rightarrow> string \<Rightarrow> nat" where
  "strspn_at mem p cs = length (takeWhile (\<lambda>c. c \<in> set cs) (drop p mem))"

definition strcspn_at :: "bytes \<Rightarrow> nat \<Rightarrow> string \<Rightarrow> nat" where
  "strcspn_at mem p cs = length (takeWhile (\<lambda>c. c \<notin> set cs \<and> c \<noteq> NUL) (drop p mem))"

text \<open>\<open>memchr\<close> between two offsets.\<close>

definition memchr_at :: "bytes \<Rightarrow> nat \<Rightarrow> nat \<Rightarrow> char \<Rightarrow> nat option" where
  "memchr_at mem i j c = map_option (\<lambda>k. i + k) (strchr (bslice i j mem) c)"

text \<open>The quoted arguments between the name and the semicolon, with the offset behind the last.  They go
  into \<open>argv[8]\<close> and are not counted against it: \<open>None\<close> when a ninth one is written behind it.\<close>

definition ARGV_MAX :: nat where "ARGV_MAX = 8"

function script_args :: "bytes \<Rightarrow> nat \<Rightarrow> nat \<Rightarrow> nat \<Rightarrow> nat \<Rightarrow> (string list \<times> nat) option" where
  "script_args mem argc left semicolon right =
    (if \<not> (left < right \<and> left < semicolon) then Some ([], left)
     else case memchr_at mem left right QUOTE of
       None \<Rightarrow> Some ([], left)
     | Some start \<Rightarrow>
         if start < left \<or> start \<ge> semicolon \<or> start \<ge> right then Some ([], left)
         else case memchr_at mem (start + 1) right QUOTE of
           None \<Rightarrow> Some ([], left)
         | Some end_q \<Rightarrow>
             if end_q < start \<or> end_q \<ge> semicolon \<or> end_q \<ge> right then Some ([], left)
             else if argc \<ge> ARGV_MAX then None
             else case script_args mem (argc + 1) (end_q + 1) semicolon right of
               None \<Rightarrow> None
             | Some (args, left') \<Rightarrow> Some (cstr (bslice (start + 1) end_q mem) # args, left'))"
  by pat_completeness auto
termination
  by (relation "measure (\<lambda>(mem, argc, left, semicolon, right). right - left)") auto

declare script_args.simps [simp del]

text \<open>One function of a script: its name, its arguments up to the semicolon and where it ends.\<close>

definition script_call ::
  "registry \<Rightarrow> bytes \<Rightarrow> nat \<Rightarrow> nat \<Rightarrow> ((asp_fun \<times> string list) option \<times> nat) option" where
  "script_call reg mem left right =
    (let n = strcspn_at mem left ''( '' in
     case map_of (root_asp reg) (bslice left (left + n) mem) of
       None \<Rightarrow> Some (None, left)
     | Some function \<Rightarrow>
         (let left = left + n in
          case (case memchr_at mem left (right + 1) (CHR '';'') of
                  None \<Rightarrow> Some ([], left)
                | Some semicolon \<Rightarrow> script_args mem 0 left semicolon right) of
            None \<Rightarrow> None
          | Some (args, left) \<Rightarrow> Some (Some (function, args), left)))"

function script_loop :: "registry \<Rightarrow> env \<Rightarrow> bytes \<Rightarrow> nat \<Rightarrow> nat \<Rightarrow> st \<Rightarrow> st option" where
  "script_loop reg env mem left0 right st =
    (if left0 \<ge> right then Some st
     else
       let left = left0 + strspn_at mem left0 '' ;(),'' in
       if left \<ge> right then Some st
       else case script_call reg mem left right of
         None \<Rightarrow> None
       | Some (call, left') \<Rightarrow>
           let res = (case call of None \<Rightarrow> Some st | Some (function, args) \<Rightarrow> function env args st);
               left'' = max left left' + strcspn_at mem (max left left') '' '' + 1
           in case res of None \<Rightarrow> None | Some st' \<Rightarrow> script_loop reg env mem left'' right st')"
  by pat_completeness auto
termination
  by (relation "measure (\<lambda>(reg, env, mem, left, right, st). right - left)") auto

declare script_loop.simps [simp del]

text \<open>(A call never moves \<open>left\<close> back, so the maximum is its second operand.)  \<open>left\<close> and \<open>right\<close> are the offsets of the opening and of the closing bracket.\<close>

definition handleScript :: "registry \<Rightarrow> env \<Rightarrow> bytes \<Rightarrow> nat \<Rightarrow> nat \<Rightarrow> st \<Rightarrow> st option" where
  "handleScript reg env mem left right st = script_loop reg env mem (left + 2) (right - 1) st"

section \<open>The length of a page\<close>

text \<open>The header is the first one in the buffer; the body is taken to start behind the second line
  end after it.  \<open>None\<close> when one of the line ends is missing and a null pointer is used.\<close>

definition update_content_length :: "request \<Rightarrow> (nat \<times> request) option" where
  "update_content_length req =
    (let buf = r_buffer req; text = cstr buf in
     case strstr text ''Content-Length:'' of
       None \<Rightarrow> Some (0, req)
     | Some i \<Rightarrow>
         (case strstr (drop i text) [CR, LF] of
            None \<Rightarrow> None
          | Some j \<Rightarrow>
              let orig2 = i + j in
              (case strstr (drop (orig2 + 2) text) [CR, LF] of
                 None \<Rightarrow> None
               | Some k \<Rightarrow>
                   let start = orig2 + 2 + k + 2; orig1 = i + 16;
                       exact = r_buffer_end req - start; digits = simple_itoa (int exact);
                       moved = bslice orig2 (orig2 + exact + 4) buf;
                       buf' = mem_write (mem_write buf (orig1 + length digits) moved) orig1 digits
                   in if orig2 - orig1 = length digits
                      then Some (exact, req \<lparr> r_buffer := mem_write buf orig1 digits \<rparr>)
                      else Some (exact, req \<lparr> r_buffer := buf',
                             r_buffer_end := r_buffer_end req + length digits - (orig2 - orig1) \<rparr>))))"

section \<open>The check finds a changed byte\<close>

definition csum16 :: "nat \<Rightarrow> nat" where
  "csum16 x = (x mod 65536 + x div 65536) mod 65536"

lemma unat_and_ffff: "unat (and (x :: 32 word) 0xffff) = unat x mod 65536"
proof -
  have e: "and x 0xffff = take_bit 16 x" by (simp add: take_bit_eq_mask mask_numeral)
  show ?thesis unfolding e unsigned_take_bit_eq by (simp add: take_bit_eq_mod)
qed

lemma and_not_eq: "and (not (a :: 32 word)) m = and (not b) m \<Longrightarrow> and a m = and b m"
  by (auto simp: bit_eq_iff bit_simps)

lemma fold_csum_csum16:
  assumes "fold_csum x = fold_csum y"
  shows "csum16 (unat x) = csum16 (unat y)"
proof -
  have f: "unat (and (and z 0xffff + drop_bit 16 z) 0xffff) = csum16 (unat z)" for z :: "32 word"
  proof -
    have "unat z < 2 ^ LENGTH(32)" by (rule unsigned_less)
    then have "unat z < 65536 * 65536" by simp
    then have "unat z div 65536 < 65536" by (rule less_mult_imp_div_less)
    then have "unat z mod 65536 + unat z div 65536 < 4294967296"
      using mod_less_divisor [of 65536 "unat z"] by linarith
    then show ?thesis
      by (simp add: unat_and_ffff unat_word_ariths unat_drop_bit_eq drop_bit_eq_div csum16_def)
  qed
  have "and (and x 0xffff + drop_bit 16 x) 0xffff = and (and y 0xffff + drop_bit 16 y) 0xffff"
    using and_not_eq [of "and (and x 0xffff + drop_bit 16 x) 0xffff" "0xffff"
        "and (and y 0xffff + drop_bit 16 y) 0xffff"] assms
    by (simp add: fold_csum_def Let_def and.assoc)
  then show ?thesis using f [of x] f [of y] by simp
qed

text \<open>Adding a byte difference at one of the four places changes the folded sum.\<close>

lemma csum16_split: "l < 65536 \<Longrightarrow> csum16 (h * 65536 + l) = (l + h) mod 65536"
  by (simp add: csum16_def)

lemma mod_2_32_split: "l < 65536 \<Longrightarrow> (h * 65536 + l) mod 2 ^ 32 = (h mod 65536) * 65536 + (l :: nat)"
  using mod_mult2_eq [of "h * 65536 + l" 65536 65536] by simp

lemma mod_add_ne:
  assumes "0 < v" "v < m"
  shows "(a + v) mod m \<noteq> a mod (m :: nat)"
proof
  assume "(a + v) mod m = a mod m"
  then have "m dvd a + v - a" by (metis le_add1 mod_eq_dvd_iff_nat)
  then show False using assms by (auto dest: dvd_imp_le)
qed

lemma csum16_add:
  assumes "x < 2 ^ 32" "0 < u" "u < 65535" "t = u \<or> t = u * 65536"
  shows "csum16 ((x + t) mod 2 ^ 32) \<noteq> csum16 x"
proof -
  define h where "h = x div 65536"
  define l where "l = x mod 65536"
  have x: "x = h * 65536 + l" and l: "l < 65536" by (simp_all add: h_def l_def)
  have ne: "(l + h + v) mod 65536 \<noteq> (l + h) mod 65536" if "0 < v" "v < 65536" for v
    by (rule mod_add_ne [OF that])
  consider "t = u * 65536" | "t = u" "l + u < 65536" | "t = u" "65536 \<le> l + u" using assms(4) by linarith
  then show ?thesis
  proof cases
    case 1
    then have "x + t = (h + u) * 65536 + l" by (simp add: x)
    then have "csum16 ((x + t) mod 2 ^ 32) = (l + (h + u)) mod 65536"
      using mod_2_32_split [OF l, of "h + u"] csum16_split [OF l] by (simp add: mod_add_right_eq)
    then show ?thesis using ne [of u] assms(2,3) csum16_split [OF l, of h] x by (simp add: add.assoc)
  next
    case 2
    then have "x + t = h * 65536 + (l + u)" by (simp add: x)
    then have "csum16 ((x + t) mod 2 ^ 32) = (l + u + h) mod 65536"
      using mod_2_32_split [OF 2(2), of h] csum16_split [OF 2(2)] by (simp add: mod_add_right_eq)
    then show ?thesis using ne [of u] assms(2,3) csum16_split [OF l, of h] x by (simp add: ac_simps)
  next
    case 3
    let ?l = "l + u - 65536"
    have b: "?l < 65536" using 3 l assms(3) by linarith
    have "x + t = (h + 1) * 65536 + ?l" using 3 by (simp add: x)
    then have "csum16 ((x + t) mod 2 ^ 32) = (?l + (h + 1)) mod 65536"
      using mod_2_32_split [OF b, of "h + 1"] csum16_split [OF b] by (simp add: mod_add_right_eq)
    also have "\<dots> = (?l + (h + 1) + 65536) mod 65536" by (rule mod_add_self2 [symmetric])
    also have "?l + (h + 1) + 65536 = l + h + (u + 1)" using 3 by simp
    finally show ?thesis using ne [of "u + 1"] assms(3) csum16_split [OF l, of h] x by simp
  qed
qed

lemma post_csum_update:
  "i < length s \<Longrightarrow>
   post_csum (s [i := c]) + push_bit (24 - 8 * (i mod 4)) (byte_word (s ! i)) =
   post_csum s + push_bit (24 - 8 * (i mod 4)) (byte_word c)"
proof (induction s arbitrary: i rule: post_csum.induct)
  case (1 a b c' d s)
  show ?case
  proof (cases "i < 4")
    case True
    then consider "i = 0" | "i = Suc 0" | "i = Suc (Suc 0)" | "i = Suc (Suc (Suc 0))" by linarith
    then show ?thesis by cases (simp_all add: ac_simps)
  next
    case False
    define j where "j = i - 4"
    have j: "i = Suc (Suc (Suc (Suc j)))" using False by (simp add: j_def)
    have "i = j + 4" using False by (simp add: j_def)
    then have m: "i mod 4 = j mod 4" by simp
    have "j < length s" using 1(2) j by simp
    then show ?thesis using 1(1) [of j] unfolding m by (simp add: j ac_simps)
  qed
next
  case (2 a b c')
  then consider "i = 0" | "i = Suc 0" | "i = Suc (Suc 0)" by fastforce
  then show ?case by cases (simp_all add: ac_simps)
next
  case (3 a b)
  then consider "i = 0" | "i = Suc 0" by fastforce
  then show ?case by cases (simp_all add: ac_simps)
qed (simp_all add: ac_simps)

lemma post_csum_detects_up:
  assumes "i < length s" "schar (s ! i) < schar c"
  shows "fold_csum (post_csum (s [i := c])) \<noteq> fold_csum (post_csum s)"
proof
  define d where "d = nat (schar c - schar (s ! i))"
  define k where "k = 24 - 8 * (i mod 4)"
  assume eq: "fold_csum (post_csum (s [i := c])) = fold_csum (post_csum s)"
  have d: "0 < d" "d < 256" using assms(2) schar_bounds [of c] schar_bounds [of "s ! i"] by (auto simp: d_def)
  have bw: "byte_word c = byte_word (s ! i) + of_nat d"
    using assms(2) by (simp add: byte_word_def d_def flip: of_int_add)
  have "post_csum (s [i := c]) = post_csum s + of_nat (d * 2 ^ k)"
    using post_csum_update [OF assms(1), of c] bw
    by (simp add: push_bit_eq_mult k_def distrib_right)
  then have "unat (post_csum (s [i := c])) = (unat (post_csum s) + d * 2 ^ k) mod 2 ^ 32"
    by (simp only: unat_word_ariths unat_of_nat mod_add_right_eq) simp
  moreover have "\<exists>u. 0 < u \<and> u < 65535 \<and> (d * 2 ^ k = u \<or> d * 2 ^ k = u * 65536)"
  proof -
    have "i mod 4 < 4" by simp
    then consider "i mod 4 = 3" | "i mod 4 = 2" | "i mod 4 = 1" | "i mod 4 = 0" by linarith
    then consider "k = 0" | "k = 8" | "k = 16" | "k = 24" by cases (simp_all add: k_def)
    then show ?thesis
    proof cases
      case 1
      then show ?thesis using d by (intro exI [of _ d]) simp
    next
      case 2
      then show ?thesis using d by (intro exI [of _ "d * 256"]) simp
    next
      case 3
      then show ?thesis using d by (intro exI [of _ d]) simp
    next
      case 4
      then show ?thesis using d by (intro exI [of _ "d * 256"]) simp
    qed
  qed
  then obtain u where u: "0 < u" "u < 65535" "d * 2 ^ k = u \<or> d * 2 ^ k = u * 65536" by blast
  have "unat (post_csum s) < 2 ^ LENGTH(32)" by (rule unsigned_less)
  then have "unat (post_csum s) < 2 ^ 32" by simp
  ultimately show False using csum16_add [OF _ u] fold_csum_csum16 [OF eq] by simp
qed

text \<open>The check of posted data notices every change of one byte in the checked part: the sum of
  the changed data is another one.\<close>

theorem post_csum_detects:
  assumes "i < length s" "c \<noteq> s ! i"
  shows "fold_csum (post_csum (s [i := c])) \<noteq> fold_csum (post_csum s)"
proof (cases "schar (s ! i) < schar c")
  case True
  then show ?thesis by (rule post_csum_detects_up [OF assms(1)])
next
  case False
  then have "schar ((s [i := c]) ! i) < schar (s ! i)"
    using assms schar_inject [of "s ! i" c] by (simp del: schar_inject)
  then show ?thesis
    using post_csum_detects_up [of i "s [i := c]" "s ! i"] assms(1) by (simp add: eq_commute)
qed

theorem post_csum_detects_witness:
  "fold_csum (post_csum ''user=admim&'') \<noteq> fold_csum (post_csum ''user=admin&'')"
  using post_csum_detects [of 9 "''user=admin&''" "CHR ''m''"] by (simp add: numeral_eq_Suc)

section \<open>The arguments of a script\<close>

text \<open>A call as a page writes it: the quoted arguments separated by commas.\<close>

fun quoted_args :: "string \<Rightarrow> string list \<Rightarrow> string" where
  "quoted_args lead [] = []"
| "quoted_args lead (a # as) = lead @ [QUOTE] @ a @ [QUOTE] @ quoted_args '', '' as"

definition script_text :: "string \<Rightarrow> string list \<Rightarrow> string" where
  "script_text name args = name @ ''('' @ quoted_args [] args @ '');''"

definition arg_ok :: "string \<Rightarrow> bool" where
  "arg_ok a \<longleftrightarrow> (\<forall>c \<in> set a. c \<notin> {QUOTE, CHR '';'', NUL})"

definition name_ok :: "string \<Rightarrow> bool" where
  "name_ok n \<longleftrightarrow> n \<noteq> [] \<and> (\<forall>c \<in> set n. c \<notin> set '' ;(),'' \<and> c \<noteq> NUL)"

lemma memchr_found:
  assumes "c \<notin> set u" "length p + length u < j"
  shows "memchr_at (p @ u @ c # v) (length p) j c = Some (length p + length u)"
proof -
  obtain k where k: "j - length p = length u + Suc k" using assms(2) less_imp_Suc_add by fastforce
  show ?thesis using assms(1) by (simp add: memchr_at_def bslice_def k strchr_append)
qed

lemma memchr_missing:
  assumes "c \<notin> set (bslice i j mem)"
  shows "memchr_at mem i j c = None"
  using assms by (simp add: memchr_at_def)

lemma script_args_quoted:
  assumes "list_all arg_ok args" "QUOTE \<notin> set lead" "CHR '';'' \<notin> set lead"
    and "s = length p + length (quoted_args lead args) + 1" "r = s + 1" "n \<le> ARGV_MAX"
  shows "script_args (p @ quoted_args lead args @ '');'' @ v) n (length p) s r =
    (if n + length args \<le> ARGV_MAX then Some (args, length p + length (quoted_args lead args)) else None)"
  using assms
proof (induction args arbitrary: p lead n)
  case Nil
  have "bslice (length p) r (p @ '');'' @ v) = '');''"
    using Nil by (simp add: bslice_def numeral_eq_Suc)
  then have "memchr_at (p @ '');'' @ v) (length p) r QUOTE = None"
    by (intro memchr_missing) simp
  then show ?case using Nil by (subst script_args.simps) simp
next
  case (Cons a args)
  let ?rest = "quoted_args '', '' args"
  let ?tail = "?rest @ '');'' @ v"
  let ?mem = "p @ lead @ QUOTE # a @ QUOTE # ?tail"
  have len: "s = length p + length lead + length a + length ?rest + 3" using Cons.prems(4) by simp
  have q: "QUOTE \<notin> set a" using Cons.prems(1) by (auto simp: arg_ok_def)
  have one: "memchr_at ?mem (length p) r QUOTE = Some (length p + length lead)"
    by (rule memchr_found) (use Cons.prems len in auto)
  have two: "memchr_at ?mem (length p + length lead + 1) r QUOTE =
      Some (length p + length lead + 1 + length a)"
    using memchr_found [of QUOTE a "p @ lead @ [QUOTE]" r ?tail] q Cons.prems(5) len by simp
  have rec: "script_args ?mem (n + 1) (length p + length lead + 1 + length a + 1) s r =
      (if n + 1 + length args \<le> ARGV_MAX then Some (args, length p + length lead + 1 + length a + 1 + length ?rest) else None)"
    if "n < ARGV_MAX"
    using Cons.IH [of "'', ''" "p @ lead @ QUOTE # a @ [QUOTE]" "n + 1"] Cons.prems(1,5) len that by (simp add: add.assoc)
  have arg: "cstr (bslice (length p + length lead + 1) (length p + length lead + 1 + length a) ?mem) = a"
  proof -
    have "bslice (length p + length lead + 1) (length p + length lead + 1 + length a) ?mem = a"
      by (simp add: bslice_def)
    moreover have "cstr a = a" using Cons.prems(1) by (auto simp: arg_ok_def intro: cstr_id)
    ultimately show ?thesis by simp
  qed
  have mem: "p @ quoted_args lead (a # args) @ '');'' @ v = ?mem" by simp
  show ?case
    unfolding mem using one two rec arg Cons.prems(5,6) len
    by (subst script_args.simps) (cases "n < ARGV_MAX", simp_all)
qed

lemma quoted_args_lead: "args \<noteq> [] \<Longrightarrow> quoted_args lead args = lead @ quoted_args [] args"
  by (cases args) simp_all

lemma quoted_args_chars:
  "list_all arg_ok args \<Longrightarrow> c \<in> {CHR '';'', NUL} \<Longrightarrow> c \<notin> set lead \<Longrightarrow> c \<notin> set (quoted_args lead args)"
  by (induction lead args rule: quoted_args.induct) (auto simp: arg_ok_def)

text \<open>The arguments of the call behind its name, with the offset behind the last of them.\<close>

lemma script_args_text:
  assumes "list_all arg_ok args" "s = length p + length (quoted_args [] args) + 2" "r = s + 1"
  shows "\<exists>left. script_args (p @ ''('' @ quoted_args [] args @ '');'' @ v) 0 (length p) s r =
      (if length args \<le> ARGV_MAX then Some (args, left) else None) \<and>
    length p \<le> left \<and> left \<le> r \<and> strcspn_at (p @ ''('' @ quoted_args [] args @ '');'' @ '' '' @ w) left '' '' = r - left"
proof (cases "args = []")
  case True
  have "memchr_at (p @ ''();'' @ v) (length p) r QUOTE = None"
    using assms True by (intro memchr_missing) (simp add: bslice_def numeral_eq_Suc)
  then have "script_args (p @ ''();'' @ v) 0 (length p) s r = Some ([], length p)"
    using assms by (subst script_args.simps) simp
  then show ?thesis using True assms by (intro exI [of _ "length p"]) (simp add: strcspn_at_def)
next
  case False
  let ?left = "length p + 1 + length (quoted_args [] args)"
  have "script_args (p @ quoted_args ''('' args @ '');'' @ v) 0 (length p) s r =
      (if length args \<le> ARGV_MAX then Some (args, ?left) else None)"
    using script_args_quoted [OF assms(1), of "''(''" s p r 0 v] assms(2,3)
    by (simp add: quoted_args_lead [OF False, of "''(''"])
  then show ?thesis
    using assms(2,3) by (intro exI [of _ ?left]) (simp add: quoted_args_lead [OF False, of "''(''"] strcspn_at_def)
qed

lemma handleScript_runs:
  assumes "map_of (root_asp reg) name = Some f" "name_ok name" "list_all arg_ok args"
    and "mem = pre @ ''<% '' @ script_text name args @ '' %>'' @ post"
    and "left = length pre" "right = length pre + length (script_text name args) + 4"
  shows "handleScript reg env mem left right st = (if length args \<le> ARGV_MAX then f env args st else None)"
proof -
  let ?p = "pre @ ''<% '' @ name"
  let ?q = "quoted_args [] args"
  define s where "s = length ?p + length ?q + 2"
  define r where "r = s + 1"
  let ?v = "'' %>'' @ post"
  have mem: "mem = ?p @ ''('' @ ?q @ '');'' @ ?v" using assms(4) by (simp add: script_text_def)
  have right: "right - 1 = r" using assms(6) by (simp add: r_def s_def script_text_def)
  obtain left' where left': "script_args mem 0 (length ?p) s r = (if length args \<le> ARGV_MAX then Some (args, left') else None)" "length ?p \<le> left'" "left' \<le> r"
    "strcspn_at mem left' '' '' = r - left'"
    using script_args_text [OF assms(3) s_def r_def, of ?v "''%>'' @ post"] unfolding mem by auto
  have name: "name \<noteq> []" "\<And>c. c \<in> set name \<Longrightarrow> c \<notin> set '' ;(),'' \<and> c \<noteq> NUL"
    using assms(2) by (auto simp: name_ok_def)
  have spn: "strspn_at mem (left + 2) '' ;(),'' = 1"
  proof -
    have "drop (left + 2) mem = CHR '' '' # name @ ''('' @ ?q @ '');'' @ ?v" by (simp add: mem assms(5))
    then show ?thesis using name by (cases name) (auto simp: strspn_at_def)
  qed
  have cspn: "strcspn_at mem (left + 3) ''( '' = length name"
  proof -
    have d: "drop (left + 3) mem = name @ ''('' @ ?q @ '');'' @ ?v" by (simp add: mem assms(5))
    have "takeWhile (\<lambda>c. c \<notin> set ''( '' \<and> c \<noteq> NUL) (name @ ''('' @ ?q @ '');'' @ ?v) = name"
      using name by (subst takeWhile_append2) auto
    then show ?thesis unfolding strcspn_at_def d by simp
  qed
  have slice: "bslice (left + 3) (left + 3 + length name) mem = name" by (simp add: mem assms(5) bslice_def)
  have semi: "memchr_at mem (length ?p) (r + 1) (CHR '';'') = Some s"
    using memchr_found [of "CHR '';''" "''('' @ ?q @ '')''" ?p "r + 1" ?v] quoted_args_chars [OF assms(3), of "CHR '';''" "[]"]
    by (simp add: mem r_def s_def)
  have call: "script_call reg mem (left + 3) r = (if length args \<le> ARGV_MAX then Some (Some (f, args), left') else None)"
  proof -
    have lp: "length ?p = left + 3 + length name" by (simp add: assms(5))
    show ?thesis
      using cspn slice semi [unfolded lp] left'(1) [unfolded lp] assms(1)
      by (cases "length args \<le> ARGV_MAX") (simp_all only: script_call_def Let_def option.simps prod.case if_True if_False)
  qed
  have lt: "left + 3 < r" "max (left + 3) left' = left'" "left' \<le> r"
  proof -
    show "left + 3 < r" by (simp add: r_def s_def assms(5))
    show "max (left + 3) left' = left'" using left'(2) assms(5) by simp
    show "left' \<le> r" by (rule left'(3))
  qed
  have stop: "script_loop reg env mem (r + 1) r st' = Some st'" for st' by (subst script_loop.simps) simp
  have off: "\<not> r \<le> left + 2" "\<not> r \<le> left + 3" "left + 2 + 1 = left + 3" "left' + (r - left') + 1 = r + 1"
    using lt by linarith+
  show ?thesis
    unfolding handleScript_def right
    by (subst script_loop.simps)
       (cases "length args \<le> ARGV_MAX"; simp only: spn off call prod.case option.case lt(2) left'(4) Let_def if_False if_True stop
          split: option.split; simp)
qed

text \<open>C27: A script that calls a registered function with up to eight quoted arguments makes the server
  call that function with exactly these arguments, and nothing else; with a ninth argument it writes
  behind the array that holds them.\<close>

theorem handleScript_call:
  assumes "map_of (root_asp reg) name = Some f" "name_ok name" "list_all arg_ok args"
    and "mem = pre @ ''<% '' @ script_text name args @ '' %>'' @ post"
    and "left = length pre" "right = length pre + length (script_text name args) + 4"
  shows "handleScript reg env mem left right st = (if length args \<le> 8 then f env args st else None)"
  using handleScript_runs [OF assms] by (simp add: ARGV_MAX_def)

theorem handleScript_call_witness:
  "handleScript \<lparr> root_form = [], root_asp = [(''getInfo'', \<lambda>env args st. Some (wrs args (fst st), snd st))] \<rparr>
     sample_env (''<td><% getInfo('' @ [QUOTE] @ ''lan-ip'' @ [QUOTE] @ ''); %></td>'') 4 26
     (fresh_request 10, globals_init) = Some (wr ''lan-ip'' (fresh_request 10), globals_init)"
  by (subst handleScript_call [where name = "''getInfo''" and args = "[''lan-ip'']" and pre = "''<td>''"
        and post = "''</td>''" and f = "\<lambda>env args st. Some (wrs args (fst st), snd st)"])
     (simp_all add: name_ok_def arg_ok_def script_text_def wrs_def)

end
