(* ===== verification/Get.thy ===== *)
theory Get
  imports Alias Cgi Forms
begin

text \<open>
  Starting a CGI program (the server's half of \<open>init_cgi\<close>, \<open>src/src/cgi.c\<close>) and answering requests
  for files, directories and dynamic pages (\<open>src/src/get.c\<close>).  \<open>init_get2\<close> and \<open>init_form\<close> run the
  functions of the registry, so they may crash (\<open>None\<close>).
\<close>

definition BYTES_TO_WRITE :: nat where "BYTES_TO_WRITE = 81920"

definition SQUASH_KA :: "request \<Rightarrow> request" where
  "SQUASH_KA req = req \<lparr> r_keepalive := KA_STOPPED \<rparr>"

section \<open>CGI programs\<close>

text \<open>The path whose existence is tested, in a buffer of 128 bytes.\<close>

definition cgi_test_path :: "env \<Rightarrow> request \<Rightarrow> string" where
  "cgi_test_path env req =
    take 127 (opt ''/home/httpd/'' (dirmaker (e_cfg env)) @ opt ''(null)'' (r_pathname req))"

definition init_cgi :: "env \<Rightarrow> st \<Rightarrow> int \<times> st" where
  "init_cgi env st =
    (let (req, g) = st; req = complete_env (e_cfg env) (SQUASH_KA req) in
     if \<not> e_access_f env (cgi_test_path env req) then (0, send_r_not_found env (req, g))
     else if attack_req_check env req then (0, send_r_bad_request env (req, g))
     else if r_is_cgi req = CGI \<and> (e_pipe env = None \<or> \<not> e_fcntl env) then (0, req, g)
     else if e_fork env = None then (0, req, g)
     else if r_is_cgi req \<noteq> CGI then (0, req, g)
     else
       (1, req \<lparr> r_data_fd := fst (the (e_pipe env)), r_status := PIPE_READ, r_filesize := 0, r_filepos := 0,
                 r_header_line := BUFFER_SIZE div 2, r_header_end := BUFFER_SIZE div 2,
                 r_cgi_status := CGI_READ \<rparr>, g))"

section \<open>Directories\<close>

definition dir_headers :: "env \<Rightarrow> st \<Rightarrow> string \<Rightarrow> request \<Rightarrow> request" where
  "dir_headers env st status_line req =
    wr (lit ''~~'') (wr (get_mime_type (e_cfg env) (g_tab (snd st)) (opt ''(null)'' (g_directory_index (snd st))))
      (wr ''Content-Type: '' (print_last_modified env (print_http_headers env (wr status_line req)))))"

text \<open>The result is \<open>-1\<close> after an error answer, \<open>0\<close> for a program, else a descriptor.\<close>

definition get_dir :: "env \<Rightarrow> st \<Rightarrow> int \<times> st" where
  "get_dir env st =
    (let (req, g) = st; idx = opt ''(null)'' (g_directory_index g);
         path = opt ''(null)'' (r_pathname req) @ idx
     in case e_open env path of
          OP_fd data_fd \<Rightarrow>
            (data_fd, req \<lparr> r_request_uri := r_request_uri req @
               take (MAX_HEADER_LENGTH + 1 - length (r_request_uri req) - 1) idx \<rparr>, g)
        | OP_acces \<Rightarrow> (-1, send_r_forbidden env (req, g))
        | _ \<Rightarrow>
            (case e_open env (path @ ''.gz'') of
               OP_fd data_fd \<Rightarrow>
                 let req = req \<lparr> r_response_status := 200 \<rparr> in
                 if r_method req = M_HEAD
                 then (0, flush env (dir_headers env st (lit ''HTTP/1.0 200 OK-GUNZIP~'') req, g))
                 else
                   let (ret, st) = init_cgi env (req \<lparr> r_pathname := Some (path @ ''.gz'') \<rparr>, g)
                   in (if ret = 0 then -1 else 0, st)
             | _ \<Rightarrow>
                 if dirmaker (e_cfg env) \<noteq> None then
                   let req = req \<lparr> r_response_status := 200 \<rparr>;
                       st = (if \<not> r_simple req \<or> r_method req = M_HEAD
                             then flush env (dir_headers env st (lit ''HTTP/1.0 200 OK~'') req, g)
                             else (req, g))
                   in if r_method req = M_HEAD then (0, st)
                      else let (ret, st) = init_cgi env st in (if ret = 0 then -1 else 0, st)
                 else (-1, send_r_not_found env (req, g))))"

section \<open>Files\<close>

text \<open>The answer to a file that cannot be opened goes by the error of the last \<open>open\<close>, the one of the
  compressed file.\<close>

definition open_error :: "env \<Rightarrow> open_result \<Rightarrow> st \<Rightarrow> int \<times> st" where
  "open_error env res st =
    (0, case res of
          OP_noent \<Rightarrow> send_r_not_found env st
        | OP_acces \<Rightarrow> send_r_forbidden env st
        | _ \<Rightarrow> send_r_bad_request env st)"

definition send_gunzip :: "env \<Rightarrow> st \<Rightarrow> int \<times> st" where
  "send_gunzip env st =
    (let (req, g) = st; req = req \<lparr> r_response_status := 200 \<rparr>;
         st = (if r_simple req then (req, g)
               else flush env (wr (lit ''~'') (print_last_modified env (print_content_type env g
                      (print_http_headers env (wr (lit ''HTTP/1.0 200 OK-GUNZIP~'') req)))), g))
     in if r_method req = M_HEAD then (0, st)
        else init_cgi env ((fst st) \<lparr> r_pathname := Some (opt ''(null)'' (r_pathname (fst st)) @ ''.gz'') \<rparr>, snd st))"

text \<open>The redirect that adds a slash to the name of a directory.\<close>

definition dir_redirect :: "env \<Rightarrow> st \<Rightarrow> st" where
  "dir_redirect env st =
    (let req = fst st; cfg = e_cfg env; host = opt (server_name cfg) (r_host req)
     in send_redirect_perm env (''http://'' @ host @
          (if server_port cfg \<noteq> 80 then '':'' @ show_int (server_port cfg) else []) @
          r_request_uri req @ ''/'') st)"

text \<open>Opening the file of a request: \<open>Inl\<close> a finished answer, \<open>Inr\<close> the descriptor and whether it is
  the index of a directory.\<close>

definition open_document :: "env \<Rightarrow> st \<Rightarrow> (int \<times> st) + (int \<times> bool \<times> st)" where
  "open_document env st =
    (let path = opt ''(null)'' (r_pathname (fst st)) in
     case (if r_pathname (fst st) = None then OP_err else e_open env path) of
       OP_fd data_fd \<Rightarrow>
         if st_isdir (e_fstat env data_fd) then
           if path = [] \<or> last path \<noteq> CHR ''/'' then Inl (0, dir_redirect env st)
           else
             let (data_fd, st) = get_dir env st in
             if data_fd = -1 then Inl (0, st) else if data_fd = 0 then Inl (1, st) else Inr (data_fd, True, st)
         else Inr (data_fd, False, st)
     | _ \<Rightarrow>
         (case e_open env (path @ ''.gz'') of
            OP_fd _ \<Rightarrow> Inl (send_gunzip env st)
          | res \<Rightarrow> Inl (open_error env res st)))"

text \<open>The first part of the file, as much as fits behind the header.\<close>

definition fill_buffer :: "bytes \<Rightarrow> request \<Rightarrow> request" where
  "fill_buffer data req =
    (let bob = r_max_buffer_size req - r_buffer_end req in
     if bob > 0 then
       let bob = min bob (r_filesize req - r_filepos req)
       in req \<lparr> r_buffer := mem_write (r_buffer req) (r_buffer_end req)
                  (bslice (r_filepos req) (r_filepos req + bob) data),
                r_buffer_end := r_buffer_end req + bob, r_filepos := r_filepos req + bob \<rparr>
     else req)"

definition get_done :: "st \<Rightarrow> int \<times> st" where
  "get_done st =
    (let (req, g) = st in
     if r_filepos req = r_filesize req then (0, req \<lparr> r_status := CLOSE \<rparr>, g) else (1, req, g))"

definition init_get :: "env \<Rightarrow> st \<Rightarrow> int \<times> st" where
  "init_get env st =
    (case open_document env st of
       Inl res \<Rightarrow> res
     | Inr (data_fd, homepage, req, g) \<Rightarrow>
         let statbuf = e_fstat env data_fd in
         if r_if_modified_since req \<noteq> None \<and> \<not> homepage \<and>
            modified_since (e_gmtime env (st_mtime statbuf)) (opt [] (r_if_modified_since req)) = 0
         then (0, send_r_not_modified env (req, g))
         else
           let req = req \<lparr> r_filesize := st_size statbuf, r_last_modified := st_mtime statbuf \<rparr> in
           if r_method req = M_HEAD then (0, send_r_request_ok env (req, g))
           else case e_mmap env data_fd of
             None \<Rightarrow> (0, req, g)
           | Some data \<Rightarrow>
               let (req, g) = send_r_request_ok env (req \<lparr> r_data_mem := Some data \<rparr>, g)
               in get_done (fill_buffer data req, g))"

text \<open>The next part of the file, converted to the code page of the client in place.\<close>

definition convert_part :: "nat \<Rightarrow> request \<Rightarrow> request" where
  "convert_part bytes_to_write req =
    (let req = (if r_bytesconverted req < r_filepos req then req \<lparr> r_bytesconverted := r_filepos req \<rparr> else req)
     in case r_cp_table req of
          None \<Rightarrow> req
        | Some table \<Rightarrow>
            let data = opt [] (r_data_mem req); bc = r_bytesconverted req
            in req \<lparr> r_data_mem := Some (take bc data @
                       nls_convert (drop bc data) table (r_filepos req + bytes_to_write - bc)),
                     r_bytesconverted := r_filepos req + bytes_to_write \<rparr>)"

definition process_get :: "env \<Rightarrow> st \<Rightarrow> int \<times> st" where
  "process_get env st =
    (let (req, g) = st; left = r_filesize req - r_filepos req;
         bytes_to_write = (if r_method req \<noteq> M_HEAD then min left BYTES_TO_WRITE else left);
         req = (if r_method req \<noteq> M_HEAD then convert_part bytes_to_write req else req);
         data = opt [] (r_data_mem req)
     in case e_write env (r_fd req) (bslice (r_filepos req) (r_filepos req + bytes_to_write) data) of
          IO_again \<Rightarrow> (-1, req, g)
        | IO_err \<Rightarrow> (0, req, g)
        | IO_ok bytes_written \<Rightarrow>
            let req = req \<lparr> r_filepos := r_filepos req + bytes_written \<rparr>
            in (if r_filepos req = r_filesize req then 0 else 1, req, g))"

section \<open>Dynamic pages\<close>

definition init_form :: "registry \<Rightarrow> env \<Rightarrow> st \<Rightarrow> (int \<times> st) option" where
  "init_form reg env st =
    (let req = complete_env (e_cfg env) (SQUASH_KA (fst st)) \<lparr> r_status := CLOSE \<rparr>
     in map_option (\<lambda>st. (1, st)) (handleForm reg env (req, snd st)))"

definition uploadUrl :: "string list" where
  "uploadUrl = [''net_certca.asp'', ''saveconf.asp'', ''upload_sc.asp'', ''vermod.asp'', ''login.asp'',
     ''usereg.asp'', ''usereg_inside_menu.asp'']"

definition strcasestr :: "string \<Rightarrow> string \<Rightarrow> bool" where
  "strcasestr s p \<longleftrightarrow> contains_str (map tolower s) (map tolower p)"

definition crawler :: "request \<Rightarrow> bool" where
  "crawler req \<longleftrightarrow> r_method req = M_GET \<and> (\<exists>u \<in> set uploadUrl. contains_str (r_request_uri req) u) \<and>
     (\<exists>v \<in> set (r_cgi_env req). strcasestr v ''X_SCAN_MEMO'' \<and> strcasestr v ''Crawl'')"

text \<open>The copy of the text in front of a script; the buffer grows as needed.\<close>

definition copy_text :: "bytes \<Rightarrow> nat \<Rightarrow> request \<Rightarrow> request" where
  "copy_text data bob req =
    (let req = grow_buffer (bob + r_buffer_end req) req
     in req \<lparr> r_buffer := mem_write (r_buffer req) (r_buffer_end req)
                (bslice (r_filepos req) (r_filepos req + bob) data),
              r_buffer_end := r_buffer_end req + bob, r_filepos := r_filepos req + bob \<rparr>)"

text \<open>The loop over the scripts of a page from \<open>last_right\<close> on.  \<open>data\<close> is the mapped file, which the
  functions of a page do not replace.\<close>

function page_loop :: "registry \<Rightarrow> env \<Rightarrow> bytes \<Rightarrow> nat \<Rightarrow> st \<Rightarrow> st option" where
  "page_loop reg env data last_right st =
    (if length data \<le> last_right then Some st
     else
       let rest = drop last_right data in
       case strstr rest ''<%'' of
         None \<Rightarrow> Some (copy_text data (length rest) (fst st), snd st)
       | Some bob \<Rightarrow>
           (case strstr (drop bob rest) ''%>'' of
              None \<Rightarrow> Some (copy_text data (length rest) (fst st), snd st)
            | Some n \<Rightarrow>
                let left = last_right + bob; right = left + n;
                    req = copy_text data bob (fst st);
                    req = req \<lparr> r_filepos := r_filepos req + (right + 2 - left) \<rparr>
                in case handleScript reg env data left right (req, snd st) of
                     None \<Rightarrow> None
                   | Some st' \<Rightarrow> page_loop reg env data (right + 2) st'))"
  by pat_completeness auto
termination
  by (relation "measure (\<lambda>(reg, env, data, last_right, st). length data - last_right)") (auto simp: Let_def)

declare page_loop.simps [simp del]

definition init_get2 :: "registry \<Rightarrow> env \<Rightarrow> st \<Rightarrow> (int \<times> st) option" where
  "init_get2 reg env st =
    (let (req, g) = st; req = complete_env (e_cfg env) (SQUASH_KA req) in
     if \<not> contains_str (r_request_uri req) ''.asp'' \<and> \<not> contains_str (r_request_uri req) ''share.js''
     then map_option (\<lambda>(_, st). (1, st)) (init_form reg env (req, g))
     else if crawler req then Some (0, send_r_bad_request env (req, g))
     else case open_document env (req, g) of
       Inl res \<Rightarrow> Some res
     | Inr (data_fd, homepage, req, g) \<Rightarrow>
         let req = req \<lparr> r_filesize := st_size (e_fstat env data_fd) \<rparr> in
         if r_method req = M_HEAD then Some (0, send_r_request_ok env (req, g))
         else case e_mmap env data_fd of
           None \<Rightarrow> Some (0, req, g)
         | Some data \<Rightarrow>
             map_option get_done
               (page_loop reg env (take (r_filesize req) data) 0
                 (send_r_request_ok env (req \<lparr> r_data_mem := Some data \<rparr>, g))))"

section \<open>The output of a dynamic page\<close>

lemma copy_text_pending:
  assumes "buf_ok r" "0 < r_max_buffer_size r" "length t = bob" "bslice (r_filepos r) (r_filepos r + bob) data = t"
  shows "pending (copy_text data bob r) = pending r @ t \<and> buf_ok (copy_text data bob r) \<and>
    0 < r_max_buffer_size (copy_text data bob r) \<and> r_filepos (copy_text data bob r) = r_filepos r + bob"
proof -
  let ?r = "grow_buffer (bob + r_buffer_end r) r"
  have g: "buf_ok ?r" "pending ?r = pending r" "bob + r_buffer_end r \<le> r_max_buffer_size ?r"
    using grow_buffer_ok [OF assms(1,2)] by auto
  have fp: "r_filepos ?r = r_filepos r" by (rule grow_buffer_filepos)
  have "0 < r_max_buffer_size ?r" by (rule grow_buffer_pos [OF assms(2)])
  moreover have "buf_ok (copy_text data bob r)"
    using g assms(3,4) fp by (auto simp: copy_text_def Let_def buf_ok_def)
  moreover have "pending (copy_text data bob r) = pending r @ t"
    using g assms(3,4) fp bslice_mem_write [of "r_buffer_start r" "r_buffer_end r" "r_buffer ?r" t]
    by (auto simp: copy_text_def Let_def buf_ok_def pending_def add.commute)
  ultimately show ?thesis using fp by (simp add: copy_text_def Let_def)
qed

text \<open>A page: texts, each followed by a script, and a last text.\<close>

fun page_source :: "(bytes \<times> bytes) list \<Rightarrow> bytes \<Rightarrow> bytes" where
  "page_source [] tail = tail"
| "page_source ((t, s) # ps) tail = t @ ''<%'' @ s @ ''%>'' @ page_source ps tail"

definition script_ok :: "bytes \<times> bytes \<Rightarrow> bool" where
  "script_ok p \<longleftrightarrow> clear_of ''<%'' (fst p) \<and> clear_of ''%>'' (''<%'' @ snd p)"

text \<open>What it means that a script only writes: wherever it stands, it appends \<open>out s\<close>.\<close>

definition script_writes :: "registry \<Rightarrow> env \<Rightarrow> (bytes \<Rightarrow> bytes) \<Rightarrow> bytes \<Rightarrow> bool" where
  "script_writes reg env out s \<longleftrightarrow>
    (\<forall>pre post st. buf_ok (fst st) \<and> 0 < r_max_buffer_size (fst st) \<longrightarrow>
      (\<exists>st'. handleScript reg env (pre @ ''<%'' @ s @ ''%>'' @ post) (length pre) (length pre + 2 + length s) st = Some st' \<and>
        pending (fst st') = pending (fst st) @ out s \<and> buf_ok (fst st') \<and> 0 < r_max_buffer_size (fst st') \<and>
        r_filepos (fst st') = r_filepos (fst st)))"

lemma page_loop_output:
  assumes "list_all script_ok ps" "\<forall>(t, s) \<in> set ps. script_writes reg env out s"
    and "\<not> sublist ''<%'' tail"
    and "buf_ok (fst st)" "0 < r_max_buffer_size (fst st)" "r_filepos (fst st) = length pre"
  shows "\<exists>st'. page_loop reg env (pre @ page_source ps tail) (length pre) st = Some st' \<and>
    pending (fst st') = pending (fst st) @ concat (map (\<lambda>(t, s). t @ out s) ps) @ tail \<and>
    r_filepos (fst st') = length pre + length (page_source ps tail)"
  using assms
proof (induction ps arbitrary: pre st)
  case Nil
  have none: "strstr tail ''<%'' = None" using Nil.prems(3) by (simp add: strstr_None)
  have "bslice (r_filepos (fst st)) (r_filepos (fst st) + length tail) (pre @ tail) = tail"
    using Nil.prems(6) by (simp add: bslice_def)
  from copy_text_pending [OF Nil.prems(4,5) refl this]
  show ?case using none by (cases "tail = []"; subst page_loop.simps) (simp_all add: Nil.prems(6))
next
  case (Cons p ps)
  obtain t s where p: "p = (t, s)" by fastforce
  let ?rest = "page_source ps tail"
  let ?data = "pre @ t @ ''<%'' @ s @ ''%>'' @ ?rest"
  let ?req = "copy_text ?data (length t) (fst st)"
  let ?st = "(?req \<lparr> r_filepos := r_filepos ?req + (length s + 4) \<rparr>, snd st)"
  have ok: "clear_of ''<%'' t" "clear_of ''%>'' (''<%'' @ s)" "script_writes reg env out s"
    using Cons.prems(1,2) by (auto simp: p script_ok_def)
  have left: "strstr (t @ ''<%'' @ s @ ''%>'' @ ?rest) ''<%'' = Some (length t)"
    by (rule strstr_clear [OF ok(1)]) simp
  have right: "strstr (''<%'' @ s @ ''%>'' @ ?rest) ''%>'' = Some (length s + 2)"
    using strstr_clear [OF ok(2), of ?rest] by simp
  have "bslice (r_filepos (fst st)) (r_filepos (fst st) + length t) ?data = t"
    using Cons.prems(6) by (simp add: bslice_def)
  note copy = copy_text_pending [OF Cons.prems(4,5) refl this]
  then have "buf_ok (fst ?st)" "0 < r_max_buffer_size (fst ?st)" "pending (fst ?st) = pending (fst st) @ t"
    by (auto simp: buf_ok_def pending_def)
  then obtain st1 where st1: "handleScript reg env ?data (length pre + length t) (length pre + length t + (length s + 2)) ?st = Some st1"
      "pending (fst st1) = pending (fst st) @ t @ out s" "buf_ok (fst st1)" "0 < r_max_buffer_size (fst st1)"
      "r_filepos (fst st1) = r_filepos ?req + (length s + 4)"
    using ok(3) [unfolded script_writes_def, rule_format, of ?st "pre @ t" ?rest]
    by (auto simp: add.assoc add.commute [of 2] split: prod.splits)
  have pos: "r_filepos (fst st1) = length (pre @ t @ ''<%'' @ s @ ''%>'')" using st1(5) copy Cons.prems(6) by simp
  obtain st2 where st2: "page_loop reg env ((pre @ t @ ''<%'' @ s @ ''%>'') @ ?rest) (length (pre @ t @ ''<%'' @ s @ ''%>'')) st1 = Some st2"
      "pending (fst st2) = pending (fst st1) @ concat (map (\<lambda>(t, s). t @ out s) ps) @ tail"
      "r_filepos (fst st2) = length (pre @ t @ ''<%'' @ s @ ''%>'') + length ?rest"
    using Cons.IH [OF _ _ Cons.prems(3) st1(3,4) pos] Cons.prems(1,2) by auto
  have d: "drop (length pre) ?data = t @ ''<%'' @ s @ ''%>'' @ ?rest"
    "drop (length t) (t @ ''<%'' @ s @ ''%>'' @ ?rest) = ''<%'' @ s @ ''%>'' @ ?rest" by simp_all
  have "page_loop reg env ?data (length pre) st = Some st2"
    using left right st1(1) st2(1) d
    by (subst page_loop.simps) (simp add: Let_def ac_simps numeral_eq_Suc)
  then show ?case using st1(2) st2(2,3) by (simp add: p)
qed

text \<open>C28: A dynamic page is sent as its texts in their order, each script replaced by what its
  functions write, and the whole file is used up, provided every script only writes.\<close>

theorem page_output:
  assumes "list_all script_ok ps" "\<forall>(t, s) \<in> set ps. script_writes reg env out s"
    and "\<not> sublist ''<%'' tail"
    and "buf_ok (fst st)" "0 < r_max_buffer_size (fst st)" "r_filepos (fst st) = 0"
  shows "\<exists>st'. page_loop reg env (page_source ps tail) 0 st = Some st' \<and>
    pending (fst st') = pending (fst st) @ concat (map (\<lambda>(t, s). t @ out s) ps) @ tail \<and>
    r_filepos (fst st') = length (page_source ps tail)"
  using page_loop_output [OF assms(1-5), of "[]"] assms(6) by simp

definition sample_registry :: registry where
  "sample_registry = boaASPDefine ''getInfo'' (\<lambda>env args st. Some (boaWrite (fst st) (concat args), snd st))
     \<lparr> root_form = [], root_asp = [] \<rparr>"

lemma sample_script:
  "script_writes sample_registry sample_env (\<lambda>_. ''lan-ip'') ('' '' @ script_text ''getInfo'' [''lan-ip''] @ '' '')"
  unfolding script_writes_def
proof (intro allI impI)
  fix pre post :: bytes and st :: st
  assume ok: "buf_ok (fst st) \<and> 0 < r_max_buffer_size (fst st)"
  let ?text = "script_text ''getInfo'' [''lan-ip'']"
  let ?st' = "(boaWrite (fst st) ''lan-ip'', snd st)"
  obtain ret r' where w: "boaWriteBlock (fst st) ''lan-ip'' = (ret, r')" by fastforce
  have "r_filepos r' = r_filepos (fst st) \<and> 0 < r_max_buffer_size r'"
    using w ok grow_buffer_pos [of "fst st"] by (auto simp: boaWriteBlock_def Let_def split: if_splits)
  moreover have "handleScript sample_registry sample_env (pre @ ''<% '' @ ?text @ '' %>'' @ post) (length pre)
      (length pre + length ?text + 4) st = Some ?st'"
    by (subst handleScript_runs [where name = "''getInfo''" and args = "[''lan-ip'']" and pre = pre and post = post
          and f = "\<lambda>env args st. Some (boaWrite (fst st) (concat args), snd st)"])
       (simp_all add: sample_registry_def boaASPDefine_def name_ok_def arg_ok_def ARGV_MAX_def)
  ultimately show "\<exists>st'. handleScript sample_registry sample_env
      (pre @ ''<%'' @ ('' '' @ ?text @ '' '') @ ''%>'' @ post) (length pre)
      (length pre + 2 + length ('' '' @ ?text @ '' '')) st = Some st' \<and>
      pending (fst st') = pending (fst st) @ ''lan-ip'' \<and> buf_ok (fst st') \<and>
      0 < r_max_buffer_size (fst st') \<and> r_filepos (fst st') = r_filepos (fst st)"
    using boaWriteBlock_outcome [OF _ _ w] ok w by (intro exI [of _ ?st']) (simp add: boaWrite_def numeral_eq_Suc)
qed

theorem page_output_witness:
  "\<exists>st'. page_loop sample_registry sample_env (''<b><% getInfo('' @ [QUOTE] @ ''lan-ip'' @ [QUOTE] @ ''); %></b>'') 0
     (fresh_request 10, globals_init) = Some st' \<and> pending (fst st') = ''<b>lan-ip</b>''"
proof -
  let ?s = "'' '' @ script_text ''getInfo'' [''lan-ip''] @ '' ''"
  have "script_ok (''<b>'', ?s)"
    by (simp add: script_ok_def clear_of_def script_text_def sublist_Cons_right)
  moreover have "0 < r_max_buffer_size (fresh_request 10)" "r_filepos (fresh_request 10) = 0"
    by (simp_all add: fresh_request_def blank_request_def)
  ultimately show ?thesis
    using page_output [of "[(''<b>'', ?s)]" sample_registry sample_env "\<lambda>_. ''lan-ip''" "''</b>''" "(fresh_request 10, globals_init)"]
      sample_script
    by (auto simp: script_text_def sublist_Cons_right)
qed

section \<open>The bytes of a file\<close>

definition conv :: "request \<Rightarrow> bytes \<Rightarrow> bytes" where
  "conv r bs = (case r_cp_table r of None \<Rightarrow> bs | Some t \<Rightarrow> map (\<lambda>c. t ! uchar c) bs)"

lemma conv_upd [simp]: "conv (r \<lparr> r_filepos := x \<rparr>) = conv r"
  by (simp add: conv_def fun_eq_iff)

text \<open>While a file is sent, the mapped copy is converted up to \<open>bytesconverted\<close>; \<open>file\<close> is the file.\<close>

definition file_ok :: "bytes \<Rightarrow> request \<Rightarrow> bool" where
  "file_ok file r \<longleftrightarrow> r_method r \<noteq> M_HEAD \<and> r_filesize r = length file \<and> r_filepos r \<le> length file \<and>
     r_bytesconverted r \<le> min (length file) (r_filepos r + BYTES_TO_WRITE) \<and>
     (\<exists>d. r_data_mem r = Some d \<and> length file \<le> length d \<and>
       (\<forall>i. r_filepos r \<le> i \<and> i < length file \<longrightarrow>
          d ! i = (if i < r_bytesconverted r then conv r file ! i else file ! i)))"

definition unsent_file :: "bytes \<Rightarrow> request \<Rightarrow> bytes" where
  "unsent_file file r = drop (r_filepos r) (conv r file)"

lemma length_conv [simp]: "length (conv r bs) = length bs"
  by (simp add: conv_def split: option.split)

lemma convert_part_ok:
  assumes "file_ok file r" "n = min (r_filesize r - r_filepos r) BYTES_TO_WRITE"
  shows "file_ok file (convert_part n r) \<and> conv (convert_part n r) = conv r \<and> r_filepos (convert_part n r) = r_filepos r \<and>
    r_fd (convert_part n r) = r_fd r \<and> r_filesize (convert_part n r) = r_filesize r \<and>
    bslice (r_filepos r) (r_filepos r + n) (opt [] (r_data_mem (convert_part n r))) = take n (unsent_file file r)"
proof -
  let ?bc = "max (r_bytesconverted r) (r_filepos r)"
  let ?fp = "r_filepos r"
  let ?c = "convert_part n r"
  obtain d where d: "r_data_mem r = Some d" "length file \<le> length d"
    "\<And>i. ?fp \<le> i \<Longrightarrow> i < length file \<Longrightarrow> d ! i = (if i < r_bytesconverted r then conv r file ! i else file ! i)"
    using assms(1) by (auto simp: file_ok_def)
  have n: "?fp + n \<le> length file" "?bc \<le> ?fp + n" using assms by (auto simp: file_ok_def)
  obtain d' where d': "r_data_mem ?c = Some d'" "length d' = length d"
    "\<And>i. ?fp \<le> i \<Longrightarrow> i < length file \<Longrightarrow> d' ! i = (if i < ?fp + n then conv r file ! i else file ! i)"
  proof (cases "r_cp_table r")
    case None
    then show ?thesis using that [of d] d by (simp add: convert_part_def conv_def)
  next
    case (Some t)
    let ?d = "take ?bc d @ nls_convert (drop ?bc d) t (?fp + n - ?bc)"
    have l: "length ?d = length d" using n d(2) by (simp add: nls_convert_def)
    have nth: "?d ! i = (if i < ?fp + n then conv r file ! i else file ! i)" if i: "?fp \<le> i" "i < length file" for i
    proof (cases "i < ?bc")
      case True
      then have "i < r_bytesconverted r" using i(1) by auto
      then show ?thesis using d(3) [OF i] True n i d(2) by (simp add: nth_append)
    next
      case False
      then have "\<not> i < r_bytesconverted r" by linarith
      then have e: "d ! i = file ! i" using d(3) [OF i] by simp
      show ?thesis
      proof (cases "i < ?fp + n")
        case True
        then have "i - ?bc < ?fp + n - ?bc" using False by linarith
        then show ?thesis using True False e i d(2) n Some
          by (simp add: nth_append nls_convert_def conv_def)
      next
        case False': False
        then have "\<not> i - ?bc < ?fp + n - ?bc" using False by linarith
        then show ?thesis using False' False e i d(2) n
          by (simp add: nth_append nls_convert_def)
      qed
    qed
    show ?thesis
      by (rule that [OF _ l nth]) (simp_all add: convert_part_def Let_def Some d(1) max_def)
  qed
  have f: "conv ?c = conv r" "r_filepos ?c = ?fp" "r_filesize ?c = r_filesize r" "r_method ?c = r_method r" "r_fd ?c = r_fd r"
    by (auto simp: convert_part_def Let_def conv_def fun_eq_iff split: option.split)
  have bc: "r_bytesconverted ?c = (if r_cp_table r = None then ?bc else ?fp + n)"
    by (auto simp: convert_part_def Let_def max_def)
  have "file_ok file ?c"
    unfolding file_ok_def f bc
    using assms d(2) d' n by (auto simp: file_ok_def conv_def max_def)
  moreover have "bslice ?fp (?fp + n) (opt [] (r_data_mem ?c)) = take n (unsent_file file r)"
    using d' n d(2) by (intro nth_equalityI) (auto simp: bslice_def unsent_file_def)
  ultimately show ?thesis using f by simp
qed

definition get_out :: "env \<Rightarrow> bytes \<Rightarrow> request \<Rightarrow> bytes" where
  "get_out env file r =
    (let n = min (r_filesize r - r_filepos r) BYTES_TO_WRITE in
     case e_write env (r_fd r) (take n (unsent_file file r)) of
       IO_ok k \<Rightarrow> take k (unsent_file file r) | _ \<Rightarrow> [])"

lemma process_get_step:
  assumes "file_ok file r" "io_bounded env" "process_get env (r, g) = (ret, r', g')"
  shows "file_ok file r' \<and> get_out env file r @ unsent_file file r' = unsent_file file r \<and>
    (ret = 1 \<longrightarrow> unsent_file file r' \<noteq> [])"
proof -
  define n where "n = min (r_filesize r - r_filepos r) BYTES_TO_WRITE"
  let ?c = "convert_part n r"
  note c = convert_part_ok [OF assms(1) n_def]
  have m: "r_method r \<noteq> M_HEAD" using assms(1) by (simp add: file_ok_def)
  have step: "process_get env (r, g) =
    (case e_write env (r_fd r) (take n (unsent_file file r)) of
       IO_again \<Rightarrow> (-1, ?c, g) | IO_err \<Rightarrow> (0, ?c, g)
     | IO_ok k \<Rightarrow> (if r_filepos r + k = r_filesize r then 0 else 1, ?c \<lparr> r_filepos := r_filepos r + k \<rparr>, g))"
    using c m by (simp add: process_get_def Let_def flip: n_def split: io_result.split)
  show ?thesis
  proof (cases "e_write env (r_fd r) (take n (unsent_file file r))")
    case (IO_ok k)
    then have k: "k \<le> n" "k \<le> length file - r_filepos r"
      using assms(2) by (auto simp: io_bounded_def unsent_file_def) (metis length_take min.boundedE length_drop length_conv)+
    have r': "r' = ?c \<lparr> r_filepos := r_filepos r + k \<rparr>" "ret = (if r_filepos r + k = r_filesize r then 0 else 1)"
      using step IO_ok assms(3) by auto
    have "conv r' = conv r" using c by (simp add: r')
    moreover have "file_ok file r'"
      using c k assms(1) unfolding r' by (auto simp: file_ok_def)
    ultimately show ?thesis
      using IO_ok r' k assms(1)
      by (auto simp: get_out_def n_def unsent_file_def file_ok_def add.commute Let_def)
         (metis append_take_drop_id drop_drop)
  qed (use step assms(3) c in \<open>auto simp: get_out_def n_def unsent_file_def\<close>)
qed

fun get_run :: "bytes \<Rightarrow> env list \<Rightarrow> st \<Rightarrow> bytes \<times> int \<times> st" where
  "get_run file [] st = ([], 1, st)"
| "get_run file (env # envs) st =
    (let (ret, st') = process_get env st; out = get_out env file (fst st)
     in if ret = 0 then (out, 0, st')
        else let (out', ret', st'') = get_run file envs st' in (out @ out', ret', st''))"

lemma get_run_transfers:
  assumes "file_ok file r" "\<forall>env \<in> set envs. io_bounded env" "get_run file envs (r, g) = (out, ret, r', g')"
  shows "file_ok file r' \<and> out @ unsent_file file r' = unsent_file file r"
  using assms
proof (induction envs arbitrary: r g out)
  case (Cons env envs)
  obtain ret1 r1 g1 where s: "process_get env (r, g) = (ret1, r1, g1)" by (metis prod_cases3)
  have io: "io_bounded env" using Cons.prems(2) by simp
  note one = process_get_step [OF Cons.prems(1) io s]
  show ?case
  proof (cases "ret1 = 0")
    case True
    then show ?thesis using Cons.prems(3) s one by (auto simp: Let_def)
  next
    case False
    obtain out' ret' r2 g2 where rest: "get_run file envs (r1, g1) = (out', ret', r2, g2)" by (metis prod_cases4)
    have "r2 = r' \<and> g2 = g' \<and> ret' = ret \<and> out = get_out env file r @ out'"
      using Cons.prems(3) s False rest by (auto simp: Let_def)
    then show ?thesis using Cons.IH [of r1 g1 out'] rest one Cons.prems(2) by auto
  qed
qed simp

text \<open>C29: Over any run of visits, however short the writes, the client gets the bytes of the file,
  converted to its code page, in their order and each once.\<close>

theorem get_transfers:
  assumes "file_ok file r" "\<forall>env \<in> set envs. io_bounded env" "get_run file envs (r, g) = (out, ret, r', g')"
  shows "file_ok file r' \<and> out @ unsent_file file r' = unsent_file file r"
  by (rule get_run_transfers [OF assms])

text \<open>A client that takes at least a byte at each visit.\<close>

definition takes_some :: "env \<Rightarrow> bool" where
  "takes_some env \<longleftrightarrow> io_bounded env \<and>
     (\<forall>fd bs. bs \<noteq> [] \<longrightarrow> (\<exists>k. e_write env fd bs = IO_ok k \<and> 0 < k))"

lemma process_get_progress:
  assumes "file_ok file r" "takes_some env" "process_get env (r, g) = (ret, r', g')" "unsent_file file r \<noteq> []"
  shows "length (unsent_file file r') < length (unsent_file file r) \<and> (ret = 0 \<longleftrightarrow> unsent_file file r' = [])"
proof -
  define n where "n = min (r_filesize r - r_filepos r) BYTES_TO_WRITE"
  let ?c = "convert_part n r"
  note c = convert_part_ok [OF assms(1) n_def]
  have m: "r_method r \<noteq> M_HEAD" "r_filesize r = length file" using assms(1) by (auto simp: file_ok_def)
  have "take n (unsent_file file r) \<noteq> []"
    using assms(4) m by (auto simp: n_def unsent_file_def BYTES_TO_WRITE_def)
  then obtain k where k: "e_write env (r_fd r) (take n (unsent_file file r)) = IO_ok k" "0 < k"
    using assms(2) unfolding takes_some_def by blast
  have "r' = ?c \<lparr> r_filepos := r_filepos r + k \<rparr>" "ret = (if r_filepos r + k = r_filesize r then 0 else 1)"
    using c m(1) k(1) assms(3) by (auto simp: process_get_def Let_def simp flip: n_def)
  moreover have "k \<le> length (take n (unsent_file file r))"
    using k(1) assms(2) unfolding takes_some_def io_bounded_def by blast
  ultimately show ?thesis
    using k(2) c m assms(4) by (auto simp: unsent_file_def)
qed

lemma get_run_delivers:
  assumes "file_ok file r" "\<forall>env \<in> set envs. takes_some env" "get_run file envs (r, g) = (out, ret, r', g')"
    and "unsent_file file r \<noteq> []" "length (unsent_file file r) \<le> length envs"
  shows "ret = 0 \<and> unsent_file file r' = []"
  using assms
proof (induction envs arbitrary: r g out)
  case (Cons env envs)
  obtain ret1 r1 g1 where s: "process_get env (r, g) = (ret1, r1, g1)" by (metis prod_cases3)
  have env: "takes_some env" "io_bounded env" using Cons.prems(2) by (simp_all add: takes_some_def)
  note step = process_get_step [OF Cons.prems(1) env(2) s]
  note progress = process_get_progress [OF Cons.prems(1) env(1) s Cons.prems(4)]
  show ?case
  proof (cases "ret1 = 0")
    case True
    then show ?thesis using Cons.prems(3) s progress by (auto simp: Let_def)
  next
    case False
    obtain out' ret' r2 g2 where rest: "get_run file envs (r1, g1) = (out', ret', r2, g2)" by (metis prod_cases4)
    have e: "r2 = r' \<and> g2 = g' \<and> ret' = ret" using Cons.prems(3) s False rest by (auto simp: Let_def)
    have "length (unsent_file file r1) \<le> length envs" using progress Cons.prems(5) by simp
    then show ?thesis using Cons.IH [of r1 g1 out'] rest e step progress False Cons.prems(2) by auto
  qed
qed simp

text \<open>C30: A file is delivered whole: when the client takes at least one byte at each visit, then after
  at most as many visits as bytes are left the transfer has ended and every byte was sent.\<close>

theorem get_delivers:
  assumes "file_ok file r" "\<forall>env \<in> set envs. takes_some env" "get_run file envs (r, g) = (out, ret, r', g')"
    and "unsent_file file r \<noteq> []" "length (unsent_file file r) \<le> length envs"
  shows "ret = 0 \<and> out = unsent_file file r"
  using get_run_delivers [OF assms] get_run_transfers [OF assms(1) _ assms(3)] assms(2)
  by (auto simp: takes_some_def)

definition sample_get :: request where
  "sample_get = blank_request \<lparr> r_method := M_GET, r_filesize := 3, r_data_mem := Some ''abc'', r_filepos := 1 \<rparr>"

lemma sample_get_ok: "file_ok ''abc'' sample_get" "unsent_file ''abc'' sample_get = ''bc''"
  by (auto simp: file_ok_def sample_get_def blank_request_def unsent_file_def conv_def BYTES_TO_WRITE_def)

theorem get_transfers_witness:
  "let (out, ret, r', g') = get_run ''abc'' [sample_env] (sample_get, globals_init)
   in out @ unsent_file ''abc'' r' = ''bc''"
proof -
  obtain out ret r' g' where run: "get_run ''abc'' [sample_env] (sample_get, globals_init) = (out, ret, r', g')"
    by (metis prod_cases4)
  have "io_bounded sample_env" by (auto simp: io_bounded_def sample_env_def)
  then show ?thesis using get_transfers [OF sample_get_ok(1) _ run] sample_get_ok(2) run by simp
qed

theorem get_delivers_witness:
  "fst (get_run ''abc'' [sample_env, sample_env] (sample_get, globals_init)) = ''bc''"
proof -
  obtain out ret r' g' where run: "get_run ''abc'' [sample_env, sample_env] (sample_get, globals_init) = (out, ret, r', g')"
    by (metis prod_cases4)
  have "takes_some sample_env" by (auto simp: takes_some_def io_bounded_def sample_env_def)
  then show ?thesis using get_delivers [OF sample_get_ok(1) _ run] sample_get_ok(2) run by simp
qed

end
