(* ===== verification/Dispatch.thy ===== *)
theory Dispatch
  imports Auth Pages Logline Get
begin

text \<open>
  From the end of the header to the handler (\<open>process_header_end\<close> of \<open>src/src/request.c\<close>): the checks a
  request passes in order, and where it goes.  \<open>None\<close> stands for a crash of the server (an undefined
  operation in one of the steps).
\<close>

section \<open>The checks of the page\<close>

text \<open>The request line is the first C string of \<open>client_stream\<close>.\<close>

definition asp_without_referer :: "request \<Rightarrow> bool" where
  "asp_without_referer req \<longleftrightarrow>
    (let line = cstr (r_client_stream req) in
     contains_str line ''.asp'' \<and> \<not> contains_str line ''login.asp'' \<and> \<not> contains_str line ''?v='' \<and>
     r_referer req = None)"

definition to_login_page :: "env \<Rightarrow> st \<Rightarrow> int \<times> st" where
  "to_login_page env st = (0, flush env (deo_redirect_login_web (fst st), snd st))"

text \<open>The lists of pages for the name of the user who logged in last.  The result says whether the page is
  refused.\<close>

definition page_refused :: "st \<Rightarrow> bool option" where
  "page_refused st =
    (let (req, g) = st in
     if g_login_username g = ''root'' then Some (checkAdminWhiteListPage (r_request_uri req) \<noteq> 0)
     else if g_login_username g = ''admin''
     then map_option (\<lambda>ret. ret \<noteq> 0) (checkUserWhiteListPage (r_request_uri req) (r_host req))
     else Some False)"

definition asks_redirect :: "request \<Rightarrow> bool" where
  "asks_redirect req \<longleftrightarrow>
    (case r_query_string req of None \<Rightarrow> False | Some q \<Rightarrow> contains_str q ''redirect-url'')"

section \<open>The handlers\<close>

definition start_post :: "env \<Rightarrow> st \<Rightarrow> int \<times> st" where
  "start_post env st =
    (let (req, g) = st in
     case e_mkstemp env of
       None \<Rightarrow> (0, req \<lparr> r_post_data_fd := -1 \<rparr>, g)
     | Some (fd, name) \<Rightarrow> (1, req \<lparr> r_post_data_fd := fd, r_post_file_name := Some name \<rparr>, g))"

definition start_handler :: "registry \<Rightarrow> env \<Rightarrow> st \<Rightarrow> (int \<times> st) option" where
  "start_handler reg env st =
    (let (req, g) = st in
     if r_method req = M_POST then Some (start_post env st)
     else if r_is_cgi req \<noteq> NOT_CGI then init_get2 reg env st
     else Some (init_get env (req \<lparr> r_status := WRITE \<rparr>, g)))"

definition after_auth :: "registry \<Rightarrow> env \<Rightarrow> st \<Rightarrow> (int \<times> st) option" where
  "after_auth reg env st =
    (if asp_without_referer (fst st) then Some (to_login_page env st)
     else case page_refused st of
            None \<Rightarrow> None
          | Some refused \<Rightarrow>
              if refused \<or> asks_redirect (fst st) then Some (to_login_page env st)
              else start_handler reg env st)"

definition open_pages :: "string list" where
  "open_pages =
    [''/admin/lanApConnection.asp'', ''/admin/wanApConnection.asp'', ''/boaform/admin/formWanApConnection'']"

definition authorize_page :: "registry \<Rightarrow> env \<Rightarrow> st \<Rightarrow> (int \<times> st) option" where
  "authorize_page reg env st =
    (if r_request_uri (fst st) \<in> set open_pages then after_auth reg env st
     else case auth_authorize env st of
            None \<Rightarrow> None
          | Some (ret, st) \<Rightarrow> if ret = 0 then Some (0, st) else after_auth reg env st)"

text \<open>Behind the translation of the address.\<close>

definition choose_codepage :: "registry \<Rightarrow> env \<Rightarrow> st \<Rightarrow> (int \<times> st) option" where
  "choose_codepage reg env st =
    (let (ret, req, g) = (if r_cp_name (fst st) = None then nls_try_redirect env st else (1, st))
     in if ret = 0 then Some (0, req, g)
        else authorize_page reg env (nls_set_codepage env g req, g))"

definition process_header_end :: "registry \<Rightarrow> env \<Rightarrow> st \<Rightarrow> (int \<times> st) option" where
  "process_header_end reg env st =
    (if r_logline (fst st) = None then Some (0, send_r_error env st)
     else
       let (req, g) = st; req = browser_match_request (g_tab g) req in
       if r_method req = M_GET \<and> attack_req_check env req then Some (0, send_r_bad_request env (req, g))
       else
         let (ret, req, g) = translate_uri env (req, g) in
         if ret = 0 then Some (0, SQUASH_KA req, g)
         else if r_request_from req = 3 then Some (0, send_web_redirect_msg env (req, g))
         else choose_codepage reg env (req, g))"

section \<open>What has been checked when a handler starts\<close>

text \<open>A request that may start its handler: its page is open to all, or outside the protected
  directories, or it shows the login of a listed user; no check of the page refuses it.\<close>

definition may_enter :: "st \<Rightarrow> bool" where
  "may_enter st \<longleftrightarrow>
    (let (req, g) = st; uri = r_request_uri req in
     uri \<in> set open_pages \<or> uri \<in> set login_pages \<or> \<not> is_protected (g_tab g) uri \<or>
     (\<exists>u \<in> set (user_login_list g). shows_login req u))"

definition page_ok :: "st \<Rightarrow> bool" where
  "page_ok st \<longleftrightarrow>
    \<not> asp_without_referer (fst st) \<and> page_refused st = Some False \<and> \<not> asks_redirect (fst st)"

lemma auth_same_request:
  assumes "auth_authorize env (req, g) = Some (ret, req', g')" "ret \<noteq> 0"
  shows "ret = 1 \<and> req' = req \<and> g_tab g' = g_tab g"
  using assms
  by (auto simp: auth_authorize_def auth_user_def auth_stranger_def Let_def
      split: if_splits option.splits prod.splits)

lemma auth_may_enter:
  assumes "auth_authorize env (req, g) = Some (ret, req', g')" "ret \<noteq> 0"
  shows "may_enter (req', g')"
proof (cases "is_protected (g_tab g) (r_request_uri req) \<and> r_request_uri req \<notin> set login_pages")
  case True
  note same = auth_same_request [OF assms]
  then obtain i u where u: "i < length (user_login_list g)" "shows_login req u"
    "user_login_list g' = (user_login_list g) [i := u \<lparr> u_last_time := e_time_counter env \<rparr>]"
    using auth_user_in [OF assms(1)] True by auto
  then have "u \<lparr> u_last_time := e_time_counter env \<rparr> \<in> set (user_login_list g')"
    by (simp add: set_update_memI)
  moreover have "shows_login req (u \<lparr> u_last_time := e_time_counter env \<rparr>)"
    using u(2) by (simp add: shows_login_def)
  ultimately show ?thesis using same by (auto simp: may_enter_def Let_def)
next
  case False
  then show ?thesis using auth_same_request [OF assms] by (auto simp: may_enter_def Let_def)
qed

lemma after_auth_cases:
  assumes "after_auth reg env st = Some (ret, st')"
  shows "page_ok st \<and> start_handler reg env st = Some (ret, st') \<or> \<not> page_ok st \<and> (ret, st') = to_login_page env st"
  using assms by (auto simp: after_auth_def page_ok_def split: if_splits option.splits)

lemma codepage_same:
  "r_pathname (nls_set_codepage env g req) = r_pathname req"
  "r_request_from (nls_set_codepage env g req) = r_request_from req"
  "r_is_cgi (nls_set_codepage env g req) = r_is_cgi req"
  by (simp_all add: nls_set_codepage_def Let_def split: option.split)

lemma redirect_same:
  assumes "nls_try_redirect env (req, g) = (ret, req', g')" "ret \<noteq> 0"
  shows "req' = req \<and> g' = g"
  using assms by (auto simp: nls_try_redirect_def Let_def split: option.splits if_splits prod.splits)

lemma fold_keeps: "(\<And>x r. f (h x r) = f r) \<Longrightarrow> f (fold h xs r) = f r"
  by (induction xs arbitrary: r) auto

lemma browser_match_same [simp]:
  "r_pathname (browser_match_request t req) = r_pathname req"
  "r_request_from (browser_match_request t req) = r_request_from req"
  "r_query_string (browser_match_request t req) = r_query_string req"
  "r_method (browser_match_request t req) = r_method req"
  by (auto simp: browser_match_request_def split: option.split intro!: fold_keeps)

text \<open>The page is open to all or \<open>auth_authorize\<close> lets the request pass.\<close>

definition let_in :: "env \<Rightarrow> st \<Rightarrow> st \<Rightarrow> bool" where
  "let_in env st st2 \<longleftrightarrow> (r_request_uri (fst st) \<in> set open_pages \<and> st2 = st) \<or> auth_authorize env st = Some (1, st2)"

text \<open>A request before its translation, and behind it with its code page.\<close>

definition at_start :: "st \<Rightarrow> st" where
  "at_start st = (browser_match_request (g_tab (snd st)) (fst st), snd st)"

definition with_codepage :: "env \<Rightarrow> st \<Rightarrow> st" where
  "with_codepage env st = (nls_set_codepage env (snd st) (fst st), snd st)"

text \<open>How a request comes to its handler: it has a request line without an attack, its address is
  translated, it is let in, and no check of the page refuses it.\<close>

definition passed :: "env \<Rightarrow> st \<Rightarrow> st \<Rightarrow> bool" where
  "passed env st st2 \<longleftrightarrow>
    r_logline (fst st) \<noteq> None \<and> \<not> (r_method (fst (at_start st)) = M_GET \<and> attack_req_check env (fst (at_start st))) \<and>
    (\<exists>st1. translate_uri env (at_start st) = (1, st1) \<and> r_request_from (fst st1) \<noteq> 3 \<and>
      let_in env (with_codepage env st1) st2 \<and> page_ok st2)"

text \<open>The answers to the requests that do not come so far, each with the check that failed.\<close>

definition refused :: "env \<Rightarrow> st \<Rightarrow> st \<Rightarrow> bool" where
  "refused env st st' \<longleftrightarrow>
    (r_logline (fst st) = None \<and> st' = send_r_error env st) \<or>
    (r_method (fst (at_start st)) = M_GET \<and> attack_req_check env (fst (at_start st)) \<and>
       st' = send_r_bad_request env (at_start st)) \<or>
    (\<exists>st1. translate_uri env (at_start st) = (0, st1) \<and> st' = (SQUASH_KA (fst st1), snd st1)) \<or>
    (\<exists>st1. translate_uri env (at_start st) = (1, st1) \<and>
      (r_request_from (fst st1) = 3 \<and> st' = send_web_redirect_msg env st1 \<or>
       nls_try_redirect env st1 = (0, st') \<or>
       auth_authorize env (with_codepage env st1) = Some (0, st') \<or>
       (\<exists>st2. let_in env (with_codepage env st1) st2 \<and> \<not> page_ok st2 \<and> (0, st') = to_login_page env st2)))"

lemma authorize_page_cases:
  assumes "authorize_page reg env st = Some (ret, st')"
  obtains "ret = 0" "auth_authorize env st = Some (0, st')"
  | st2 where "let_in env st st2" "\<not> page_ok st2" "(ret, st') = to_login_page env st2"
  | st2 where "let_in env st st2" "fst st2 = fst st" "may_enter st2" "page_ok st2" "start_handler reg env st2 = Some (ret, st')"
proof (cases "r_request_uri (fst st) \<in> set open_pages")
  case True
  then have a: "after_auth reg env st = Some (ret, st')" using assms by (simp add: authorize_page_def)
  have l: "let_in env st st" "may_enter st" using True by (cases st; simp add: let_in_def may_enter_def)+
  from after_auth_cases [OF a] show ?thesis using that(2,3) l by blast
next
  case False
  obtain req g where st: "st = (req, g)" by fastforce
  obtain a req2 g2 where a: "auth_authorize env (req, g) = Some (a, req2, g2)"
    using assms False by (auto simp: authorize_page_def st split: option.splits)
  show ?thesis
  proof (cases "a = 0")
    case True
    then show ?thesis using assms a False that(1) by (simp add: authorize_page_def st)
  next
    case na: False
    note same = auth_same_request [OF a na]
    have aa: "after_auth reg env (req2, g2) = Some (ret, st')" using assms a na False by (simp add: authorize_page_def st)
    have l: "let_in env st (req2, g2)" "may_enter (req2, g2)" "fst (req2, g2) = fst st"
      using same a auth_may_enter [OF a na] by (simp_all add: let_in_def st)
    from after_auth_cases [OF aa] show ?thesis using that(2,3) l by blast
  qed
qed

text \<open>C32: No handler runs unchecked.  Whatever \<open>process_header_end\<close> returns, one of two holds.  Either
  it is what the handler returned that was started on a request whose line was read and shows no attack,
  whose address was translated, that was let in (its page is open to all, or \<open>auth_authorize\<close> passed it
  because the page is unprotected or because it shows the login of a listed user) and that no check of
  the page refuses; its path lies under a configured directory, or it has none and is a request for a
  script, not for a file.  Or the result is 0 and the state is exactly the answer of the one check that
  failed, so that no handler had a part in it.\<close>

theorem handler_checked:
  assumes "process_header_end reg env (req, g) = Some (ret, st')" "r_pathname req = None"
    and ok: "aliases_ok (g_tab g)" "passwd_ok (e_getpwnam env) (g_tab g)"
  shows "(ret = 0 \<and> refused env (req, g) st') \<or>
    (\<exists>st2. start_handler reg env st2 = Some (ret, st') \<and> passed env (req, g) st2 \<and> may_enter st2 \<and>
      (case r_pathname (fst st2) of
         None \<Rightarrow> r_is_cgi (fst st2) \<noteq> NOT_CGI
       | Some path \<Rightarrow> under_root env (g_tab g) path))"
proof -
  let ?req = "browser_match_request (g_tab g) req"
  have s: "at_start (req, g) = (?req, g)" by (simp add: at_start_def)
  obtain t req1 g1 where t: "translate_uri env (?req, g) = (t, req1, g1)" by (cases "translate_uri env (?req, g)")
  have t01: "t = 0 \<or> t = 1"
    using t translate_uri_answered [where env = env and st = "(?req, g)"] by (auto simp: answered_def)
  show ?thesis
  proof (cases "r_logline req = None \<or> r_method ?req = M_GET \<and> attack_req_check env ?req \<or> t = 0 \<or> r_request_from req1 = 3")
    case True
    then have "ret = 0 \<and> refused env (req, g) st'"
      using assms(1) t t01 by (auto simp: process_header_end_def refused_def s Let_def split: if_splits)
    then show ?thesis ..
  next
    case False
    then have t1: "translate_uri env (at_start (req, g)) = (1, req1, g1)"
      and c: "choose_codepage reg env (req1, g1) = Some (ret, st')"
      using assms(1) t t01 s by (auto simp: process_header_end_def Let_def)
    have w: "with_codepage env (req1, g1) = (nls_set_codepage env g1 req1, g1)" by (simp add: with_codepage_def)
    have path: "(r_pathname req1 = None \<and> r_is_cgi req1 \<noteq> NOT_CGI) \<or>
        (\<exists>path. r_pathname req1 = Some path \<and> under_root env (g_tab g) path)"
      by (rule translate_uri_path [OF t1 [unfolded s] _ ok]) (simp add: assms(2))
    have refuse: "ret = 0 \<Longrightarrow> nls_try_redirect env (req1, g1) = (0, st') \<or>
        auth_authorize env (with_codepage env (req1, g1)) = Some (0, st') \<or>
        (\<exists>st2. let_in env (with_codepage env (req1, g1)) st2 \<and> \<not> page_ok st2 \<and> (0, st') = to_login_page env st2) \<Longrightarrow> ?thesis"
      using t1 unfolding refused_def by blast
    show ?thesis
    proof (cases "ret = 0 \<and> nls_try_redirect env (req1, g1) = (0, st')")
      case True
      then show ?thesis using refuse by blast
    next
      case F: False
      then have "authorize_page reg env (with_codepage env (req1, g1)) = Some (ret, st')"
        unfolding w using c redirect_same [of env req1 g1] by (auto simp: choose_codepage_def split: if_splits prod.splits)
      then show ?thesis
      proof (cases rule: authorize_page_cases)
        case 1
        then show ?thesis using refuse by blast
      next
        case (2 st2)
        moreover from this have "ret = 0" by (simp add: to_login_page_def)
        ultimately show ?thesis using refuse by metis
      next
        case (3 st2)
        have "passed env (req, g) st2"
          unfolding passed_def using 3(1,4) False t1 by (intro conjI exI [of _ "(req1, g1)"]) (auto simp: s)
        moreover have "r_pathname (fst st2) = r_pathname req1" "r_is_cgi (fst st2) = r_is_cgi req1"
          using 3(2) by (simp_all add: w codepage_same)
        ultimately show ?thesis using 3(3,5) path by (intro disjI2 exI [of _ st2]) auto
      qed
    qed
  qed
qed

definition sample_post :: request where
  "sample_post = blank_request \<lparr> r_logline := Some ''POST /share.js HTTP/1.0'', r_method := M_POST,
     r_request_uri := ''/share.js'' \<rparr>"

theorem handler_checked_witness:
  "\<exists>st2 st'. start_handler sample_registry sample_env st2 = Some (1, st') \<and>
     passed sample_env (sample_post, globals_init) st2 \<and> may_enter st2"
proof -
  have t: "translate_uri sample_env (sample_post, globals_init) =
      (1, sample_post \<lparr> r_pathname := Some ''/var/www/share.js'', r_is_cgi := CGI,
          r_script_name := Some ''/share.js'' \<rparr>, globals_init)"
    by (simp add: translate_uri_def uri_strip_host_def strncaseeq_def strcaseeq_def toupper_def is_lower_def
        uchar_def unescape_uri_def cstr_def clean_pathname_def skip_dots.simps char_at_def uri_codepage_def
        globals_init_def tables_init_def uri_docroot_def uri_vhost_root_def sample_env_def
        sample_config_def uri_classify_def contains_str_def sample_post_def blank_request_def Let_def
        uri_set_query_def uri_route_def)
  have "process_header_end sample_registry sample_env (sample_post, globals_init) =
      choose_codepage sample_registry sample_env
        (sample_post \<lparr> r_pathname := Some ''/var/www/share.js'', r_is_cgi := CGI, r_script_name := Some ''/share.js'' \<rparr>,
         globals_init)"
    using t by (simp add: process_header_end_def Let_def browser_match_request_def sample_post_def blank_request_def)
  moreover have "\<exists>st'. \<dots> = Some (1, st')"
    by (auto simp: choose_codepage_def nls_try_redirect_def authorize_page_def auth_authorize_def globals_init_def
        tables_init_def after_auth_def asp_without_referer_def page_refused_def asks_redirect_def start_handler_def
        start_post_def sample_env_def nls_set_codepage_def Let_def sample_post_def blank_request_def contains_str_def
        split: option.split if_splits)
  ultimately obtain st' where p: "process_header_end sample_registry sample_env (sample_post, globals_init) = Some (1, st')"
    by auto
  have c: "r_pathname sample_post = None" "aliases_ok (g_tab globals_init)"
    "passwd_ok (e_getpwnam sample_env) (g_tab globals_init)"
    by (simp_all add: sample_post_def blank_request_def globals_init_def tables_init_def aliases_ok_def passwd_ok_def)
  have "(1 :: int) \<noteq> 0" by simp
  then show ?thesis using handler_checked [OF p c] by blast
qed

text \<open>The search for scripts in a \<open>GET\<close> request runs before the address is split at the question mark:
  at that time there is no query string to search.\<close>

lemma get_query_unsearched:
  "r_method req = M_GET \<Longrightarrow> r_query_string req = None \<Longrightarrow> \<not> attack_req_check env (browser_match_request t req)"
  by (simp add: attack_req_check_def)

end
