(* ===== verification/Read.thy ===== *)
theory Read
  imports Dispatch
begin

text \<open>
  Reading the header of a request, character by character (\<open>read_header\<close> of \<open>src/src/read.c\<close>).  It reads
  again after a line was taken out of its buffer: the reads are a list of results; when it is used up
  a read would block.
\<close>

section \<open>The characters of a header\<close>

definition byte_at :: "bytes \<Rightarrow> nat \<Rightarrow> char" where
  "byte_at mem i = (if i < length mem then mem ! i else NUL)"

text \<open>The states of a line end.  The last place of the buffer ends a header whatever it holds.\<close>

definition scan_char :: "nat \<Rightarrow> nat \<Rightarrow> request \<Rightarrow> request" where
  "scan_char buffer check req =
    (let c = byte_at (r_client_stream req) check in
     case r_status req of
       READ_HEADER \<Rightarrow>
         if c = CR then req \<lparr> r_status := ONE_CR, r_header_end := check \<rparr>
         else if c = LF then req \<lparr> r_status := ONE_LF, r_header_end := check \<rparr>
         else if check = buffer + CLIENT_STREAM_SIZE - 1 then req \<lparr> r_status := ONE_LF, r_header_end := check \<rparr>
         else req
     | ONE_CR \<Rightarrow> req \<lparr> r_status := (if c = LF then ONE_LF else READ_HEADER) \<rparr>
     | ONE_LF \<Rightarrow> req \<lparr> r_status := (if c = CR then TWO_CR else if c = LF then BODY_READ else READ_HEADER) \<rparr>
     | TWO_CR \<Rightarrow> req \<lparr> r_status := (if c = LF then BODY_READ else READ_HEADER) \<rparr>
     | _ \<Rightarrow> req)"

definition end_line :: "request \<Rightarrow> request" where
  "end_line req = req \<lparr> r_client_stream := mem_write (r_client_stream req) (r_header_end req) [NUL] \<rparr>"

text \<open>What has come of the body of a \<open>POST\<close> request goes to \<open>buffer\<close>; \<open>n\<close> bytes stand at \<open>check\<close>.\<close>

definition start_body :: "nat \<Rightarrow> nat \<Rightarrow> st \<Rightarrow> st" where
  "start_body n check st =
    (let (req, g) = st;
         (req, g) = (case r_content_length req of
                       None \<Rightarrow> (req, g)
                     | Some len \<Rightarrow> (req \<lparr> r_filesize := nat (atoi len) \<rparr>, g \<lparr> g_filesize := atoi len \<rparr>));
         req = req \<lparr> r_filepos := n,
                     r_buffer := mem_write (r_buffer req) 0 (bslice check (check + n) (r_client_stream req)),
                     r_header_line := 0, r_header_end := n \<rparr>
     in (if r_filepos req \<ge> r_filesize req then req \<lparr> r_cgi_status := CGI_CLOSE \<rparr> else req, g))"

definition header_done :: "registry \<Rightarrow> env \<Rightarrow> nat \<Rightarrow> nat \<Rightarrow> st \<Rightarrow> (int \<times> st) option" where
  "header_done reg env n check st =
    (case process_header_end reg env st of
       None \<Rightarrow> None
     | Some (retval, req, g) \<Rightarrow>
         let req = req \<lparr> r_pipeline_start := check \<rparr>
         in Some (retval, if retval \<noteq> 0 \<and> r_method req = M_POST then start_body n check (req, g) else (req, g)))"

text \<open>The outcome of a run over the bytes that were read: the handler's return, or all bytes used, with
  the mark that a line was taken out.\<close>

datatype scan_result = Scan_return int st | Scan_end bool st

text \<open>\<open>n\<close> bytes are left at \<open>check\<close>.  A line taken out moves \<open>check\<close> and the end of the bytes alike.\<close>

fun scan :: "registry \<Rightarrow> env \<Rightarrow> nat \<Rightarrow> nat \<Rightarrow> nat \<Rightarrow> bool \<Rightarrow> st \<Rightarrow> scan_result option" where
  "scan reg env buffer 0 check restart st = Some (Scan_end restart st)"
| "scan reg env buffer (Suc n) check restart st =
    (let (req, g) = st; req = scan_char buffer check req; check = check + 1 in
     if r_status req = ONE_LF then
       let req = end_line req in
       if r_logline req \<noteq> None then
         let (count, req) = process_option_line (e_cfg env) req; check = check - count
         in scan reg env buffer n check (restart \<or> count \<noteq> 0) (req \<lparr> r_header_line := check \<rparr>, g)
       else
         let (ret, req, g) = process_logline env (req, g) in
         if ret = 0 then Some (Scan_return 0 (req, g))
         else if r_simple req then map_option (\<lambda>(ret, st). Scan_return ret st) (process_header_end reg env (req, g))
         else scan reg env buffer n check restart (req \<lparr> r_header_line := check \<rparr>, g)
     else if r_status req = BODY_READ then
       map_option (\<lambda>(ret, st). Scan_return ret st) (header_done reg env n check (req, g))
     else scan reg env buffer n check restart (req, g))"

section \<open>Reading the header\<close>

text \<open>After all bytes were used: the result, or another round.\<close>

definition scan_ended :: "env \<Rightarrow> nat \<Rightarrow> bool \<Rightarrow> st \<Rightarrow> (int \<times> st) + st" where
  "scan_ended env buffer restart st =
    (let (req, g) = st; len = length (cstr (drop buffer (r_client_stream req))) in
     if r_status req = READ_HEADER \<and> request_type req = M_INVALID then Inl (0, send_r_bad_request env st)
     else if restart then Inr st
     else if r_status req = READ_HEADER \<and> len \<ge> CLIENT_STREAM_SIZE then Inl (0, send_r_entity_too_large env st)
     else if r_status req = READ_HEADER \<and> len > 0 then Inl (0, send_r_bad_request env st)
     else Inl (1, st))"

definition read_chunk :: "registry \<Rightarrow> env \<Rightarrow> nat \<Rightarrow> nat \<Rightarrow> st \<Rightarrow> ((int \<times> st) + st) option" where
  "read_chunk reg env buffer n st =
    (case scan reg env buffer n buffer False st of
       None \<Rightarrow> None
     | Some (Scan_return ret st) \<Rightarrow> Some (Inl (ret, st))
     | Some (Scan_end restart st) \<Rightarrow> Some (scan_ended env buffer restart st))"

text \<open>The bytes a read delivers go behind those already there; with no room left nothing can be read.\<close>

definition take_in :: "bytes \<Rightarrow> request \<Rightarrow> request" where
  "take_in d req = req \<lparr> r_client_stream := mem_write (r_client_stream req) (r_client_stream_pos req) d,
                          r_client_stream_pos := r_client_stream_pos req + length d \<rparr>"

fun read_loop :: "registry \<Rightarrow> env \<Rightarrow> read_result list \<Rightarrow> st \<Rightarrow> (int \<times> st) option" where
  "read_loop reg env [] st = Some (if r_client_stream_pos (fst st) \<ge> CLIENT_STREAM_SIZE then 0 else -1, st)"
| "read_loop reg env (rd # reads) st =
    (let (req, g) = st; left = CLIENT_STREAM_SIZE - r_client_stream_pos req in
     if r_client_stream_pos req \<ge> CLIENT_STREAM_SIZE then Some (0, st)
     else case rd of
       RD_intr \<Rightarrow> Some (1, st)
     | RD_again \<Rightarrow> Some (-1, st)
     | RD_badf \<Rightarrow> Some (0, SQUASH_KA req, g)
     | RD_err \<Rightarrow> Some (0, st)
     | RD_data d0 \<Rightarrow>
         let d = take left d0 in
         if d = [] then Some (0, st)
         else case read_chunk reg env (r_client_stream_pos req) (length d) (take_in d req, g) of
           None \<Rightarrow> None
         | Some (Inl res) \<Rightarrow> Some res
         | Some (Inr st) \<Rightarrow> read_loop reg env reads st)"

definition read_header :: "registry \<Rightarrow> env \<Rightarrow> read_result list \<Rightarrow> st \<Rightarrow> (int \<times> st) option" where
  "read_header reg env reads st =
    (let (req, g) = st; start = r_pipeline_start req in
     if start \<noteq> 0 then
       (case read_chunk reg env 0 start (req \<lparr> r_client_stream_pos := start, r_pipeline_start := 0 \<rparr>, g) of
          None \<Rightarrow> None
        | Some (Inl res) \<Rightarrow> Some res
        | Some (Inr st) \<Rightarrow> read_loop reg env reads st)
     else read_loop reg env reads st)"

section \<open>Bytes at a place\<close>

definition at :: "bytes \<Rightarrow> nat \<Rightarrow> bytes \<Rightarrow> bool" where
  "at mem p w \<longleftrightarrow> prefix w (drop p mem)"

lemma at_Nil [simp]: "at mem p []"
  by (simp add: at_def)

lemma at_Cons: "at mem p (c # w) \<longleftrightarrow> p < length mem \<and> mem ! p = c \<and> at mem (Suc p) w"
proof (cases "p < length mem")
  case True
  then show ?thesis by (auto simp: at_def Cons_nth_drop_Suc [symmetric])
qed (simp add: at_def)

lemma at_append: "at mem p (v @ w) \<longleftrightarrow> at mem p v \<and> at mem (p + length v) w"
proof (induction v arbitrary: p)
  case (Cons c v)
  then show ?case by (simp add: at_Cons)
qed simp

lemma at_take: "at mem p w \<Longrightarrow> bslice p (p + length w) mem = w"
  by (auto simp: at_def bslice_def prefix_def)

lemma at_write_behind:
  "off + length src \<le> p \<Longrightarrow> off + length src \<le> length mem \<Longrightarrow> at (mem_write mem off src) p w = at mem p w"
  by (simp add: at_def mem_write_def)

lemma at_write_before:
  "p + length w \<le> off \<Longrightarrow> off \<le> length mem \<Longrightarrow> at mem p w \<Longrightarrow> at (mem_write mem off src) p w"
  by (auto simp: at_def mem_write_def prefix_def drop_take)

lemma at_write_here: "off \<le> length mem \<Longrightarrow> at (mem_write mem off src) off src"
  by (simp add: at_def mem_write_def)

lemma at_moved:
  assumes "at mem p w" "e \<le> p" "p + length w \<le> n" "off \<le> e" "off \<le> length mem"
  shows "at (mem_write mem off (bslice e n mem)) (off + (p - e)) w"
proof -
  obtain r where r: "drop p mem = w @ r" using assms(1) by (auto simp: at_def prefix_def)
  have "drop (p - e) (bslice e n mem) = take (n - p) (drop p mem)"
    using assms(2) by (simp add: bslice_def drop_take)
  also have "prefix w \<dots>" using r assms(3) by simp
  finally have "prefix w (drop (p - e) (bslice e n mem @ x))" for x by (auto simp: prefix_def)
  moreover have "drop (off + (p - e)) (mem_write mem off (bslice e n mem)) =
      drop (p - e) (bslice e n mem @ drop (off + length (bslice e n mem)) mem)"
    using assms(5) by (simp add: mem_write_def)
  ultimately show ?thesis by (simp only: at_def)
qed

section \<open>One line\<close>

text \<open>A text without line ends and zero bytes.\<close>

definition plain :: "string \<Rightarrow> bool" where
  "plain w \<longleftrightarrow> w \<noteq> [] \<and> CR \<notin> set w \<and> LF \<notin> set w \<and> NUL \<notin> set w"

lemma byte_at_at: "at mem p (c # w) \<Longrightarrow> byte_at mem p = c"
  by (simp add: at_Cons byte_at_def)

lemma scan_word:
  assumes "CR \<notin> set w" "LF \<notin> set w" "at (r_client_stream req) check w" "r_status req = READ_HEADER"
    and "check + length w < buffer + CLIENT_STREAM_SIZE"
  shows "scan reg env buffer (length w + n) check restart (req, g) = scan reg env buffer n (check + length w) restart (req, g)"
  using assms
proof (induction w arbitrary: check)
  case (Cons c w)
  then have "scan_char buffer check req = req"
    by (auto simp: scan_char_def byte_at_at Let_def)
  then show ?case using Cons by (auto simp: at_Cons Let_def)
qed simp

text \<open>What happens at the end of a line; \<open>check\<close> is the place behind it.\<close>

definition at_line_end :: "registry \<Rightarrow> env \<Rightarrow> nat \<Rightarrow> nat \<Rightarrow> nat \<Rightarrow> bool \<Rightarrow> st \<Rightarrow> scan_result option" where
  "at_line_end reg env buffer n check restart st =
    (let (req, g) = st; req = end_line req in
       if r_logline req \<noteq> None then
         let (count, req) = process_option_line (e_cfg env) req; check = check - count
         in scan reg env buffer n check (restart \<or> count \<noteq> 0) (req \<lparr> r_header_line := check \<rparr>, g)
       else
         let (ret, req, g) = process_logline env (req, g) in
         if ret = 0 then Some (Scan_return 0 (req, g))
         else if r_simple req then map_option (\<lambda>(ret, st). Scan_return ret st) (process_header_end reg env (req, g))
         else scan reg env buffer n check restart (req \<lparr> r_header_line := check \<rparr>, g))"

lemma scan_ends:
  assumes "r_status (scan_char buffer check req) = ONE_LF"
  shows "scan reg env buffer (Suc n) check restart (req, g) =
    at_line_end reg env buffer n (Suc check) restart (scan_char buffer check req, g)"
  using assms by (simp add: at_line_end_def Let_def)

lemma scan_goes_on:
  assumes "r_status (scan_char buffer check req) \<notin> {ONE_LF, BODY_READ}"
  shows "scan reg env buffer (Suc n) check restart (req, g) =
    scan reg env buffer n (Suc check) restart (scan_char buffer check req, g)"
  using assms by (simp add: Let_def)

declare scan.simps(2) [simp del]

lemma scan_line:
  assumes w: "plain w" "at (r_client_stream req) check (w @ [CR, LF])" "r_status req \<in> {READ_HEADER, ONE_LF}"
    and "check + length w + 1 < buffer + CLIENT_STREAM_SIZE"
  shows "scan reg env buffer (length w + (2 + n)) check restart (req, g) =
    at_line_end reg env buffer n (check + length w + 2) restart
      (req \<lparr> r_status := ONE_LF, r_header_end := check + length w \<rparr>, g)"
proof -
  obtain c v where cv: "w = c # v" using w(1) by (cases w) (auto simp: plain_def)
  define r1 where "r1 = req \<lparr> r_status := READ_HEADER \<rparr>"
  define p where "p = check + length w"
  have at: "at (r_client_stream req) check (c # v @ [CR, LF])" using w(2) cv by simp
  have c: "c \<noteq> CR" "c \<noteq> LF" "CR \<notin> set v" "LF \<notin> set v" using w(1) cv by (auto simp: plain_def)
  have s1: "scan_char buffer check req = r1"
    using w(3) c(1,2) byte_at_at [OF at] assms(4) cv by (auto simp: scan_char_def r1_def Let_def)
  have "scan reg env buffer (Suc (length v + (2 + n))) check restart (req, g) =
      scan reg env buffer (length v + (2 + n)) (Suc check) restart (r1, g)"
    using scan_goes_on [of buffer check req] s1 by (simp add: r1_def)
  also have "\<dots> = scan reg env buffer (Suc (Suc n)) p restart (r1, g)"
    using scan_word [OF c(3,4), of r1 "Suc check" buffer reg env "2 + n" restart g] at assms(4) cv
    by (simp add: r1_def p_def at_Cons at_append)
  also have "\<dots> = scan reg env buffer (Suc n) (Suc p) restart (r1 \<lparr> r_status := ONE_CR, r_header_end := p \<rparr>, g)"
  proof -
    have b: "byte_at (r_client_stream r1) p = CR"
      using at cv by (auto simp: at_Cons at_append r1_def p_def byte_at_def)
    have "scan_char buffer p r1 = r1 \<lparr> r_status := ONE_CR, r_header_end := p \<rparr>"
      using b by (simp add: scan_char_def r1_def)
    then show ?thesis using scan_goes_on [of buffer p r1] by simp
  qed
  also have "\<dots> = at_line_end reg env buffer n (Suc (Suc p)) restart (req \<lparr> r_status := ONE_LF, r_header_end := p \<rparr>, g)"
  proof -
    have b: "byte_at (r_client_stream req) (Suc p) = LF"
      using at cv by (auto simp: at_Cons at_append p_def byte_at_def)
    have "scan_char buffer (Suc p) (r1 \<lparr> r_status := ONE_CR, r_header_end := p \<rparr>) =
        req \<lparr> r_status := ONE_LF, r_header_end := p \<rparr>"
      using b by (simp add: scan_char_def r1_def)
    then show ?thesis using scan_ends [of buffer "Suc p" "r1 \<lparr> r_status := ONE_CR, r_header_end := p \<rparr>"] by simp
  qed
  finally show ?thesis using cv by (simp add: p_def)
qed

section \<open>The request that a header describes\<close>

text \<open>A request without what only concerns the reading of its header.\<close>

definition header_view :: "request \<Rightarrow> request" where
  "header_view req = req \<lparr> r_client_stream := [], r_client_stream_pos := 0, r_pipeline_start := 0,
     r_header_line := 0, r_header_end := 0, r_status := READ_HEADER \<rparr>"

text \<open>What one header line means.\<close>

definition apply_header :: "config \<Rightarrow> string \<times> string \<Rightarrow> request \<Rightarrow> request" where
  "apply_header cfg hdr req =
    (let (name, val) = hdr; key = to_upper name in
     case known_header cfg key val req of
       Some req' \<Rightarrow> req'
     | None \<Rightarrow> add_cgi_env key val req)"

definition header_ok :: "string \<times> string \<Rightarrow> bool" where
  "header_ok hdr \<longleftrightarrow>
    (let (name, val) = hdr in
     plain name \<and> CHR '':'' \<notin> set name \<and> plain val \<and> hd val \<noteq> CHR '' '' \<and> hd val \<noteq> CHR 0x09)"

definition header_text :: "string \<times> string \<Rightarrow> string" where
  "header_text hdr = fst hdr @ '': '' @ snd hdr"

lemma header_view_fields:
  "r_if_modified_since (header_view req) = r_if_modified_since req"
  "r_content_type (header_view req) = r_content_type req"
  "r_content_length (header_view req) = r_content_length req"
  "r_host (header_view req) = r_host req"
  "r_referer (header_view req) = r_referer req"
  "r_authorization (header_view req) = r_authorization req"
  "r_user_agent (header_view req) = r_user_agent req"
  "r_cookie (header_view req) = r_cookie req"
  "r_keepalive (header_view req) = r_keepalive req"
  "r_cgi_env (header_view req) = r_cgi_env req"
  "header_view (req \<lparr> r_if_modified_since := v0 \<rparr>) = header_view req \<lparr> r_if_modified_since := v0 \<rparr>"
  "header_view (req \<lparr> r_content_type := v1 \<rparr>) = header_view req \<lparr> r_content_type := v1 \<rparr>"
  "header_view (req \<lparr> r_content_length := v2 \<rparr>) = header_view req \<lparr> r_content_length := v2 \<rparr>"
  "header_view (req \<lparr> r_host := v3 \<rparr>) = header_view req \<lparr> r_host := v3 \<rparr>"
  "header_view (req \<lparr> r_referer := v4 \<rparr>) = header_view req \<lparr> r_referer := v4 \<rparr>"
  "header_view (req \<lparr> r_authorization := v5 \<rparr>) = header_view req \<lparr> r_authorization := v5 \<rparr>"
  "header_view (req \<lparr> r_user_agent := v6 \<rparr>) = header_view req \<lparr> r_user_agent := v6 \<rparr>"
  "header_view (req \<lparr> r_cookie := v7 \<rparr>) = header_view req \<lparr> r_cookie := v7 \<rparr>"
  "header_view (req \<lparr> r_keepalive := v8 \<rparr>) = header_view req \<lparr> r_keepalive := v8 \<rparr>"
  "header_view (req \<lparr> r_cgi_env := v9 \<rparr>) = header_view req \<lparr> r_cgi_env := v9 \<rparr>"
  by (simp_all add: header_view_def)

lemma known_header_view:
  "map_option header_view (known_header cfg key val req) = known_header cfg key val (header_view req)"
  unfolding known_header_def if_distrib [of "map_option header_view"] option.map header_view_fields by (rule refl)

lemma known_header_None_view:
  "known_header cfg key val (header_view req) = None \<longleftrightarrow> known_header cfg key val req = None"
  by (metis known_header_view map_option_is_None)

lemma add_cgi_env_view: "header_view (add_cgi_env key val req) = add_cgi_env key val (header_view req)"
  by (simp add: add_cgi_env_def header_view_fields)

lemma apply_header_view: "header_view (apply_header cfg hdr req) = apply_header cfg hdr (header_view req)"
proof -
  obtain name val where h: "hdr = (name, val)" by fastforce
  show ?thesis
    using known_header_view [of cfg "to_upper name" val req] add_cgi_env_view [of "to_upper name" val req]
    by (cases "known_header cfg (to_upper name) val req"; cases "known_header cfg (to_upper name) val (header_view req)")
       (simp_all add: apply_header_def h)
qed

lemma if_Some_or: "(if c then Some x else y) = Some z \<Longrightarrow> z = x \<or> y = Some z"
  by (cases c) auto

lemma known_header_stream:
  "known_header cfg key val req = Some req' \<Longrightarrow>
   r_client_stream req' = r_client_stream req \<and> r_client_stream_pos req' = r_client_stream_pos req \<and>
   r_pipeline_start req' = r_pipeline_start req \<and>
   r_header_line req' = r_header_line req \<and> r_header_end req' = r_header_end req \<and> r_status req' = r_status req \<and>
   r_logline req' = r_logline req \<and> r_method req' = r_method req"
  unfolding known_header_def
  by (elim if_Some_or [elim_format] disjE) simp_all

lemma header_view_simps [simp]:
  "header_view (req \<lparr> r_client_stream := x1 \<rparr>) = header_view req"
  "header_view (req \<lparr> r_client_stream_pos := x2 \<rparr>) = header_view req"
  "header_view (req \<lparr> r_header_line := x3 \<rparr>) = header_view req"
  "header_view (req \<lparr> r_header_end := x4 \<rparr>) = header_view req"
  "header_view (req \<lparr> r_status := x5 \<rparr>) = header_view req"
  "header_view (req \<lparr> r_pipeline_start := x6 \<rparr>) = header_view req"
  by (simp_all add: header_view_def)

section \<open>The lines of a header\<close>

text \<open>The reading stands at the start of a line, \<open>rest\<close> lies ahead.\<close>

definition at_line :: "nat \<Rightarrow> bytes \<Rightarrow> request \<Rightarrow> bool" where
  "at_line check rest req \<longleftrightarrow>
    r_status req = ONE_LF \<and> r_header_line req = check \<and> r_logline req \<noteq> None \<and>
    length (r_client_stream req) = CLIENT_STREAM_SIZE + 1 \<and> at (r_client_stream req) check rest \<and>
    check + length rest \<le> CLIENT_STREAM_SIZE"

lemma line_text_end_line:
  assumes "NUL \<notin> set w" "at (r_client_stream req) check w" "r_header_line req = check"
    "r_header_end req = check + length w" "check + length w < length (r_client_stream req)"
  shows "line_text (end_line req) = w"
proof -
  define mem where "mem = mem_write (r_client_stream req) (check + length w) [NUL]"
  have "at mem check w" unfolding mem_def by (rule at_write_before) (use assms in auto)
  moreover have "at mem (check + length w) [NUL]" unfolding mem_def by (rule at_write_here) (use assms in simp)
  ultimately have "at mem check (w @ [NUL])" by (simp add: at_append)
  then obtain r where "drop check mem = w @ NUL # r" by (auto simp: at_def prefix_def)
  moreover have "\<forall>c \<in> set w. c \<noteq> NUL" using assms(1) by auto
  ultimately show ?thesis
    using assms(3,4) by (simp add: line_text_def end_line_def mem_def [symmetric] cstr_def takeWhile_append2)
qed

lemma option_line_result:
  assumes "header_ok (name, val)" "line_text req = header_text (name, val)"
  shows "process_option_line cfg req =
    (let req1 = req \<lparr> r_client_stream := mem_write (r_client_stream req) (r_header_line req) (to_upper name @ [NUL]) \<rparr>
     in case known_header cfg (to_upper name) val req1 of
          Some req' \<Rightarrow> (0, req')
        | None \<Rightarrow> eat_line (add_cgi_env (to_upper name) val req1))"
proof -
  have n: "CHR '':'' \<notin> set name" and v: "hd val \<noteq> CHR '' ''" "hd val \<noteq> CHR 0x09" "val \<noteq> []"
    using assms(1) by (auto simp: header_ok_def plain_def)
  obtain c u where u: "val = c # u" using v(3) by (cases val) auto
  have t: "header_text (name, val) = name @ CHR '':'' # CHR '' '' # val" by (simp add: header_text_def)
  have d: "dropWhile (\<lambda>c. c = CHR '' '' \<or> c = CHR 0x09) (drop (length name + 1) (name @ CHR '':'' # CHR '' '' # val)) = val"
    using v u by simp
  have tk: "take (length name) (name @ CHR '':'' # CHR '' '' # val) = name" by simp
  show ?thesis
    unfolding process_option_line_def Let_def assms(2) t strchr_append [OF n] option.case d tk by simp
qed

lemma length_to_upper [simp]: "length (to_upper s) = length s"
  by (simp add: to_upper_def)

lemma scan_header:
  assumes l: "at_line check (header_text hdr @ [CR, LF] @ rest) req" and h: "header_ok hdr"
  shows "\<exists>check' restart' req'. at_line check' rest req' \<and> header_view req' = apply_header (e_cfg env) hdr (header_view req) \<and>
    scan reg env 0 (length (header_text hdr) + (2 + n)) check restart (req, g) =
    scan reg env 0 n check' restart' (req', g)"
proof -
  obtain name val where hdr: "hdr = (name, val)" by fastforce
  define w where "w = header_text hdr"
  define cs where "cs = r_client_stream req"
  have w: "plain w" using h by (auto simp: w_def header_text_def hdr header_ok_def plain_def)
  have a: "at cs check (w @ [CR, LF])" "at cs (check + length w + 2) rest" "length cs = CLIENT_STREAM_SIZE + 1"
    "check + length w + 2 + length rest \<le> CLIENT_STREAM_SIZE" "r_status req = ONE_LF" "r_header_line req = check"
    "r_logline req \<noteq> None"
    using l by (auto simp: at_line_def w_def [symmetric] cs_def [symmetric] at_append at_Cons)
  define r1 where "r1 = end_line (req \<lparr> r_status := ONE_LF, r_header_end := check + length w \<rparr>)"
  have t: "line_text r1 = header_text (name, val)"
    unfolding r1_def
    by (subst line_text_end_line [where w = w and check = check])
       (use w a in \<open>auto simp: plain_def cs_def at_append at_Cons w_def hdr\<close>)
  define cs1 where "cs1 = mem_write cs (check + length w) [NUL]"
  define cs2 where "cs2 = mem_write cs1 check (to_upper name @ [NUL])"
  have lw: "length w = length name + 2 + length val" by (simp add: w_def header_text_def hdr)
  have len: "length cs1 = CLIENT_STREAM_SIZE + 1" "length cs2 = CLIENT_STREAM_SIZE + 1"
    using a(3,4) lw by (simp_all add: cs1_def cs2_def)
  have r2: "at cs2 (check + length w + 2) rest"
    unfolding cs2_def using a lw len
    by (subst at_write_behind) (auto simp: cs1_def at_write_behind)
  define r2 where "r2 = r1 \<lparr> r_client_stream := cs2 \<rparr>"
  have v2: "header_view r2 = header_view req" by (simp add: r2_def r1_def end_line_def)
  have f2: "r_client_stream r2 = cs2" "r_status r2 = ONE_LF" "r_header_line r2 = check" "r_header_end r2 = check + length w"
    "r_logline r2 = r_logline req"
    using a(6) by (simp_all add: r2_def r1_def end_line_def)
  have ok: "header_ok (name, val)" using h hdr by simp
  have e2: "r1 \<lparr> r_client_stream := mem_write (r_client_stream r1) (r_header_line r1) (to_upper name @ [NUL]) \<rparr> = r2"
    by (simp add: r2_def cs2_def cs1_def r1_def end_line_def cs_def a(6))
  have p: "process_option_line (e_cfg env) r1 =
      (case known_header (e_cfg env) (to_upper name) val r2 of
         Some req' \<Rightarrow> (0, req')
       | None \<Rightarrow> eat_line (add_cgi_env (to_upper name) val r2))"
    using option_line_result [OF ok t, of "e_cfg env"] unfolding Let_def e2 .
  define check2 where "check2 = check + length w + 2"
  have s: "scan reg env 0 (length w + (2 + n)) check restart (req, g) =
      (let (count, req') = process_option_line (e_cfg env) r1
       in scan reg env 0 n (check2 - count) (restart \<or> count \<noteq> 0) (req' \<lparr> r_header_line := check2 - count \<rparr>, g))"
    using scan_line [OF w, of req check 0 reg env n restart g] a
    by (simp add: at_line_end_def r1_def check2_def cs_def end_line_def split_beta Let_def)
  show ?thesis
  proof (cases "known_header (e_cfg env) (to_upper name) val r2")
    case (Some r3)
    note k = known_header_stream [OF Some]
    have v: "header_view r3 = apply_header (e_cfg env) hdr (header_view req)"
      using known_header_view [of "e_cfg env" "to_upper name" val r2, symmetric] Some v2
      by (simp add: apply_header_def hdr Let_def)
    have "at_line check2 rest (r3 \<lparr> r_header_line := check2 \<rparr>)"
      using k f2 r2 len a(4,7) by (simp add: at_line_def check2_def)
    then show ?thesis using s p Some v by (intro exI conjI) (auto simp: w_def)
  next
    case None
    define r3 where "r3 = add_cgi_env (to_upper name) val r2"
    have f3: "r_client_stream r3 = cs2" "r_status r3 = ONE_LF" "r_header_line r3 = check"
      "r_header_end r3 = check + length w" "r_logline r3 = r_logline req"
      using f2 by (simp_all add: r3_def add_cgi_env_def)
    obtain count r4 where e: "eat_line r3 = (count, r4)" by fastforce
    have count: "count = length w + 1" and
      r4: "r4 = r3 \<lparr> r_client_stream := mem_write cs2 check (bslice (check + length w + 1) CLIENT_STREAM_SIZE cs2),
                     r_client_stream_pos := r_client_stream_pos r3 - count \<rparr>"
      using e f3 by (auto simp: eat_line_def Let_def)
    have v: "header_view r4 = apply_header (e_cfg env) hdr (header_view req)"
      using known_header_None_view [of "e_cfg env" "to_upper name" val r2] None v2
        add_cgi_env_view [of "to_upper name" val r2]
      by (simp add: apply_header_def hdr r4 r3_def Let_def)
    have "at (mem_write cs2 check (bslice (check + length w + 1) CLIENT_STREAM_SIZE cs2)) (check + 1) rest"
      using at_moved [OF r2, of "check + length w + 1" CLIENT_STREAM_SIZE check] a(4) len by simp
    then have "at_line (check2 - count) rest (r4 \<lparr> r_header_line := check2 - count \<rparr>)"
      using f3 len a(4,7) by (simp add: at_line_def check2_def count r4 bslice_def)
    then show ?thesis using s p None e v by (intro exI conjI) (auto simp: w_def r3_def)
  qed
qed

lemma scan_headers:
  assumes "at_line check (concat (map (\<lambda>h. header_text h @ [CR, LF]) hs) @ rest) req" "\<forall>h \<in> set hs. header_ok h"
  shows "\<exists>check' restart' req'. at_line check' rest req' \<and>
    header_view req' = fold (apply_header (e_cfg env)) hs (header_view req) \<and>
    scan reg env 0 (length (concat (map (\<lambda>h. header_text h @ [CR, LF]) hs)) + n) check restart (req, g) =
    scan reg env 0 n check' restart' (req', g)"
  using assms
proof (induction hs arbitrary: check restart req)
  case Nil
  then show ?case by auto
next
  case (Cons h hs)
  let ?t = "concat (map (\<lambda>h. header_text h @ [CR, LF]) hs)"
  have l: "at_line check (header_text h @ [CR, LF] @ ?t @ rest) req" and h: "header_ok h" using Cons.prems by auto
  obtain check1 restart1 req1 where 1: "at_line check1 (?t @ rest) req1"
    "header_view req1 = apply_header (e_cfg env) h (header_view req)"
    "scan reg env 0 (length (header_text h) + (2 + (length ?t + n))) check restart (req, g) =
     scan reg env 0 (length ?t + n) check1 restart1 (req1, g)"
    using scan_header [OF l h, of env reg "length ?t + n" restart g] by blast
  obtain check2 restart2 req2 where 2: "at_line check2 rest req2"
    "header_view req2 = fold (apply_header (e_cfg env)) hs (header_view req1)"
    "scan reg env 0 (length ?t + n) check1 restart1 (req1, g) = scan reg env 0 n check2 restart2 (req2, g)"
    using Cons.IH [OF 1(1)] Cons.prems(2) by force
  show ?case using 1 2 by (intro exI [of _ check2] exI [of _ restart2] exI [of _ req2]) (simp add: add.assoc)
qed

text \<open>The blank line.\<close>

lemma scan_blank:
  assumes "at_line check ([CR, LF] @ rest) req"
  shows "scan reg env 0 (2 + n) check restart (req, g) =
    map_option (\<lambda>(ret, st). Scan_return ret st) (header_done reg env n (check + 2) (req \<lparr> r_status := BODY_READ \<rparr>, g))"
proof -
  have a: "at (r_client_stream req) check [CR, LF]" "r_status req = ONE_LF"
    using assms by (auto simp: at_line_def at_append at_Cons)
  have s1: "scan_char 0 check req = req \<lparr> r_status := TWO_CR \<rparr>"
    using a byte_at_at [of "r_client_stream req" check CR "[LF]"] by (simp add: scan_char_def)
  have "scan_char 0 (Suc check) (req \<lparr> r_status := TWO_CR \<rparr>) = req \<lparr> r_status := BODY_READ \<rparr>"
    using a by (simp add: scan_char_def at_Cons byte_at_def)
  then show ?thesis
    using scan_goes_on [of 0 check req reg env "Suc n" restart g] s1 by (simp add: scan.simps(2) Let_def)
qed

section \<open>A whole request\<close>

definition http_request :: "http_method \<Rightarrow> string \<Rightarrow> string \<Rightarrow> (string \<times> string) list \<Rightarrow> bytes \<Rightarrow> bytes" where
  "http_request m uri version hs body =
    request_line m uri (Some version) @ [CR, LF] @ concat (map (\<lambda>h. header_text h @ [CR, LF]) hs) @ [CR, LF] @ body"

text \<open>The request these parts describe, in a request that is still empty.\<close>

definition described :: "config \<Rightarrow> http_method \<Rightarrow> string \<Rightarrow> string \<Rightarrow> (string \<times> string) list \<Rightarrow> request \<Rightarrow> request" where
  "described cfg m uri version hs req =
    fold (apply_header cfg) hs
      (create_env cfg ((header_view req) \<lparr> r_logline := Some (request_line m uri (Some version)), r_method := m,
         r_request_uri := uri, r_http_version := Some version, r_simple := False \<rparr>))"

text \<open>A request as it is when its connection is accepted.\<close>

definition fresh :: "request \<Rightarrow> bool" where
  "fresh req \<longleftrightarrow>
    r_status req = READ_HEADER \<and> r_logline req = None \<and> r_header_line req = 0 \<and> r_client_stream_pos req = 0 \<and>
    r_pipeline_start req = 0 \<and> length (r_client_stream req) = CLIENT_STREAM_SIZE + 1"

lemma scan_request_line:
  assumes "fresh req" "m \<in> {M_GET, M_POST, M_HEAD}" "uri_ok uri" "http_version_ok version"
    and "plain (request_line m uri (Some version))" "length (request_line m uri (Some version)) + 2 + length rest \<le> CLIENT_STREAM_SIZE"
  defines "line \<equiv> request_line m uri (Some version)"
  shows "\<exists>req'. at_line (length line + 2) rest req' \<and>
    header_view req' = create_env (e_cfg env) ((header_view req) \<lparr> r_logline := Some line, r_method := m,
         r_request_uri := uri, r_http_version := Some version, r_simple := False \<rparr>) \<and>
    scan reg env 0 (length line + (2 + n)) 0 False (take_in (line @ [CR, LF] @ rest) req, g) =
    scan reg env 0 n (length line + 2) False (req', g)"
proof -
  define d where "d = line @ [CR, LF] @ rest"
  define cs where "cs = mem_write (r_client_stream req) 0 d"
  have cs: "at cs 0 d" "length cs = CLIENT_STREAM_SIZE + 1"
    using assms(1,6) at_write_here [of 0 "r_client_stream req" d] by (simp_all add: cs_def fresh_def d_def line_def)
  have a: "at cs 0 line" "at cs 0 (line @ [CR, LF])" "at cs (length line + 2) rest"
    using cs(1) by (auto simp: d_def at_append at_Cons)
  define r1 where "r1 = end_line ((take_in d req) \<lparr> r_status := ONE_LF, r_header_end := length line \<rparr>)"
  have t: "line_text r1 = request_line m uri (Some version)"
    unfolding r1_def
    by (subst line_text_end_line [where w = line and check = 0])
       (use assms(1,5,6) a(1) cs(2) in \<open>auto simp: line_def plain_def fresh_def take_in_def cs_def\<close>)
  have c1: "r_client_stream r1 = mem_write cs (length line) [NUL]"
    using assms(1) by (simp add: r1_def end_line_def take_in_def cs_def fresh_def)
  have "at (r_client_stream r1) 0 line"
    unfolding c1 by (rule at_write_before) (use a(1) cs(2) assms(6) in \<open>auto simp: line_def\<close>)
  then have "at (r_client_stream r1) 0 (method_text m)"
    by (simp add: line_def request_line_def at_append)
  then have "take (length (method_text m)) (r_client_stream r1) = method_text m"
    by (auto simp: at_def prefix_def)
  moreover have "5 \<le> r_client_stream_pos r1"
    using assms(1,2) by (auto simp: r1_def end_line_def take_in_def fresh_def d_def line_def request_line_def)
  ultimately have rt: "request_type r1 = m" using request_type_text assms(2) by blast
  define r2 where "r2 = create_env (e_cfg env) (r1 \<lparr> r_logline := Some line, r_method := m, r_request_uri := uri,
      r_http_version := Some version, r_simple := False \<rparr>)"
  have p: "process_logline env (r1, g) = (1, r2, g)"
    using logline_parsed [OF assms(2,3) t rt, of env g] assms(4) by (simp add: r2_def t line_def)
  have s: "scan reg env 0 (length line + (2 + n)) 0 False (take_in d req, g) =
      at_line_end reg env 0 n (length line + 2) False ((take_in d req) \<lparr> r_status := ONE_LF, r_header_end := length line \<rparr>, g)"
    using scan_line [of line "take_in d req" 0 0 reg env n False g] assms(1,5,6) a(2)
    by (simp add: line_def take_in_def fresh_def cs_def)
  have f: "r_logline r1 = None" "\<not> r_simple r2"
    using assms(1) by (simp_all add: r1_def end_line_def take_in_def fresh_def r2_def create_env_def)
  have "scan reg env 0 (length line + (2 + n)) 0 False (take_in d req, g) =
      scan reg env 0 n (length line + 2) False (r2 \<lparr> r_header_line := length line + 2 \<rparr>, g)"
    unfolding s at_line_end_def using p f by (simp add: r1_def Let_def)
  moreover have "at_line (length line + 2) rest (r2 \<lparr> r_header_line := length line + 2 \<rparr>)"
    using c1 a(3) cs(2) assms(6)
    by (simp add: at_line_def r2_def create_env_def at_write_behind line_def) (simp add: r1_def end_line_def)
  moreover have "header_view (r2 \<lparr> r_header_line := length line + 2 \<rparr>) =
      create_env (e_cfg env) ((header_view req) \<lparr> r_logline := Some line, r_method := m,
         r_request_uri := uri, r_http_version := Some version, r_simple := False \<rparr>)"
    by (simp add: r2_def r1_def end_line_def take_in_def header_view_def create_env_def)
  ultimately show ?thesis unfolding d_def by blast
qed

text \<open>C2: Reading a request gives the request it describes.  When the text of a request with the usual
  line ends comes in one piece, \<open>read_header\<close> ends with the work at the end of the header on the
  request that the header lines describe one after the other (the first line of a known name counts,
  the others become variables of the CGI environment), whatever lines had to be taken out of the
  buffer; the body, however long, stands where the reading stopped.\<close>

theorem read_header_refines:
  assumes "fresh req" "m \<in> {M_GET, M_POST, M_HEAD}" "uri_ok uri" "http_version_ok version"
    and "plain (request_line m uri (Some version))" "\<forall>h \<in> set hs. header_ok h"
    and "length (http_request m uri version hs body) \<le> CLIENT_STREAM_SIZE"
  shows "\<exists>check req'. read_header reg env (RD_data (http_request m uri version hs body) # reads) (req, g) =
      header_done reg env (length body) check (req', g) \<and>
    header_view req' = described (e_cfg env) m uri version hs req \<and>
    r_status req' = BODY_READ \<and> bslice check (check + length body) (r_client_stream req') = body"
proof -
  define line where "line = request_line m uri (Some version)"
  define t where "t = concat (map (\<lambda>h. header_text h @ [CR, LF]) hs)"
  define rest where "rest = t @ [CR, LF] @ body"
  define d where "d = line @ [CR, LF] @ rest"
  have d: "http_request m uri version hs body = d" by (simp add: http_request_def d_def rest_def t_def line_def)
  have len: "length line + 2 + length rest \<le> CLIENT_STREAM_SIZE" using assms(7) d by (simp add: d_def)
  obtain r1 where 1: "at_line (length line + 2) rest r1"
    "header_view r1 = create_env (e_cfg env) ((header_view req) \<lparr> r_logline := Some line, r_method := m,
         r_request_uri := uri, r_http_version := Some version, r_simple := False \<rparr>)"
    "scan reg env 0 (length line + (2 + (length t + (2 + length body)))) 0 False (take_in d req, g) =
     scan reg env 0 (length t + (2 + length body)) (length line + 2) False (r1, g)"
    using scan_request_line [OF assms(1-5), of rest env reg "length t + (2 + length body)" g] len
    by (auto simp: line_def d_def)
  obtain check restart r2 where 2: "at_line check ([CR, LF] @ body) r2"
    "header_view r2 = fold (apply_header (e_cfg env)) hs (header_view r1)"
    "scan reg env 0 (length t + (2 + length body)) (length line + 2) False (r1, g) =
     scan reg env 0 (2 + length body) check restart (r2, g)"
    using scan_headers [of "length line + 2" hs "[CR, LF] @ body" r1 env reg "2 + length body" False g] 1(1) assms(6)
    unfolding rest_def t_def by blast
  have s: "scan reg env 0 (length d) 0 False (take_in d req, g) =
      map_option (\<lambda>(ret, st). Scan_return ret st)
        (header_done reg env (length body) (check + 2) (r2 \<lparr> r_status := BODY_READ \<rparr>, g))"
    using 1(3) 2(3) scan_blank [OF 2(1), of reg env "length body" restart g] by (simp add: d_def rest_def)
  have take: "take CLIENT_STREAM_SIZE d = d" "d \<noteq> []" using assms(7) d by (simp_all add: d_def)
  have "read_header reg env (RD_data d # reads) (req, g) =
      header_done reg env (length body) (check + 2) (r2 \<lparr> r_status := BODY_READ \<rparr>, g)"
    using assms(1) s take
    by (auto simp: read_header_def fresh_def read_chunk_def CLIENT_STREAM_SIZE_def split: option.splits)
  moreover have "header_view (r2 \<lparr> r_status := BODY_READ \<rparr>) = described (e_cfg env) m uri version hs req"
    using 2(2) 1(2) by (simp add: described_def line_def)
  moreover have "bslice (check + 2) (check + 2 + length body) (r_client_stream r2) = body"
    using 2(1) by (intro at_take) (simp add: at_line_def at_append at_Cons)
  ultimately show ?thesis unfolding d by (intro exI [of _ "check + 2"] exI [of _ "r2 \<lparr> r_status := BODY_READ \<rparr>"]) simp
qed

definition sample_fresh :: request where
  "sample_fresh = blank_request \<lparr> r_client_stream := replicate (CLIENT_STREAM_SIZE + 1) NUL \<rparr>"

lemma sample_fresh_ok: "fresh sample_fresh"
  by (simp add: fresh_def sample_fresh_def blank_request_def)

theorem read_header_refines_witness:
  "\<exists>check req'. read_header sample_registry sample_env
      [RD_data (http_request M_GET ''/a'' ''HTTP/1.0'' [(''X'', ''gw'')] [])] (sample_fresh, globals_init) =
      header_done sample_registry sample_env 0 check (req', globals_init) \<and> r_request_uri (header_view req') = ''/a''"
proof -
  have d: "''HTTP/1.0'' = ''HTTP/'' @ digs 1 @ ''.'' @ digs 0" by (simp add: digs.simps char_eval)
  have v: "http_version_ok ''HTTP/1.0''" unfolding d http_fmt_version by simp
  have u: "r_request_uri (described (e_cfg sample_env) M_GET ''/a'' ''HTTP/1.0'' [(''X'', ''gw'')] sample_fresh) = ''/a''"
    by (simp add: described_def apply_header_def known_header_def header_is_def header_starts_def to_upper_def
        toupper_def is_lower_def uchar_def create_env_def add_cgi_env_def char_eval)
  define d where "d = http_request M_GET ''/a'' ''HTTP/1.0'' [(''X'', ''gw'')] []"
  have "\<exists>check req'. read_header sample_registry sample_env [RD_data d] (sample_fresh, globals_init) =
      header_done sample_registry sample_env (length ([] :: bytes)) check (req', globals_init) \<and>
    header_view req' = described (e_cfg sample_env) M_GET ''/a'' ''HTTP/1.0'' [(''X'', ''gw'')] sample_fresh \<and>
    r_status req' = BODY_READ \<and> bslice check (check + length ([] :: bytes)) (r_client_stream req') = []"
    unfolding d_def
    by (rule read_header_refines [OF sample_fresh_ok _ _ v])
       (simp_all add: uri_ok_def MAX_HEADER_LENGTH_def plain_def request_line_def header_ok_def http_request_def
        header_text_def CLIENT_STREAM_SIZE_def)
  then show ?thesis using u unfolding d_def by (metis list.size(3))
qed

text \<open>C40: A request whose first line does not come in one piece is refused: when the bytes of the first read
  hold no line end, the answer is "400 Bad Request" (or "413", when no zero byte follows them in the
  buffer), though the rest of the line may be on its way.\<close>

theorem read_header_split_line:
  assumes "fresh req" "plain w" "length w < CLIENT_STREAM_SIZE"
  shows "read_header reg env (RD_data w # reads) (req, g) =
    Some (0, if request_type (take_in w req) \<noteq> M_INVALID \<and>
                CLIENT_STREAM_SIZE \<le> length (cstr (r_client_stream (take_in w req)))
             then send_r_entity_too_large env (take_in w req, g) else send_r_bad_request env (take_in w req, g))"
proof -
  define r1 where "r1 = take_in w req"
  have a: "at (r_client_stream r1) 0 w" and r: "r_status r1 = READ_HEADER" "r_client_stream_pos req = 0"
    using assms(1) at_write_here [of 0 "r_client_stream req" w] by (simp_all add: r1_def take_in_def fresh_def)
  have s: "scan reg env 0 (length w) 0 False (r1, g) = Some (Scan_end False (r1, g))"
    using scan_word [of w r1 0 0 reg env 0 False g] assms(2,3) a r by (auto simp: plain_def)
  obtain c u where w: "w = c # u" "c \<noteq> NUL" using assms(2) by (cases w) (auto simp: plain_def)
  have "cstr (r_client_stream r1) \<noteq> []"
    using a w by (cases "r_client_stream r1") (auto simp: at_Cons cstr_def)
  then have e: "scan_ended env 0 False (r1, g) =
      Inl (0, if request_type r1 \<noteq> M_INVALID \<and> CLIENT_STREAM_SIZE \<le> length (cstr (r_client_stream r1))
              then send_r_entity_too_large env (r1, g) else send_r_bad_request env (r1, g))"
    using r by (simp add: scan_ended_def Let_def)
  have c: "read_chunk reg env 0 (length w) (r1, g) = Some (scan_ended env 0 False (r1, g))"
    by (simp add: read_chunk_def s)
  have t: "take CLIENT_STREAM_SIZE w = w" using assms(3) by simp
  have "read_header reg env (RD_data w # reads) (req, g) = read_loop reg env (RD_data w # reads) (req, g)"
    using assms(1) by (simp add: read_header_def fresh_def)
  also have "\<dots> = Some (0, if request_type r1 \<noteq> M_INVALID \<and> CLIENT_STREAM_SIZE \<le> length (cstr (r_client_stream r1))
              then send_r_entity_too_large env (r1, g) else send_r_bad_request env (r1, g))"
    using c e r w t by (simp add: r1_def CLIENT_STREAM_SIZE_def)
  finally show ?thesis unfolding r1_def .
qed

theorem read_header_split_line_witness:
  "fst (the (read_header sample_registry sample_env [RD_data ''GET /a''] (sample_fresh, globals_init))) = 0"
  using read_header_split_line [OF sample_fresh_ok, of "''GET /a''" sample_registry sample_env "[]" globals_init]
  by (simp add: plain_def CLIENT_STREAM_SIZE_def)

end
