(* ===== verification/Body.thy ===== *)
theory Body
  imports Read
begin

text \<open>
  The body of a \<open>POST\<close> request on its way from the socket to a temporary file (\<open>read_body\<close>,
  \<open>write_body\<close> of \<open>src/src/read.c\<close>).  \<open>header_line\<close> and \<open>header_end\<close> are offsets into \<open>buffer\<close> here.
\<close>

section \<open>The body\<close>

definition read_body :: "env \<Rightarrow> request \<Rightarrow> int \<times> request" where
  "read_body env req =
    (let room = int BUFFER_SIZE - (int (r_header_end req) - int (r_header_line req));
         bytes_left = int (r_filesize req) - int (r_filepos req);
         bytes_to_read = (if r_filesize req \<noteq> 0 \<and> bytes_left < room then bytes_left else room)
     in if bytes_to_read \<le> 0 then (1, req \<lparr> r_status := BODY_WRITE \<rparr>)
        else case e_read env (r_fd req) (nat bytes_to_read) of
          RD_data d0 \<Rightarrow>
            let d = take (nat bytes_to_read) d0;
                req = (if d = [] then req \<lparr> r_status := BODY_WRITE, r_cgi_status := CGI_CLOSE \<rparr> else req);
                req = req \<lparr> r_buffer := mem_write (r_buffer req) (r_header_end req) d,
                            r_header_end := r_header_end req + length d, r_filepos := r_filepos req + length d \<rparr>
            in (1, if length d = nat bytes_to_read then req \<lparr> r_status := BODY_WRITE \<rparr> else req)
        | RD_again \<Rightarrow> if r_filesize req \<noteq> 0 then (-1, req) else (1, req \<lparr> r_status := BODY_WRITE \<rparr>)
        | _ \<Rightarrow> (0, req))"

definition body_piece :: "request \<Rightarrow> bytes" where
  "body_piece req = bslice (r_header_line req) (r_header_end req) (r_buffer req)"

definition write_body :: "registry \<Rightarrow> env \<Rightarrow> st \<Rightarrow> (int \<times> st) option" where
  "write_body reg env st =
    (let (req, g) = st; bytes_to_write = r_header_end req - r_header_line req in
     if bytes_to_write = 0 then
       let req = req \<lparr> r_header_line := 0, r_header_end := 0 \<rparr> in
       if r_cgi_status req = CGI_CLOSE \<or> r_filepos req \<ge> r_filesize req then init_form reg env (req, g)
       else Some (1, req \<lparr> r_status := BODY_READ \<rparr>, g)
     else if int (r_filepos req) \<le> g_max_upload_size g then
       (case e_write env (r_post_data_fd req) (body_piece req) of
          IO_again \<Rightarrow> Some (-1, st)
        | IO_err \<Rightarrow> Some (-2, st)
        | IO_ok bytes_written \<Rightarrow> Some (1, req \<lparr> r_header_line := r_header_line req + bytes_written \<rparr>, g))
     else Some (1, req \<lparr> r_header_line := r_header_line req + bytes_to_write \<rparr>, g))"

section \<open>Nothing of a body is lost\<close>

text \<open>Between the calls: while the body is read nothing of the buffer has been written yet, and the
  buffer has room.\<close>

definition body_ok :: "request \<Rightarrow> bool" where
  "body_ok r \<longleftrightarrow> r_status r \<in> {BODY_READ, BODY_WRITE} \<and> (r_status r = BODY_READ \<longrightarrow> r_header_line r = 0) \<and>
     r_header_line r \<le> r_header_end r \<and> r_header_end r \<le> BUFFER_SIZE \<and> BUFFER_SIZE \<le> length (r_buffer r)"

definition body_complete :: "request \<Rightarrow> bool" where
  "body_complete r \<longleftrightarrow> r_status r = BODY_WRITE \<and> r_header_line r = r_header_end r \<and>
     (r_cgi_status r = CGI_CLOSE \<or> r_filesize r \<le> r_filepos r)"

text \<open>One visit of the main loop, with what it reads from the socket and writes to the file.\<close>

definition body_room :: "request \<Rightarrow> nat" where
  "body_room r =
    (let room = BUFFER_SIZE - (r_header_end r - r_header_line r)
     in if r_filesize r \<noteq> 0 then min room (r_filesize r - r_filepos r) else room)"

definition body_in :: "env \<Rightarrow> request \<Rightarrow> bytes" where
  "body_in env r =
    (if r_status r = BODY_READ \<and> body_room r > 0
     then (case e_read env (r_fd r) (body_room r) of RD_data d \<Rightarrow> take (body_room r) d | _ \<Rightarrow> []) else [])"

definition body_out :: "env \<Rightarrow> globals \<Rightarrow> request \<Rightarrow> bytes" where
  "body_out env g r =
    (if r_status r = BODY_WRITE \<and> body_piece r \<noteq> [] \<and> int (r_filepos r) \<le> g_max_upload_size g
     then (case e_write env (r_post_data_fd r) (body_piece r) of IO_ok n \<Rightarrow> take n (body_piece r) | _ \<Rightarrow> []) else [])"

text \<open>Past the upload limit the same visit throws the waiting bytes away.\<close>

definition body_lost :: "globals \<Rightarrow> request \<Rightarrow> bytes" where
  "body_lost g r =
    (if r_status r = BODY_WRITE \<and> g_max_upload_size g < int (r_filepos r) then body_piece r else [])"

definition body_step :: "registry \<Rightarrow> env \<Rightarrow> st \<Rightarrow> (int \<times> st) option" where
  "body_step reg env st =
    (if r_status (fst st) = BODY_READ then (let (ret, req) = read_body env (fst st) in Some (ret, req, snd st))
     else write_body reg env st)"

text \<open>Visits until the body is complete (then \<open>init_form\<close> runs) or the request fails: the bytes read, the
  bytes written, the bytes thrown away, and the state.\<close>

fun body_run :: "registry \<Rightarrow> env list \<Rightarrow> st \<Rightarrow> bytes \<times> bytes \<times> bytes \<times> st" where
  "body_run reg [] st = ([], [], [], st)"
| "body_run reg (env # envs) st =
    (if body_complete (fst st) then ([], [], [], st)
     else case body_step reg env st of
       None \<Rightarrow> ([], [], [], st)
     | Some (ret, st') \<Rightarrow>
         if ret = 0 \<or> ret = -2 then ([], [], [], st')
         else let (i, out, lost, st'') = body_run reg envs st'
              in (body_in env (fst st) @ i, body_out env (snd st) (fst st) @ out, body_lost (snd st) (fst st) @ lost, st''))"

lemma bslice_length: "j \<le> length b \<Longrightarrow> length (bslice i j b) = j - i"
  by (simp add: bslice_def)

lemma body_piece_length: "body_ok r \<Longrightarrow> length (body_piece r) = r_header_end r - r_header_line r"
  by (simp add: body_piece_def bslice_length body_ok_def)

lemma room_int:
  assumes "body_ok r"
  shows "(let room = int BUFFER_SIZE - (int (r_header_end r) - int (r_header_line r));
         bytes_left = int (r_filesize r) - int (r_filepos r)
     in if r_filesize r \<noteq> 0 \<and> bytes_left < room then bytes_left else room) = b \<Longrightarrow>
    nat b = body_room r \<and> (b \<le> 0 \<longleftrightarrow> body_room r = 0)"
  using assms by (auto simp: body_room_def body_ok_def Let_def split: if_splits)

lemma read_body_step:
  assumes "body_ok r" "r_status r = BODY_READ" "read_body env r = (ret, r')" "ret \<noteq> 0"
  shows "body_ok r' \<and> body_piece r' = body_piece r @ body_in env r \<and>
    r_filepos r' = r_filepos r + length (body_in env r) \<and> r_filesize r' = r_filesize r \<and>
    (r_filesize r \<noteq> 0 \<and> r_filepos r \<le> r_filesize r \<longrightarrow> r_filepos r' \<le> r_filesize r)"
proof -
  define b where "b = (let room = int BUFFER_SIZE - (int (r_header_end r) - int (r_header_line r));
         bytes_left = int (r_filesize r) - int (r_filepos r)
     in if r_filesize r \<noteq> 0 \<and> bytes_left < room then bytes_left else room)"
  have b: "nat b = body_room r" "b \<le> 0 \<longleftrightarrow> body_room r = 0" using room_int [OF assms(1) b_def [symmetric]] by auto
  have room: "r_header_end r + body_room r \<le> BUFFER_SIZE" "r_header_line r = 0" "BUFFER_SIZE \<le> length (r_buffer r)"
    "r_filesize r \<noteq> 0 \<longrightarrow> body_room r \<le> r_filesize r - r_filepos r"
    using assms(1,2) by (auto simp: body_ok_def body_room_def Let_def)
  have rb: "read_body env r =
      (if body_room r = 0 then (1, r \<lparr> r_status := BODY_WRITE \<rparr>)
        else case e_read env (r_fd r) (body_room r) of
          RD_data d0 \<Rightarrow>
            let d = take (body_room r) d0;
                req = (if d = [] then r \<lparr> r_status := BODY_WRITE, r_cgi_status := CGI_CLOSE \<rparr> else r);
                req = req \<lparr> r_buffer := mem_write (r_buffer req) (r_header_end req) d,
                            r_header_end := r_header_end req + length d, r_filepos := r_filepos req + length d \<rparr>
            in (1, if length d = body_room r then req \<lparr> r_status := BODY_WRITE \<rparr> else req)
        | RD_again \<Rightarrow> if r_filesize r \<noteq> 0 then (-1, r) else (1, r \<lparr> r_status := BODY_WRITE \<rparr>)
        | _ \<Rightarrow> (0, r))"
    unfolding read_body_def Let_def b_def [unfolded Let_def, symmetric] b by simp
  show ?thesis
  proof (cases "body_room r = 0")
    case True
    then show ?thesis using rb assms by (auto simp: body_in_def body_ok_def body_piece_def)
  next
    case False
    show ?thesis
    proof (cases "e_read env (r_fd r) (body_room r)")
      case (RD_data d0)
      define d where "d = take (body_room r) d0"
      have d: "body_in env r = d" "length d \<le> body_room r" using False RD_data assms(2) by (simp_all add: body_in_def d_def)
      have "bslice 0 (r_header_end r + length d) (mem_write (r_buffer r) (r_header_end r) d) =
          bslice 0 (r_header_end r) (r_buffer r) @ d"
        by (rule bslice_mem_write) (use room in auto)
      moreover have "length (mem_write (r_buffer r) (r_header_end r) d) = length (r_buffer r)"
        by (rule length_mem_write) (use room d(2) in simp)
      ultimately show ?thesis
        using rb assms(1-3) room d False RD_data
        by (auto simp: body_ok_def body_piece_def d_def [symmetric] Let_def split: if_splits)
    qed (use rb assms False in \<open>auto simp: body_in_def body_ok_def body_piece_def split: if_splits\<close>)
  qed
qed

lemma write_body_step:
  assumes "body_ok r" "r_status r = BODY_WRITE" "\<not> body_complete r" "write_body reg env (r, g) = Some (ret, r', g')"
    and "ret \<noteq> -2" "io_bounded env"
  shows "body_ok r' \<and> body_piece r = body_out env g r @ body_lost g r @ body_piece r' \<and> g' = g \<and>
    r_filepos r' = r_filepos r \<and> r_filesize r' = r_filesize r"
proof (cases "r_header_end r = r_header_line r")
  case True
  then have "r' = r \<lparr> r_header_line := 0, r_header_end := 0, r_status := BODY_READ \<rparr> \<and> g' = g"
    using assms(1-4) by (auto simp: write_body_def body_complete_def body_ok_def Let_def)
  moreover have "body_piece r = []" using True by (simp add: body_piece_def)
  ultimately show ?thesis using assms(1) by (auto simp: body_ok_def body_piece_def body_out_def body_lost_def)
next
  case False
  then have l: "length (body_piece r) = r_header_end r - r_header_line r" "body_piece r \<noteq> []"
    using assms(1) body_piece_length [OF assms(1)] by (auto simp: body_ok_def)
  show ?thesis
  proof (cases "int (r_filepos r) \<le> g_max_upload_size g")
    case over: False
    then have "r' = r \<lparr> r_header_line := r_header_end r \<rparr>" "g' = g"
      using assms(1,4) False by (auto simp: write_body_def body_ok_def Let_def)
    then show ?thesis using over assms(1,2) l(2) by (auto simp: body_out_def body_lost_def body_ok_def body_piece_def)
  next
    case under: True
    then have nl: "body_lost g r = []" by (simp add: body_lost_def)
    show ?thesis
    proof (cases "e_write env (r_post_data_fd r) (body_piece r)")
      case (IO_ok n)
      have n: "n \<le> length (body_piece r)" using IO_ok assms(6) by (auto simp: io_bounded_def)
      have r': "r' = r \<lparr> r_header_line := r_header_line r + n \<rparr>" "g' = g"
        using assms(1,4) under False IO_ok by (auto simp: write_body_def body_ok_def Let_def)
      have "take n (body_piece r) @ bslice (r_header_line r + n) (r_header_end r) (r_buffer r) = body_piece r"
        unfolding body_piece_def by (rule bslice_cut) (use n l assms(1) in \<open>auto simp: body_ok_def\<close>)
      then show ?thesis
        using r' IO_ok assms(1,2) n l under nl by (auto simp: body_out_def body_ok_def body_piece_def)
    qed (use assms False l under nl in \<open>auto simp: write_body_def body_out_def body_ok_def Let_def\<close>)
  qed
qed

lemma read_body_fails: "read_body env r = (ret, r') \<Longrightarrow> ret \<in> {0, -2} \<Longrightarrow> r' = r"
  by (auto simp: read_body_def Let_def split: if_splits read_result.splits)

lemma write_body_fails:
  "write_body reg env (r, g) = Some (ret, r', g') \<Longrightarrow> ret \<in> {0, -2} \<Longrightarrow> body_ok r \<Longrightarrow> r_status r = BODY_WRITE \<Longrightarrow>
   \<not> body_complete r \<Longrightarrow> r' = r \<and> g' = g"
  by (auto simp: write_body_def body_complete_def body_ok_def Let_def split: if_splits io_result.splits)

lemma body_one_step:
  assumes "body_ok r" "\<not> body_complete r" "r_filesize r \<noteq> 0 \<longrightarrow> r_filepos r \<le> r_filesize r" "io_bounded env"
    and "body_step reg env (r, g) = Some (ret, r', g')"
  shows "g' = g \<and> body_ok r' \<and> r_filesize r' = r_filesize r \<and>
    (r_filesize r \<noteq> 0 \<longrightarrow> r_filepos r' \<le> r_filesize r) \<and>
    (if ret = 0 \<or> ret = -2 then r' = r
     else body_piece r @ body_in env r = body_out env g r @ body_lost g r @ body_piece r' \<and>
          r_filepos r' = r_filepos r + length (body_in env r))"
proof (cases "r_status r = BODY_READ")
  case True
  then have s: "read_body env r = (ret, r')" "g' = g" using assms(5) by (auto simp: body_step_def split: prod.splits)
  have "body_out env g r = []" "body_lost g r = []" using True by (simp_all add: body_out_def body_lost_def)
  then show ?thesis
    using read_body_step [OF assms(1) True s(1)] read_body_fails [OF s(1)] s(2) assms(1,3) by (cases "ret = 0") auto
next
  case False
  then have w: "r_status r = BODY_WRITE" and s: "write_body reg env (r, g) = Some (ret, r', g')"
    using assms(1,5) by (auto simp: body_ok_def body_step_def)
  have "body_in env r = []" using w by (simp add: body_in_def)
  then show ?thesis
    using write_body_step [OF assms(1) w assms(2) s _ assms(4)] write_body_fails [OF s _ assms(1) w assms(2)] assms(1,3)
    by auto
qed

text \<open>Once the limit is passed it stays passed, so nothing is written after the first byte thrown away.\<close>

lemma body_run_transfers:
  assumes "body_ok r" "r_filesize r \<noteq> 0 \<longrightarrow> r_filepos r \<le> r_filesize r"
    and "\<forall>env \<in> set envs. io_bounded env" "body_run reg envs (r, g) = (i, out, lost, r', g')"
  shows "body_ok r' \<and> body_piece r @ i = out @ lost @ body_piece r' \<and> r_filesize r' = r_filesize r \<and>
    r_filepos r' = r_filepos r + length i \<and> (r_filesize r \<noteq> 0 \<longrightarrow> r_filepos r' \<le> r_filesize r) \<and>
    (g_max_upload_size g < int (r_filepos r) \<longrightarrow> out = []) \<and>
    (lost \<noteq> [] \<longrightarrow> g_max_upload_size g < int (r_filepos r'))"
  using assms
proof (induction envs arbitrary: r g i out lost r' g')
  case (Cons env envs)
  show ?case
  proof (cases "body_complete r")
    case True
    then show ?thesis using Cons.prems by auto
  next
    case False
    show ?thesis
    proof (cases "body_step reg env (r, g)")
      case None
      then show ?thesis using Cons.prems False by auto
    next
      case (Some res)
      obtain ret r1 g1 where res: "res = (ret, r1, g1)" by (metis prod_cases3)
      have one: "g1 = g \<and> body_ok r1 \<and> r_filesize r1 = r_filesize r \<and>
        (r_filesize r \<noteq> 0 \<longrightarrow> r_filepos r1 \<le> r_filesize r) \<and>
        (if ret = 0 \<or> ret = -2 then r1 = r
         else body_piece r @ body_in env r = body_out env g r @ body_lost g r @ body_piece r1 \<and>
              r_filepos r1 = r_filepos r + length (body_in env r))"
        by (rule body_one_step [OF Cons.prems(1) False Cons.prems(2) _ Some [unfolded res]])
           (use Cons.prems(3) in simp)
      show ?thesis
      proof (cases "ret = 0 \<or> ret = -2")
        case True
        then show ?thesis using Cons.prems False Some res one by auto
      next
        case F: False
        obtain i' out' lost' r2 g2 where rest: "body_run reg envs (r1, g1) = (i', out', lost', r2, g2)"
          by (metis prod_cases5)
        have eq: "i = body_in env r @ i'" "out = body_out env g r @ out'" "lost = body_lost g r @ lost'" "r' = r2"
          using Cons.prems(4) False Some res F rest by auto
        have ih: "body_ok r2 \<and> body_piece r1 @ i' = out' @ lost' @ body_piece r2 \<and> r_filesize r2 = r_filesize r1 \<and>
            r_filepos r2 = r_filepos r1 + length i' \<and> (r_filesize r1 \<noteq> 0 \<longrightarrow> r_filepos r2 \<le> r_filesize r1) \<and>
            (g_max_upload_size g1 < int (r_filepos r1) \<longrightarrow> out' = []) \<and>
            (lost' \<noteq> [] \<longrightarrow> g_max_upload_size g1 < int (r_filepos r2))"
          by (rule Cons.IH [OF _ _ _ rest]) (use one Cons.prems in auto)
        have pos: "r_filepos r1 = r_filepos r + length (body_in env r)" "g1 = g" using one F by auto
        have over: "g_max_upload_size g < int (r_filepos r) \<Longrightarrow> body_out env g r = [] \<and> out' = []"
          using ih pos by (simp add: body_out_def)
        have lost: "body_lost g r \<noteq> [] \<Longrightarrow> g_max_upload_size g < int (r_filepos r)"
          by (simp add: body_lost_def split: if_splits)
        have "body_piece r @ i = body_out env g r @ body_lost g r @ body_piece r1 @ i'"
          using one F by (simp add: eq(1))
        also have "\<dots> = body_out env g r @ body_lost g r @ out' @ lost' @ body_piece r2" using ih by simp
        also have "\<dots> = out @ lost @ body_piece r'"
          using lost over eq by (cases "body_lost g r = []") auto
        finally show ?thesis using ih pos one over lost eq F by (cases "body_lost g r = []") auto
      qed
    qed
  qed
qed simp

text \<open>C5: The body of a posted request reaches its temporary file in order up to the upload limit, and is
  dropped from there on: over any visits, however little each read and write moves, what stood in the
  buffer followed by what was read is what was written, then what was thrown away, then what still
  waits in the buffer.  Something is thrown away only when more than \<open>max_upload_size\<close> bytes have
  arrived.  With an announced length never more than it is taken; and when the body is complete,
  everything was written or thrown away, which for a body that ends by its length is the whole of it.\<close>

theorem body_transfers:
  assumes "body_ok r" "r_filesize r \<noteq> 0 \<longrightarrow> r_filepos r \<le> r_filesize r"
    and "\<forall>env \<in> set envs. io_bounded env" "body_run reg envs (r, g) = (i, out, lost, r', g')"
  shows "body_piece r @ i = out @ lost @ body_piece r' \<and> body_ok r' \<and>
    (lost \<noteq> [] \<longrightarrow> g_max_upload_size g < int (r_filepos r + length i)) \<and>
    (r_filesize r \<noteq> 0 \<longrightarrow> r_filepos r + length i \<le> r_filesize r) \<and>
    (body_complete r' \<longrightarrow> out @ lost = body_piece r @ i \<and>
      (r_cgi_status r' \<noteq> CGI_CLOSE \<and> r_filesize r \<noteq> 0 \<longrightarrow> r_filepos r + length i = r_filesize r))"
  using body_run_transfers [OF assms] by (auto simp: body_complete_def body_piece_def)

definition sample_body :: request where
  "sample_body = blank_request \<lparr> r_status := BODY_READ, r_filesize := 3, r_filepos := 1, r_header_end := 1,
     r_buffer := CHR ''a'' # replicate BUFFER_SIZE NUL \<rparr>"

definition sample_drip :: env where
  "sample_drip = sample_env \<lparr> e_read := \<lambda>_ n. if n = 0 then RD_again else RD_data ''b'' \<rparr>"

text \<open>The sample body of three bytes under a limit of two: all of it is thrown away in the end, since the
  limit is compared before each write with all that has arrived.\<close>

theorem body_transfers_witness:
  "let (i, out, lost, r', g') = body_run sample_registry [sample_drip, sample_drip, sample_drip]
         (sample_body, globals_init \<lparr> g_max_upload_size := 2 \<rparr>)
   in out @ lost @ body_piece r' = ''a'' @ i \<and> (lost \<noteq> [] \<longrightarrow> 1 < length i)"
proof -
  let ?g = "globals_init \<lparr> g_max_upload_size := 2 \<rparr>" let ?e = "[sample_drip, sample_drip, sample_drip]"
  have b: "\<forall>env \<in> set ?e. io_bounded env"
    by (auto simp: io_bounded_def sample_drip_def sample_env_def split: if_splits)
  have ok: "body_ok sample_body" "r_filesize sample_body \<noteq> 0 \<longrightarrow> r_filepos sample_body \<le> r_filesize sample_body"
    and eq: "body_piece sample_body = ''a''" "r_filepos sample_body = 1"
    by (simp_all add: sample_body_def blank_request_def body_ok_def body_piece_def bslice_def BUFFER_SIZE_def
        CLIENT_STREAM_SIZE_def)
  obtain i out lost r' g' where run: "body_run sample_registry ?e (sample_body, ?g) = (i, out, lost, r', g')"
    by (metis prod_cases5)
  show ?thesis using body_transfers [OF ok b run] eq run by simp
qed

end
