(* ===== verification/Life.thy ===== *)
theory Life
  imports Queue Body
begin

text \<open>
  The life of a request (\<open>src/src/request.c\<close>): \<open>new_request\<close> takes one from the free list, \<open>free_request\<close>
  cleans one up and gives it back, or hands its connection on to a new one, \<open>get_sock_request\<close> accepts a
  connection.  What the server does to files and descriptors besides is the list of \<open>action\<close>s.  \<open>None\<close>
  stands for a crash (a null pointer where no free request is left).
\<close>

datatype action = A_log | A_close int | A_unlink string | A_reboot | A_lanip

type_synonym srv = "server \<times> globals \<times> action list"

section \<open>Taking a request\<close>

text \<open>\<open>memset\<close> and a fresh output buffer (whose bytes are not read before they are written).\<close>

definition reset_request :: "request \<Rightarrow> request" where
  "reset_request r = (zero_request r)
     \<lparr> r_max_buffer_size := CLIENT_STREAM_SIZE, r_buffer := replicate (CLIENT_STREAM_SIZE + 1) NUL \<rparr>"

definition new_request :: "server \<Rightarrow> nat option \<times> server" where
  "new_request s =
    (case q_head s Q_free of
       None \<Rightarrow> (None, s)
     | Some x \<Rightarrow> (Some x, upd_req x reset_request (dequeue Q_free x s)))"

section \<open>Giving it back\<close>

definition clear_wait :: "request \<Rightarrow> server \<Rightarrow> server" where
  "clear_wait r s =
    (case r_status r of
       PIPE_WRITE \<Rightarrow> s \<lparr> block_write_fdset := block_write_fdset s - {r_fd r} \<rparr>
     | WRITE \<Rightarrow> s \<lparr> block_write_fdset := block_write_fdset s - {r_fd r} \<rparr>
     | PIPE_READ \<Rightarrow> s \<lparr> block_read_fdset := block_read_fdset s - {r_data_fd r} \<rparr>
     | BODY_WRITE \<Rightarrow> s \<lparr> block_write_fdset := block_write_fdset s - {r_post_data_fd r} \<rparr>
     | _ \<Rightarrow> s \<lparr> block_read_fdset := block_read_fdset s - {r_fd r} \<rparr>)"

text \<open>What the next request on the same connection takes over, with what it already sent.\<close>

definition carry_over :: "env \<Rightarrow> request \<Rightarrow> request \<Rightarrow> request" where
  "carry_over env req conn =
    (let start = r_client_stream_pos req - r_pipeline_start req;
         conn = conn \<lparr> r_fd := r_fd req, r_status := READ_HEADER, r_header_line := 0, r_time_last := e_time_counter env,
                  r_kacount := r_kacount req, r_remote_ip_addr := r_remote_ip_addr req,
                  r_remote_port := r_remote_port req,
                  r_local_ip_addr := (if r_local_ip_addr req \<noteq> None then r_local_ip_addr req else r_local_ip_addr conn),
                  r_pipeline_start := start \<rparr>;
         conn = (if r_kacount conn + 1 = ka_max (e_cfg env) then SQUASH_KA conn else conn)
     in if start \<noteq> 0
        then conn \<lparr> r_client_stream := mem_write (r_client_stream conn) 0
                      (bslice (r_pipeline_start req) (r_client_stream_pos req) (r_client_stream req)) \<rparr>
        else conn)"

definition keep_connection :: "env \<Rightarrow> nat \<Rightarrow> server \<Rightarrow> server option" where
  "keep_connection env x s =
    (case new_request s of
       (None, _) \<Rightarrow> None
     | (Some c, s) \<Rightarrow>
         let s = upd_req c (carry_over env (reqs s x)) s; s = s \<lparr> st_requests := st_requests s + 1 \<rparr>
         in Some (if r_pipeline_start (reqs s c) \<noteq> 0 then enqueue Q_ready c s else block_request c s))"

definition close_connection :: "nat \<Rightarrow> server \<Rightarrow> server \<times> action list" where
  "close_connection x s =
    (let fd = r_fd (reqs s x); t = upd_req x (\<lambda>r. r \<lparr> r_fd := -1 \<rparr>) s
     in if fd \<noteq> -1 then (t \<lparr> st_connections := st_connections t - 1 \<rparr>, [A_close fd]) else (t, []))"

text \<open>The temporary file of a posted body.  During an upgrade of the firmware it stays.\<close>

definition drop_post_file :: "env \<Rightarrow> nat \<Rightarrow> server \<times> globals \<Rightarrow> srv" where
  "drop_post_file env x sg =
    (let (s, g) = sg; r = reqs s x in
     if \<not> g_upgrade_firmware g then
       (case r_post_file_name r of
          None \<Rightarrow> (s, g, [])
        | Some name \<Rightarrow>
            (upd_req x (\<lambda>r. r \<lparr> r_post_data_fd := -1, r_post_file_name := None \<rparr>) s, g,
             [A_unlink name, A_close (r_post_data_fd r)]))
     else (s, g \<lparr> g_upgrade_firmware := e_access_f env ''/tmp/g_upgrade_firmware'' \<rparr>, []))"

definition may_keep :: "env \<Rightarrow> request \<Rightarrow> bool" where
  "may_keep env r \<longleftrightarrow> r_keepalive r = KA_ACTIVE \<and> r_response_status r < 400"

text \<open>The connection is kept, counting the requests it served, or closed.\<close>

definition hand_on :: "env \<Rightarrow> nat \<Rightarrow> server \<Rightarrow> (server \<times> action list) option" where
  "hand_on env x s =
    (let keep = may_keep env (reqs s x);
         s = (if keep then upd_req x (\<lambda>r. r \<lparr> r_kacount := r_kacount r + 1 \<rparr>) s else s)
     in if keep \<and> r_kacount (reqs s x) < ka_max (e_cfg env)
        then map_option (\<lambda>s. (s, [])) (keep_connection env x s)
        else Some (close_connection x s))"

text \<open>\<open>free_request\<close> returns at once while there is output to send.\<close>

definition free_request :: "env \<Rightarrow> queue option \<Rightarrow> nat \<Rightarrow> srv \<Rightarrow> srv option" where
  "free_request env q x st =
    (let (s, g, acts) = st; r = reqs s x in
     if r_buffer_end r \<noteq> 0 then Some st
     else
       let s = (case q of None \<Rightarrow> s | Some q \<Rightarrow> dequeue q x s);
           s = clear_wait r s;
           acts = acts @ (if r_logline r \<noteq> None then [A_log] else []) @
                         (if r_data_fd r \<noteq> 0 then [A_close (r_data_fd r)] else []);
           s = (if r_response_status r \<ge> 400 then s \<lparr> st_errors := st_errors s + 1 \<rparr> else s)
       in case hand_on env x s of
            None \<Rightarrow> None
          | Some (s, acts2) \<Rightarrow>
              let (s, g, acts3) = drop_post_file env x (s, g);
                  s = upd_req x (\<lambda>r. r \<lparr> r_buffer := [] \<rparr>) s
              in Some (enqueue Q_free x s, g, acts @ acts2 @ acts3))"

section \<open>Accepting a connection\<close>

text \<open>What the socket calls give: a descriptor with the address and port of the client (or none), and
  the own address.\<close>

record accepted =
  a_conn :: "(int \<times> string \<times> int) option"
  a_sockname :: "string option"

definition accepted_request :: "env \<Rightarrow> int \<times> string \<times> int \<Rightarrow> request \<Rightarrow> request" where
  "accepted_request env conn r =
    (let (fd, addr, port) = conn
     in r \<lparr> r_fd := fd, r_status := READ_HEADER, r_header_line := 0, r_time_last := e_time_counter env,
            r_send_charset := True, r_remote_ip_addr := take 20 addr, r_remote_port := port \<rparr>)"

definition close_failed :: "int \<Rightarrow> srv \<Rightarrow> srv" where
  "close_failed fd st = (let (s, g, acts) = st in (s, g, if fd \<ge> 0 then acts @ [A_close fd] else acts))"

definition get_sock_request :: "env \<Rightarrow> int \<Rightarrow> accepted \<Rightarrow> srv \<Rightarrow> (nat option \<times> srv) option" where
  "get_sock_request env max_connections acc st =
    (let (s, g, acts) = st in
     if max_connections \<noteq> -1 \<and> st_connections s \<ge> max_connections then Some (None, st)
     else case new_request s of
       (None, _) \<Rightarrow> Some (None, st)
     | (Some c, s) \<Rightarrow>
         (case a_conn acc of
            None \<Rightarrow> map_option (\<lambda>st. (None, st)) (free_request env None c (s, g, acts))
          | Some (fd, addr, port) \<Rightarrow>
              let s = upd_req c (accepted_request env (fd, addr, port)) s in
              if virtualhost (g_tab g) \<and> a_sockname acc = None then
                map_option (\<lambda>st. (None, close_failed fd st)) (free_request env None c (s, g, acts))
              else
                let s = (if virtualhost (g_tab g) then upd_req c (\<lambda>r. r \<lparr> r_local_ip_addr := a_sockname acc \<rparr>) s else s);
                    s = s \<lparr> st_requests := st_requests s + 1 \<rparr>; s = s \<lparr> st_connections := st_connections s + 1 \<rparr>
                in Some (Some c, enqueue Q_block c s, g, acts)))"

section \<open>The pool of requests\<close>

text \<open>\<open>malloc\<close> gives the addresses; \<open>free_requests\<close> empties the free list.\<close>

fun init_free_requests :: "nat list \<Rightarrow> server \<Rightarrow> server" where
  "init_free_requests [] s = s"
| "init_free_requests (x # xs) s = init_free_requests xs (enqueue Q_free x s)"

definition free_requests :: "server \<Rightarrow> server" where
  "free_requests s = s \<lparr> q_head := (q_head s) (Q_free := None) \<rparr>"

section \<open>The queues through the life of a request\<close>

text \<open>All requests of the server.\<close>

definition members :: "(queue \<Rightarrow> nat list) \<Rightarrow> nat set" where
  "members L = set (L Q_ready) \<union> set (L Q_block) \<union> set (L Q_free)"

text \<open>
  The requests outside \<open>X\<close> are spared: if they are in use, their fields stay as they are, and they stay
  ready or blocked.
\<close>

definition spares :: "nat set \<Rightarrow> server \<Rightarrow> (queue \<Rightarrow> nat list) \<Rightarrow> server \<Rightarrow> (queue \<Rightarrow> nat list) \<Rightarrow> bool" where
  "spares X s L s' L' \<longleftrightarrow>
    (\<forall>y. y \<notin> X \<longrightarrow> y \<notin> set (L Q_free) \<longrightarrow>
       reqs s' y = reqs s y \<and> (\<forall>q. q \<noteq> Q_free \<longrightarrow> y \<in> set (L q) \<longrightarrow> y \<in> set (L' q)))"

lemma all_queues: "(\<forall>q. P q) \<longleftrightarrow> P Q_ready \<and> P Q_block \<and> P Q_free"
  by (metis queue.exhaust)

lemma members_iff: "x \<in> members L \<longleftrightarrow> (\<exists>q. x \<in> set (L q))"
  using all_queues [of "\<lambda>q. x \<notin> set (L q)"] by (auto simp: members_def)

lemma links_head:
  assumes "queues_ok s L"
  shows "q_head s q = (if L q = [] then None else Some (hd (L q)))"
  using queues_okD(1) [OF assms, of q] by (cases "L q") (auto simp: holds_def)

lemma links_next:
  assumes "queues_ok s L" "L q = as @ x # bs"
  shows "q_next s x = (if bs = [] then None else Some (hd bs))"
  using queues_okD(1) [OF assms(1), of q] dll_split(2) [of "q_next s" "q_prev s" None "q_head s q" as x bs] assms(2)
  by (auto simp: holds_def)

lemma dequeue_unlinked:
  assumes "q_head s q \<noteq> Some x" "q_next s x = None" "q_prev s x = None"
  shows "dequeue q x s = s"
proof -
  have "(q_next s) (x := None) = q_next s" "(q_prev s) (x := None) = q_prev s"
    using assms(2,3) fun_upd_idem by metis+
  then show ?thesis using assms by (simp add: dequeue_def Let_def)
qed

lemma dequeue_unlinks:
  assumes "queues_ok s L" "x \<in> set (L q)"
  shows "q_next (dequeue q x s) x = None" "q_prev (dequeue q x s) x = None"
  using links_members(3) [OF queues_okD(1) [OF assms(1)] assms(2)] by (simp_all add: dequeue_next dequeue_prev)

lemma queues_ok_clear [simp]: "queues_ok (clear_wait r s) L \<longleftrightarrow> queues_ok s L"
  by (simp add: clear_wait_def split: rstatus.split)

lemma new_request_queues:
  assumes "queues_ok s L" "new_request s = (Some c, s')"
  shows "\<exists>fs. L Q_free = c # fs \<and> queues_ok s' (L (Q_free := fs)) \<and> (\<forall>q. c \<notin> set ((L (Q_free := fs)) q)) \<and>
    q_next s' c = None \<and> q_prev s' c = None \<and> reqs s' = (reqs s) (c := reset_request (reqs s c))"
proof -
  have h: "q_head s Q_free = Some c" "s' = upd_req c reset_request (dequeue Q_free c s)"
    using assms(2) by (auto simp: new_request_def split: option.splits)
  then obtain fs where fs: "L Q_free = c # fs"
    using links_head [OF assms(1), of Q_free] by (cases "L Q_free") auto
  have "queues_ok (dequeue Q_free c s) (L (Q_free := fs))" using rq.deq_ok [OF assms(1), of c Q_free] fs by simp
  moreover have "\<forall>q. c \<notin> set ((L (Q_free := fs)) q)" using rq.removed [OF assms(1), of c Q_free] fs by simp
  ultimately show ?thesis using fs h(2) dequeue_unlinks [OF assms(1), of c Q_free] by (simp add: upd_req_def)
qed

lemma block_unlinked_queues:
  assumes "queues_ok s L" "\<forall>q. c \<notin> set (L q)" "q_next s c = None" "q_prev s c = None"
  shows "queues_ok (block_request c s) (L (Q_block := c # L Q_block))"
proof -
  have "q_head s Q_ready \<noteq> Some c" using links_head [OF assms(1), of Q_ready] assms(2) by (metis hd_in_set option.distinct(1) option.inject)
  then have "dequeue Q_ready c s = s" using dequeue_unlinked assms(3,4) by blast
  then show ?thesis
    using rq.enq_ok [OF assms(1,2), of Q_block]
    by (simp add: block_request_alt Let_def split: prod.split bool.split)
qed

text \<open>A new connection comes in front of the ready or of the blocked list.\<close>

lemma keep_connection_queues:
  assumes "queues_ok s L" "keep_connection env x s = Some s'"
  shows "\<exists>c fs q. L Q_free = c # fs \<and> q \<in> {Q_ready, Q_block} \<and> (\<forall>q. c \<notin> set ((L (Q_free := fs)) q)) \<and>
    queues_ok s' (L (Q_free := fs, q := c # L q)) \<and> (\<forall>y. y \<noteq> c \<longrightarrow> reqs s' y = reqs s y)"
proof -
  obtain c s1 where n: "new_request s = (Some c, s1)"
    using assms(2) by (auto simp: keep_connection_def split: prod.splits option.splits)
  obtain fs where fs: "L Q_free = c # fs" "queues_ok s1 (L (Q_free := fs))" "\<forall>q. c \<notin> set ((L (Q_free := fs)) q)"
    "q_next s1 c = None" "q_prev s1 c = None" "reqs s1 = (reqs s) (c := reset_request (reqs s c))"
    using new_request_queues [OF assms(1) n] by blast
  define s2 where "s2 = upd_req c (carry_over env (reqs s1 x)) s1 \<lparr> st_requests := st_requests s1 + 1 \<rparr>"
  have s2: "queues_ok s2 (L (Q_free := fs))" "q_next s2 c = None" "q_prev s2 c = None"
    using fs by (simp_all add: s2_def upd_req_def)
  have s': "s' = (if r_pipeline_start (reqs s2 c) \<noteq> 0 then enqueue Q_ready c s2 else block_request c s2)"
    using assms(2) n by (auto simp: keep_connection_def s2_def Let_def upd_req_def)
  have "reqs s' y = reqs s y" if "y \<noteq> c" for y using that fs(6) s' by (simp add: s2_def upd_req_def)
  moreover have "queues_ok s' (L (Q_free := fs, Q_ready := c # L Q_ready)) \<or>
      queues_ok s' (L (Q_free := fs, Q_block := c # L Q_block))"
  proof (cases "r_pipeline_start (reqs s2 c) = 0")
    case True
    then have "queues_ok s' ((L (Q_free := fs)) (Q_block := c # (L (Q_free := fs)) Q_block))"
      using block_unlinked_queues [OF s2(1) fs(3) s2(2,3)] s' by (simp only: if_False simp_thms if_True)
    then show ?thesis by simp
  next
    case False
    then have "queues_ok s' ((L (Q_free := fs)) (Q_ready := c # (L (Q_free := fs)) Q_ready))"
      using rq.enq_ok [OF s2(1) fs(3), of Q_ready] s' by (simp only: if_False simp_thms if_True)
    then show ?thesis by simp
  qed
  ultimately show ?thesis using fs(1,3) by blast
qed

text \<open>Freeing a member of a queue: it stays where it is while it has output, or goes to the free list,
  and the members behind it in its queue are not touched.\<close>

lemma hand_on_queues:
  assumes "queues_ok s L" "\<forall>q. x \<notin> set (L q)" "hand_on env x s = Some (s', acts)"
  shows "\<exists>L'. queues_ok s' L' \<and> insert x (members L') = insert x (members L) \<and> (\<forall>q. x \<notin> set (L' q)) \<and>
    (\<forall>q. q \<noteq> Q_free \<longrightarrow> L' q = L q \<or> (\<exists>c. L' q = c # L q)) \<and>
    (\<forall>y. y \<noteq> x \<longrightarrow> y \<notin> set (L Q_free) \<longrightarrow> reqs s' y = reqs s y)"
proof -
  define t where "t = (if may_keep env (reqs s x) then upd_req x (\<lambda>r. r \<lparr> r_kacount := r_kacount r + 1 \<rparr>) s else s)"
  have t: "queues_ok t L" "\<forall>y. y \<noteq> x \<longrightarrow> reqs t y = reqs s y"
    using assms(1) by (simp_all add: t_def upd_req_def)
  consider "keep_connection env x t = Some s'" | "close_connection x t = (s', acts)"
    using assms(3) unfolding hand_on_def Let_def t_def [symmetric] by (auto split: if_splits)
  then show ?thesis
  proof cases
    case 1
    then obtain c fs q where k: "L Q_free = c # fs" "q \<in> {Q_ready, Q_block}" "\<forall>q. c \<notin> set ((L (Q_free := fs)) q)"
      "queues_ok s' (L (Q_free := fs, q := c # L q))" "\<forall>y. y \<noteq> c \<longrightarrow> reqs s' y = reqs t y"
      using keep_connection_queues [OF t(1)] by blast
    have "x \<noteq> c" "x \<notin> set fs" using assms(2) k(1) by (metis list.set_intros(1), metis list.set_intros(2))
    then show ?thesis
      using k assms(2) t(2) by (intro exI [of _ "L (Q_free := fs, q := c # L q)"]) (auto simp: members_def)
  next
    case 2
    then have "queues_ok s' L" "\<forall>y. y \<noteq> x \<longrightarrow> reqs s' y = reqs s y"
      using t by (auto simp: close_connection_def Let_def upd_req_def split: if_splits)
    then show ?thesis using assms(2) by (intro exI [of _ L]) auto
  qed
qed

lemma drop_post_queues [simp]:
  "drop_post_file env x (s, g) = (s', g', acts) \<Longrightarrow> queues_ok s' L \<longleftrightarrow> queues_ok s L"
  by (auto simp: drop_post_file_def Let_def split: if_splits option.splits)

lemma drop_post_others:
  "drop_post_file env x (s, g) = (s', g', acts) \<Longrightarrow> y \<noteq> x \<Longrightarrow> reqs s' y = reqs s y"
  by (auto simp: drop_post_file_def Let_def upd_req_def split: if_splits option.splits)

lemma clear_wait_reqs [simp]: "reqs (clear_wait r s) = reqs s"
  by (simp add: clear_wait_def split: rstatus.split)

lemma enqueue_reqs [simp]: "reqs (enqueue q x s) = reqs s"
  by (simp add: enqueue_def Let_def split: option.split)

lemma free_unlinked_queues:
  assumes q: "queues_ok (case q of None \<Rightarrow> s | Some q \<Rightarrow> dequeue q x s) L" "\<forall>q. x \<notin> set (L q)"
    and b: "r_buffer_end (reqs s x) = 0"
    and f: "free_request env q x (s, g, acts) = Some (s', g', acts')"
  shows "\<exists>L'. queues_ok s' L' \<and> members L' = insert x (members L) \<and>
    (\<forall>q. q \<noteq> Q_free \<longrightarrow> L' q = L q \<or> (\<exists>c. L' q = c # L q)) \<and>
    (\<forall>y. y \<noteq> x \<longrightarrow> y \<notin> set (L Q_free) \<longrightarrow> reqs s' y = reqs s y)"
proof -
  define s2 where "s2 = (let t = clear_wait (reqs s x) (case q of None \<Rightarrow> s | Some q \<Rightarrow> dequeue q x s)
    in if r_response_status (reqs s x) \<ge> 400 then t \<lparr> st_errors := st_errors t + 1 \<rparr> else t)"
  have s2: "queues_ok s2 L" "reqs s2 = reqs s"
    using q(1) by (simp_all add: s2_def Let_def split: option.split)
  have e: "free_request env q x (s, g, acts) =
      (case hand_on env x s2 of None \<Rightarrow> None
       | Some (s4, acts2) \<Rightarrow> (case drop_post_file env x (s4, g) of (s5, g5, acts3) \<Rightarrow>
           Some (enqueue Q_free x (upd_req x (\<lambda>r. r \<lparr> r_buffer := [] \<rparr>) s5), g5,
             (acts @ (if r_logline (reqs s x) \<noteq> None then [A_log] else []) @
                (if r_data_fd (reqs s x) \<noteq> 0 then [A_close (r_data_fd (reqs s x))] else [])) @ acts2 @ acts3)))"
    using b unfolding free_request_def Let_def s2_def prod.case fst_conv by simp
  obtain s4 acts2 where s4: "hand_on env x s2 = Some (s4, acts2)"
    using f e by (cases "hand_on env x s2") auto
  obtain L4 where L4: "queues_ok s4 L4" "insert x (members L4) = insert x (members L)" "\<forall>q. x \<notin> set (L4 q)"
    "\<forall>q. q \<noteq> Q_free \<longrightarrow> L4 q = L q \<or> (\<exists>c. L4 q = c # L q)"
    "\<forall>y. y \<noteq> x \<longrightarrow> y \<notin> set (L Q_free) \<longrightarrow> reqs s4 y = reqs s2 y"
    using hand_on_queues [OF s2(1) q(2) s4] by blast
  obtain s5 g5 acts3 where d: "drop_post_file env x (s4, g) = (s5, g5, acts3)" by (metis prod_cases3)
  have s': "s' = enqueue Q_free x (upd_req x (\<lambda>r. r \<lparr> r_buffer := [] \<rparr>) s5)" using f e s4 d by simp
  have "queues_ok (upd_req x (\<lambda>r. r \<lparr> r_buffer := [] \<rparr>) s5) L4" using drop_post_queues [OF d] L4(1) by simp
  then have "queues_ok s' (L4 (Q_free := x # L4 Q_free))" unfolding s' by (rule rq.enq_ok [OF _ L4(3)])
  moreover have "members (L4 (Q_free := x # L4 Q_free)) = insert x (members L)" using L4(2) by (auto simp: members_def)
  moreover have "\<forall>y. y \<noteq> x \<longrightarrow> y \<notin> set (L Q_free) \<longrightarrow> reqs s' y = reqs s y"
    using L4(5) s2(2) drop_post_others [OF d] by (simp add: s' upd_req_def)
  ultimately show ?thesis using L4(4) by (intro exI [of _ "L4 (Q_free := x # L4 Q_free)"]) auto
qed

lemma free_request_queues:
  assumes "queues_ok s L" "L q = as @ x # bs" "q \<noteq> Q_free" "free_request env (Some q) x (s, g, acts) = Some (s', g', acts')"
  shows "\<exists>L' as'. queues_ok s' L' \<and> L' q = as' @ bs \<and> members L' = members L \<and> spares {x} s L s' L'"
proof (cases "r_buffer_end (reqs s x) = 0")
  case False
  then show ?thesis using assms by (intro exI [of _ L] exI [of _ "as @ [x]"]) (auto simp: free_request_def spares_def)
next
  case True
  define L1 where "L1 = L (q := remove1 x (L q))"
  have x: "x \<in> set (L q)" using assms(2) by simp
  have "queues_ok (dequeue q x s) L1" "\<forall>q. x \<notin> set (L1 q)"
    unfolding L1_def by (rule rq.deq_ok [OF assms(1) x], rule rq.removed [OF assms(1) x])
  then obtain L' where L': "queues_ok s' L'" "members L' = insert x (members L1)"
    "\<forall>q. q \<noteq> Q_free \<longrightarrow> L' q = L1 q \<or> (\<exists>c. L' q = c # L1 q)"
    "\<forall>y. y \<noteq> x \<longrightarrow> y \<notin> set (L1 Q_free) \<longrightarrow> reqs s' y = reqs s y"
    using free_unlinked_queues [where q = "Some q" and L = L1, OF _ _ True assms(4)] by auto
  have "x \<notin> set as" using rq.ok_distinct [OF assms(1), of q] assms(2) by auto
  then have q1: "L1 q = as @ bs" by (simp add: L1_def assms(2) remove1_append)
  have "members L' = members L"
    using rq.ok_distinct [OF assms(1), of q] x L'(2) by (cases q) (auto simp: members_def L1_def)
  moreover have "\<exists>as'. L' q = as' @ bs" using L'(3) assms(3) q1 by (metis append_Cons)
  moreover have "spares {x} s L s' L'"
    unfolding spares_def
  proof (intro allI impI conjI)
    fix y assume y: "y \<notin> {x}" "y \<notin> set (L Q_free)"
    then show "reqs s' y = reqs s y" using L'(4) assms(3) by (simp add: L1_def)
    fix p assume "p \<noteq> Q_free" "y \<in> set (L p)"
    moreover then have "y \<in> set (L1 p)" using y(1) by (auto simp: L1_def)
    ultimately show "y \<in> set (L' p)" using L'(3) by (metis list.set_intros(2))
  qed
  ultimately show ?thesis using L'(1) by blast
qed

text \<open>A new connection takes a request from the free list and no other, whether it is accepted or not.\<close>

lemma new_members:
  "L Q_free = c # fs \<Longrightarrow> members L = insert c (members (L (Q_free := fs)))"
  by (auto simp: members_def)

lemma get_sock_queues:
  assumes "queues_ok s L" "get_sock_request env max_connections acc (s, g, acts) = Some (ret, s', g', acts')"
  shows "\<exists>L'. queues_ok s' L' \<and> members L' = members L \<and> spares {} s L s' L' \<and> (\<forall>c. ret = Some c \<longrightarrow> c \<in> set (L' Q_block))"
proof (cases "max_connections \<noteq> -1 \<and> st_connections s \<ge> max_connections \<or> q_head s Q_free = None")
  case True
  then have "s' = s \<and> ret = None" using assms(2) by (auto simp: get_sock_request_def new_request_def split: if_splits)
  then show ?thesis using assms(1) by (auto simp: spares_def)
next
  case False
  then obtain c s1 where n: "new_request s = (Some c, s1)" by (auto simp: new_request_def)
  obtain fs where fs: "L Q_free = c # fs" "queues_ok s1 (L (Q_free := fs))" "\<forall>q. c \<notin> set ((L (Q_free := fs)) q)"
    "reqs s1 = (reqs s) (c := reset_request (reqs s c))"
    using new_request_queues [OF assms(1) n] by blast
  have freed: "\<exists>L'. queues_ok t' L' \<and> members L' = members L \<and> spares {} s L t' L'"
    if o: "\<forall>y. y \<noteq> c \<longrightarrow> reqs t y = reqs s y" and f: "free_request env None c (t, g, acts) = Some (t', g1, acts1)" "queues_ok t (L (Q_free := fs))"
      "r_buffer_end (reqs t c) = 0" for t t' g1 acts1
  proof -
    obtain L' where L': "queues_ok t' L'" "members L' = insert c (members (L (Q_free := fs)))"
      "\<forall>q. q \<noteq> Q_free \<longrightarrow> L' q = L q \<or> (\<exists>c. L' q = c # L q)"
      "\<forall>y. y \<noteq> c \<longrightarrow> y \<notin> set fs \<longrightarrow> reqs t' y = reqs t y"
      using free_unlinked_queues [where q = None and L = "L (Q_free := fs)", OF _ fs(3) f(3,1)] f(2) by auto
    moreover have "spares {} s L t' L'"
      unfolding spares_def
    proof (intro allI impI conjI)
      fix y assume y: "y \<notin> set (L Q_free)"
      then show "reqs t' y = reqs s y" using L'(4) o fs(1) by simp
      fix p assume "p \<noteq> Q_free" "y \<in> set (L p)"
      then show "y \<in> set (L' p)" using L'(3) by (metis list.set_intros(2))
    qed
    ultimately show ?thesis using new_members [of L, OF fs(1)] by auto
  qed
  have b: "r_buffer_end (reqs s1 c) = 0" using fs(4) by (simp add: reset_request_def zero_request_def)
  show ?thesis
  proof (cases "a_conn acc")
    case None
    then have r: "ret = None" "free_request env None c (s1, g, acts) = Some (s', g', acts')"
      using assms(2) False n by (auto simp: get_sock_request_def)
    then show ?thesis using freed [OF _ r(2) fs(2) b] fs(4) by auto
  next
    case (Some conn)
    then obtain fd addr port where conn: "a_conn acc = Some (fd, addr, port)" by (metis prod_cases3)
    define s2 where "s2 = upd_req c (accepted_request env (fd, addr, port)) s1"
    have s2: "queues_ok s2 (L (Q_free := fs))" "r_buffer_end (reqs s2 c) = 0" "\<forall>y. y \<noteq> c \<longrightarrow> reqs s2 y = reqs s y"
      using fs(2,4) b by (simp_all add: s2_def upd_req_def accepted_request_def)
    show ?thesis
    proof (cases "virtualhost (g_tab g) \<and> a_sockname acc = None")
      case True
      then obtain g1 acts1 where "ret = None" and f: "free_request env None c (s2, g, acts) = Some (s', g1, acts1)"
        using assms(2) False n conn by (auto simp: get_sock_request_def s2_def close_failed_def Let_def split: prod.splits)
      then show ?thesis using freed [OF s2(3) f s2(1,2)] by auto
    next
      case ok: False
      define s3 where "s3 = (let t = (if virtualhost (g_tab g) then upd_req c (\<lambda>r. r \<lparr> r_local_ip_addr := a_sockname acc \<rparr>) s2 else s2)
        in t \<lparr> st_requests := st_requests t + 1, st_connections := st_connections t + 1 \<rparr>)"
      have "ret = Some c" "s' = enqueue Q_block c s3"
        using assms(2) False n conn ok by (auto simp: get_sock_request_def s2_def s3_def Let_def split: if_splits)
      moreover have r: "\<forall>y. y \<noteq> c \<longrightarrow> reqs s3 y = reqs s y" using s2(3) by (simp add: s3_def Let_def upd_req_def)
      moreover have "queues_ok s3 (L (Q_free := fs))" using s2(1) by (simp add: s3_def Let_def)
      ultimately have "queues_ok s' ((L (Q_free := fs)) (Q_block := c # (L (Q_free := fs)) Q_block))"
        using rq.enq_ok [OF _ fs(3), of s3 Q_block] by (simp only:)
      then have "queues_ok s' (L (Q_free := fs, Q_block := c # L Q_block))"
        by (simp only: fun_upd_other queue.distinct not_False_eq_True)
      moreover have "members (L (Q_free := fs, Q_block := c # L Q_block)) = members L"
        using fs(1) by (auto simp: members_def)
      moreover have "spares {} s L s' (L (Q_free := fs, Q_block := c # L Q_block))"
        using fs(1) r \<open>s' = _\<close> by (auto simp: spares_def)
      ultimately show ?thesis using \<open>ret = Some c\<close>
        by (intro exI [of _ "L (Q_free := fs, Q_block := c # L Q_block)"]) simp
    qed
  qed
qed

lemma init_free_queues:
  assumes "queues_ok s L" "distinct xs" "\<forall>x \<in> set xs. \<forall>q. x \<notin> set (L q)"
  shows "queues_ok (init_free_requests xs s) (L (Q_free := rev xs @ L Q_free))"
  using assms
proof (induction xs arbitrary: s L)
  case Nil
  then show ?case by simp
next
  case (Cons x xs)
  have "queues_ok (enqueue Q_free x s) (L (Q_free := x # L Q_free))" using rq.enq_ok [OF Cons.prems(1)] Cons.prems(3) by simp
  moreover have "\<forall>y \<in> set xs. \<forall>q. y \<notin> set ((L (Q_free := x # L Q_free)) q)" using Cons.prems(2,3) by auto
  moreover have "distinct xs" using Cons.prems(2) by simp
  ultimately have "queues_ok (init_free_requests xs (enqueue Q_free x s))
      ((L (Q_free := x # L Q_free)) (Q_free := rev xs @ (L (Q_free := x # L Q_free)) Q_free))"
    by (intro Cons.IH)
  then show ?case by (simp only: fun_upd_upd fun_upd_same init_free_requests.simps rev.simps append_assoc append.simps)
qed

end
