(* ===== verification/Loop.thy ===== *)
theory Loop
  imports Life
begin

text \<open>
  The two loops over the queues: \<open>process_requests\<close> (\<open>src/src/request.c\<close>) gives every ready request to
  its handler, \<open>fdset_update\<close> (\<open>src/src/boa.c\<close>) looks after the blocked ones.  Both save the next member
  before the current one may leave its list, and follow the links of the list as they are then.  The
  requests run in environments of their own (\<open>envs x\<close>), \<open>reads x\<close> are the results of the reads of
  \<open>read_header\<close>.
\<close>

section \<open>Walking along a queue\<close>

partial_function (option) walk :: "(nat \<Rightarrow> srv \<Rightarrow> srv option) \<Rightarrow> ptr \<Rightarrow> srv \<Rightarrow> srv option" where
  [code]: "walk step cur st =
    (case cur of
       None \<Rightarrow> Some st
     | Some x \<Rightarrow>
         (let next_req = q_next (fst st) x in
          case step x st of
            None \<Rightarrow> None
          | Some st' \<Rightarrow> walk step next_req st'))"

section \<open>The ready requests\<close>

definition run_handler :: "registry \<Rightarrow> env \<Rightarrow> read_result list \<Rightarrow> st \<Rightarrow> (int \<times> st) option" where
  "run_handler reg env reads st =
    (if r_buffer_end (fst st) \<noteq> 0 then
       (let st = flush env st in Some (if r_status (fst st) = CLOSE then 0 else 1, st))
     else case r_status (fst st) of
       READ_HEADER \<Rightarrow> read_header reg env reads st
     | ONE_CR \<Rightarrow> read_header reg env reads st
     | ONE_LF \<Rightarrow> read_header reg env reads st
     | TWO_CR \<Rightarrow> read_header reg env reads st
     | BODY_READ \<Rightarrow> (let (ret, req) = read_body env (fst st) in Some (ret, req, snd st))
     | BODY_WRITE \<Rightarrow> write_body reg env st
     | WRITE \<Rightarrow> Some (process_get env st)
     | PIPE_READ \<Rightarrow> Some (read_from_pipe env st)
     | PIPE_WRITE \<Rightarrow> Some (write_from_pipe env st)
     | _ \<Rightarrow> Some (0, st))"

text \<open>The request is done: it is freed, and the server may have to restart something.\<close>

definition finish_request :: "env \<Rightarrow> nat \<Rightarrow> srv \<Rightarrow> srv option" where
  "finish_request env x st =
    map_option (\<lambda>(s, g, acts).
        (s, g, acts @ (if r_status (reqs s x) = REBOOT then [A_reboot] else []) @
                      (if r_status (reqs s x) = LANIP_CHANGE then [A_lanip] else [])))
      (free_request env (Some Q_ready) x st)"

definition process_one :: "registry \<Rightarrow> (nat \<Rightarrow> env) \<Rightarrow> (nat \<Rightarrow> read_result list) \<Rightarrow> nat \<Rightarrow> srv \<Rightarrow> srv option" where
  "process_one reg envs reads x st =
    (let (s, g, acts) = st; env = envs x in
     case run_handler reg env (reads x) (reqs s x, g) of
       None \<Rightarrow> None
     | Some (retval, req, g) \<Rightarrow>
         let req = (if lame_duck_mode (e_cfg env) \<noteq> 0 then SQUASH_KA req else req);
             s = upd_req x (\<lambda>_. req) s
         in if retval = -1 then Some (block_request x s, g, acts)
            else if retval = 1 then Some (upd_req x (\<lambda>r. r \<lparr> r_time_last := e_time_counter env \<rparr>) s, g, acts)
            else
              let (req, g) = (if retval = 0 then (req, g) else send_r_error env (req, g))
              in finish_request env x (upd_req x (\<lambda>_. req) s, g, acts))"

definition process_requests :: "registry \<Rightarrow> (nat \<Rightarrow> env) \<Rightarrow> (nat \<Rightarrow> read_result list) \<Rightarrow> srv \<Rightarrow> srv option" where
  "process_requests reg envs reads st = walk (process_one reg envs reads) (q_head (fst st) Q_ready) st"

section \<open>The blocked requests\<close>

definition wait_ready :: "request \<Rightarrow> server \<Rightarrow> bool" where
  "wait_ready r s \<longleftrightarrow>
    (case waits_on r of (True, d) \<Rightarrow> d \<in> block_write_fdset s | (False, d) \<Rightarrow> d \<in> block_read_fdset s)"

definition wait_again :: "request \<Rightarrow> server \<Rightarrow> server" where
  "wait_again r s =
    (case r_status r of
       PIPE_WRITE \<Rightarrow> s \<lparr> block_write_fdset := insert (r_fd r) (block_write_fdset s) \<rparr>
     | WRITE \<Rightarrow> s \<lparr> block_write_fdset := insert (r_fd r) (block_write_fdset s) \<rparr>
     | PIPE_READ \<Rightarrow> s \<lparr> block_read_fdset := insert (r_data_fd r) (block_read_fdset s) \<rparr>
     | BODY_WRITE \<Rightarrow> s \<lparr> block_write_fdset := insert (r_post_data_fd r) (block_write_fdset s) \<rparr>
     | _ \<Rightarrow> s \<lparr> block_read_fdset := insert (r_fd r) (block_read_fdset s) \<rparr>)"

definition expired :: "env \<Rightarrow> request \<Rightarrow> bool" where
  "expired env r \<longleftrightarrow>
    (let time_since = e_time_counter env - r_time_last r in
     (r_kacount r \<noteq> 0 \<and> time_since \<ge> ka_timeout (e_cfg env) \<and> r_logline r = None) \<or> time_since > REQUEST_TIMEOUT)"

text \<open>A request with output to send is only ever made ready; its descriptor is not set again.\<close>

definition fdset_one :: "env \<Rightarrow> nat \<Rightarrow> srv \<Rightarrow> srv option" where
  "fdset_one env x st =
    (let (s, g, acts) = st; r = reqs s x in
     if expired env r then free_request env (Some Q_block) x (upd_req x SQUASH_KA s, g, acts)
     else if wait_ready r s then Some (ready_request x s, g, acts)
     else if r_buffer_end r \<noteq> 0 then Some st
     else Some (wait_again r s, g, acts))"

text \<open>The listening sockets: a list of socket and port.\<close>

definition listen_one :: "config \<Rightarrow> int \<Rightarrow> int \<Rightarrow> int \<times> int \<Rightarrow> server \<Rightarrow> server" where
  "listen_one cfg server_sub_port max_connections p_entry s =
    (let (socket, port) = p_entry in
     if socket > 0 \<and> (port = server_port cfg \<or> port = server_sub_port) then
       (if lame_duck_mode cfg = 0 \<and> (max_connections = -1 \<or> st_connections s < max_connections)
        then s \<lparr> block_read_fdset := insert socket (block_read_fdset s) \<rparr>
        else s \<lparr> block_read_fdset := block_read_fdset s - {socket} \<rparr>)
     else s)"

definition fdset_update :: "env \<Rightarrow> (int \<times> int) list \<Rightarrow> int \<Rightarrow> int \<Rightarrow> srv \<Rightarrow> srv option" where
  "fdset_update env p_web_socket server_sub_port max_connections st =
    map_option (\<lambda>(s, g, acts). (fold (listen_one (e_cfg env) server_sub_port max_connections) p_web_socket s, g, acts))
      (walk (fdset_one env) (q_head (fst st) Q_block) st)"

section \<open>What a step of a walk owes\<close>

text \<open>The reference: every member of a list fixed beforehand is given to the step, in its order.\<close>

primrec foldo :: "('a \<Rightarrow> 'b \<Rightarrow> 'b option) \<Rightarrow> 'a list \<Rightarrow> 'b \<Rightarrow> 'b option" where
  "foldo step [] st = Some st"
| "foldo step (x # xs) st = (case step x st of None \<Rightarrow> None | Some st' \<Rightarrow> foldo step xs st')"

text \<open>
  A step may move the current member to any list and put others in front of it, but leaves the members
  behind it in place; \<open>keep\<close> is what it keeps besides.
\<close>

locale queue_walk =
  fixes step :: "nat \<Rightarrow> srv \<Rightarrow> srv option"
    and q :: queue
    and keep :: "srv \<Rightarrow> (queue \<Rightarrow> nat list) \<Rightarrow> bool"
  assumes step_keeps: "queues_ok (fst st) L \<Longrightarrow> L q = as @ x # bs \<Longrightarrow> keep st L \<Longrightarrow> step x st = Some st' \<Longrightarrow>
    \<exists>L' as'. queues_ok (fst st') L' \<and> L' q = as' @ bs \<and> members L' = members L \<and> keep st' L'"
begin

lemma walk_from:
  assumes "queues_ok (fst st) L" "L q = as @ bs" "keep st L"
  shows "walk step (if bs = [] then None else Some (hd bs)) st = foldo step bs st"
  using assms
proof (induction bs arbitrary: as st L)
  case Nil
  then show ?case by (simp add: walk.simps)
next
  case (Cons x bs)
  have n: "q_next (fst st) x = (if bs = [] then None else Some (hd bs))" by (rule links_next [OF Cons.prems(1,2)])
  show ?case
  proof (cases "step x st")
    case None
    then show ?thesis by (simp add: walk.simps)
  next
    case (Some st')
    then obtain L' as' where "queues_ok (fst st') L'" "L' q = as' @ bs" "keep st' L'"
      using step_keeps [OF Cons.prems] by blast
    then have "walk step (if bs = [] then None else Some (hd bs)) st' = foldo step bs st'" by (rule Cons.IH)
    then show ?thesis using Some n by (simp add: walk.simps Let_def del: if_split)
  qed
qed

lemma walk_queue:
  "queues_ok (fst st) L \<Longrightarrow> keep st L \<Longrightarrow> walk step (q_head (fst st) q) st = foldo step (L q) st"
  using walk_from [of st L "[]" "L q"] links_head [of "fst st" L q] by simp

lemma run_keeps:
  assumes "queues_ok (fst st) L" "L q = as @ bs" "keep st L" "foldo step bs st = Some st'"
  shows "\<exists>L'. queues_ok (fst st') L' \<and> members L' = members L \<and> keep st' L'"
  using assms
proof (induction bs arbitrary: as st L)
  case Nil
  then show ?case by auto
next
  case (Cons x bs)
  then obtain t where t: "step x st = Some t" "foldo step bs t = Some st'" by (auto split: option.splits)
  obtain L' as' where "queues_ok (fst t) L'" "L' q = as' @ bs" "members L' = members L" "keep t L'"
    using step_keeps [OF Cons.prems(1-3) t(1)] by blast
  then show ?case using Cons.IH [OF _ _ _ t(2)] by metis
qed

lemma walk_keeps:
  assumes "queues_ok (fst st) L" "keep st L" "walk step (q_head (fst st) q) st = Some st'"
  shows "\<exists>L'. queues_ok (fst st') L' \<and> members L' = members L \<and> keep st' L'"
  using run_keeps [OF assms(1), of "[]" "L q"] walk_queue [OF assms(1,2)] assms(2,3) by simp

end

section \<open>The shapes of a step\<close>

lemma upd_req_again: "upd_req x f (upd_req x g s) = upd_req x (\<lambda>r. f (g r)) s"
  by (simp add: upd_req_def)

lemma process_one_cases:
  assumes "process_one reg envs reads x (s, g, acts) = Some st'"
  obtains (blocks) req g1 where "st' = (block_request x (upd_req x (\<lambda>_. req) s), g1, acts)"
  | (stays) req g1 where "st' = (upd_req x (\<lambda>_. req) s, g1, acts)"
  | (frees) req g1 where "finish_request (envs x) x (upd_req x (\<lambda>_. req) s, g1, acts) = Some st'"
proof -
  obtain retval r1 g1 where h: "run_handler reg (envs x) (reads x) (reqs s x, g) = Some (retval, r1, g1)"
    using assms by (auto simp: process_one_def Let_def split: option.splits)
  define req where "req = (if lame_duck_mode (e_cfg (envs x)) \<noteq> 0 then SQUASH_KA r1 else r1)"
  define fin where "fin = (if retval = 0 then (req, g1) else send_r_error (envs x) (req, g1))"
  have p: "process_one reg envs reads x (s, g, acts) =
      (if retval = -1 then Some (block_request x (upd_req x (\<lambda>_. req) s), g1, acts)
       else if retval = 1 then Some (upd_req x (\<lambda>_. req \<lparr> r_time_last := e_time_counter (envs x) \<rparr>) s, g1, acts)
       else finish_request (envs x) x (upd_req x (\<lambda>_. fst fin) s, snd fin, acts))"
    unfolding process_one_def Let_def prod.case h option.case req_def [symmetric] fin_def [symmetric] upd_req_again
    by (simp only: case_prod_beta)
  consider "retval = -1" | "retval = 1" | "retval \<noteq> -1" "retval \<noteq> 1" by blast
  then show ?thesis
  proof cases
    case 1
    then show ?thesis using blocks assms p by (metis option.inject)
  next
    case 2
    then have "(-1 :: int) \<noteq> retval" by simp
    then show ?thesis using 2 stays assms p by (metis option.inject)
  next
    case 3
    then show ?thesis using frees assms p by (simp only: if_False)
  qed
qed

lemma fdset_one_cases:
  assumes "fdset_one env x (s, g, acts) = Some st'"
  obtains (frees) "expired env (reqs s x)" "free_request env (Some Q_block) x (upd_req x SQUASH_KA s, g, acts) = Some st'"
  | (wakes) "\<not> expired env (reqs s x)" "st' = (ready_request x s, g, acts)"
  | (waits) "\<not> expired env (reqs s x)" "st' = (s, g, acts) \<or> st' = (wait_again (reqs s x) s, g, acts)"
proof (cases "expired env (reqs s x)")
  case True
  then show ?thesis using frees assms unfolding fdset_one_def Let_def prod.case by (simp only: if_True)
next
  case False
  have "fdset_one env x (s, g, acts) =
      (if wait_ready (reqs s x) s then Some (ready_request x s, g, acts)
       else if r_buffer_end (reqs s x) \<noteq> 0 then Some (s, g, acts)
       else Some (wait_again (reqs s x) s, g, acts))"
    using False unfolding fdset_one_def Let_def prod.case by (simp only: if_False)
  then show ?thesis using wakes waits False assms
    by (cases "wait_ready (reqs s x) s"; cases "r_buffer_end (reqs s x) = 0") simp_all
qed

section \<open>The two loops owe it\<close>

text \<open>What a step on \<open>x\<close> comes to, \<open>bs\<close> being behind it in its queue.\<close>

definition goes_on :: "queue \<Rightarrow> nat \<Rightarrow> nat list \<Rightarrow> server \<Rightarrow> (queue \<Rightarrow> nat list) \<Rightarrow> server \<Rightarrow> bool" where
  "goes_on q x bs s L s' \<longleftrightarrow>
    (\<exists>L' as'. queues_ok s' L' \<and> L' q = as' @ bs \<and> members L' = members L \<and> spares {x} s L s' L')"

lemma spares_upd: "spares {x} (upd_req x f s) L s' L' \<Longrightarrow> spares {x} s L s' L'"
  by (simp add: spares_def upd_req_def)

lemma goes_on_upd: "goes_on q x bs (upd_req x f s) L s' \<Longrightarrow> goes_on q x bs s L s'"
  unfolding goes_on_def using spares_upd by blast

lemma remove_member:
  assumes "queues_ok s L" "L q = as @ x # bs"
  shows "remove1 x (L q) = as @ bs"
proof -
  have "x \<notin> set as" using rq.ok_distinct [OF assms(1), of q] assms(2) by auto
  then show ?thesis by (simp add: assms(2) remove1_append)
qed

lemma moves_on:
  assumes "queues_ok s L" "L q = as @ x # bs" "{q, q'} = {Q_ready, Q_block}" "reqs s' = reqs s"
    and "queues_ok s' (L (q := remove1 x (L q), q' := x # L q'))"
  shows "goes_on q x bs s L s'"
proof -
  define L' where "L' = L (q := remove1 x (L q), q' := x # L q')"
  have n: "q \<noteq> q'" "q' \<noteq> Q_free" "q \<noteq> Q_free" using assms(3) by (metis doubleton_eq_iff queue.distinct)+
  have r: "remove1 x (L q) = as @ bs" by (rule remove_member [OF assms(1,2)])
  have q: "L' q = as @ bs" using n r by (simp add: L'_def)
  have s: "set (L' p) = (if p = q then set as \<union> set bs else if p = q' then insert x (set (L p)) else set (L p))" for p
    using n r by (simp add: L'_def)
  have "members L' = members L"
  proof (rule set_eqI)
    fix y
    have "(\<exists>p. y \<in> set (L' p)) \<longleftrightarrow> (\<exists>p. y \<in> set (L p))"
      unfolding s using assms(2) n(1) by (metis (no_types, lifting) UnE UnI1 UnI2 insertE insertI1 insertI2 list.simps(15) set_append)
    then show "y \<in> members L' \<longleftrightarrow> y \<in> members L" by (simp add: members_iff)
  qed
  moreover have "spares {x} s L s' L'" using assms(2,4) by (auto simp: spares_def s)
  ultimately show ?thesis unfolding goes_on_def using assms(5) q L'_def by blast
qed

lemma block_goes_on:
  assumes "queues_ok s L" "L Q_ready = as @ x # bs"
  shows "goes_on Q_ready x bs s L (block_request x s)"
  using moves_on [OF assms, of Q_block "block_request x s"] block_ready_moves [OF assms(1), of x] assms(2) by simp

lemma ready_goes_on:
  assumes "queues_ok s L" "L Q_block = as @ x # bs"
  shows "goes_on Q_block x bs s L (ready_request x s)"
  using moves_on [OF assms, of Q_ready "ready_request x s"] block_ready_moves [OF assms(1), of x] assms(2)
  by (simp add: insert_commute)

lemma stays_on:
  "queues_ok s' L \<Longrightarrow> L q = as @ x # bs \<Longrightarrow> \<forall>y. y \<noteq> x \<longrightarrow> reqs s' y = reqs s y \<Longrightarrow> goes_on q x bs s L s'"
  unfolding goes_on_def by (intro exI [of _ L] exI [of _ "as @ [x]"]) (simp add: spares_def)

lemma free_goes_on:
  assumes "queues_ok s L" "L q = as @ x # bs" "q \<noteq> Q_free" "free_request env (Some q) x (s, g, acts) = Some st'"
  shows "goes_on q x bs s L (fst st')"
  unfolding goes_on_def using free_request_queues [OF assms(1-3)] assms(4) by (metis fst_conv prod_cases3)

lemma process_one_goes_on:
  assumes "queues_ok s L" "L Q_ready = as @ x # bs" "process_one reg envs reads x (s, g, acts) = Some st'"
  shows "goes_on Q_ready x bs s L (fst st')"
  using assms(3)
proof (cases rule: process_one_cases)
  case (blocks req g1)
  have "queues_ok (upd_req x (\<lambda>_. req) s) L" using assms(1) by simp
  then show ?thesis using goes_on_upd [OF block_goes_on [where L = L, OF _ assms(2)]] blocks by simp
next
  case (stays req g1)
  then show ?thesis using assms(1) by (intro stays_on [where L = L, OF _ assms(2)]) (simp_all add: upd_req_def)
next
  case (frees req g1)
  then obtain t where "free_request (envs x) (Some Q_ready) x (upd_req x (\<lambda>_. req) s, g1, acts) = Some t" "fst t = fst st'"
    by (auto simp: finish_request_def split: prod.splits)
  then show ?thesis
    using goes_on_upd [OF free_goes_on [where L = L, OF _ assms(2)]] assms(1) by (metis queue.distinct(3) queues_ok_upd)
qed

lemma fdset_one_goes_on:
  assumes "queues_ok s L" "L Q_block = as @ x # bs" "fdset_one env x (s, g, acts) = Some st'"
  shows "goes_on Q_block x bs s L (fst st')"
  using assms(3)
proof (cases rule: fdset_one_cases)
  case frees
  then show ?thesis
    using goes_on_upd [OF free_goes_on [where L = L, OF _ assms(2)]] assms(1) by (metis queue.distinct(5) queues_ok_upd)
next
  case wakes
  then show ?thesis using ready_goes_on [OF assms(1,2)] by simp
next
  case waits
  have "queues_ok (wait_again (reqs s x) s) L" "reqs (wait_again (reqs s x) s) = reqs s"
    using assms(1) by (simp_all add: wait_again_def split: rstatus.split)
  then show ?thesis using waits(2) assms(1) by (auto intro!: stays_on [where L = L, OF _ assms(2)])
qed

section \<open>Requests that never leave\<close>

text \<open>
  The requests \<open>Y\<close> are blocked with output to send since before the time \<open>T\<close>.  \<open>late\<close> says that the
  clock passed the time limit of all of them.
\<close>

definition stuck :: "nat set \<Rightarrow> int \<Rightarrow> server \<Rightarrow> (queue \<Rightarrow> nat list) \<Rightarrow> bool" where
  "stuck Y T s L \<longleftrightarrow>
    (\<forall>y \<in> Y. y \<in> set (L Q_block) \<and> r_buffer_end (reqs s y) \<noteq> 0 \<and> r_time_last (reqs s y) < T)"

definition late :: "nat set \<Rightarrow> int \<Rightarrow> env \<Rightarrow> bool" where
  "late Y T env \<longleftrightarrow> Y = {} \<or> T + REQUEST_TIMEOUT \<le> e_time_counter env"

lemma spares_stuck:
  assumes "spares X s L s' L'" "stuck Y T s L" "queues_ok s L" "X \<inter> Y = {}"
  shows "stuck Y T s' L'"
  unfolding stuck_def
proof
  fix y assume y: "y \<in> Y"
  then have b: "y \<in> set (L Q_block)" "r_buffer_end (reqs s y) \<noteq> 0" "r_time_last (reqs s y) < T"
    using assms(2) by (auto simp: stuck_def)
  have "y \<notin> set (L Q_free)" using rq.ok_disjoint [OF assms(3), of Q_block Q_free] b(1) by auto
  moreover have "y \<notin> X" using y assms(4) by auto
  ultimately have "reqs s' y = reqs s y" "y \<in> set (L' Q_block)" using assms(1) b(1) by (auto simp: spares_def)
  then show "y \<in> set (L' Q_block) \<and> r_buffer_end (reqs s' y) \<noteq> 0 \<and> r_time_last (reqs s' y) < T" using b by simp
qed

lemma goes_on_stuck:
  assumes "goes_on q x bs s L s'" "stuck Y T s L" "queues_ok s L" "x \<notin> Y"
  shows "\<exists>L' as'. queues_ok s' L' \<and> L' q = as' @ bs \<and> members L' = members L \<and> stuck Y T s' L'"
  using assms(1) spares_stuck [OF _ assms(2,3), of "{x}"] assms(4) unfolding goes_on_def by blast

text \<open>The step for a request with output that is out of time only stops the connection from being kept.\<close>

lemma fdset_one_stuck:
  assumes "stuck Y T s L" "late Y T env" "x \<in> Y" "fdset_one env x (s, g, acts) = Some st'"
  shows "st' = (upd_req x SQUASH_KA s, g, acts)"
  using assms(4)
proof (cases rule: fdset_one_cases)
  case frees
  have "r_buffer_end (reqs s x) \<noteq> 0" using assms(1,3) by (auto simp: stuck_def)
  then show ?thesis using frees(2) by (simp add: free_request_def upd_req_def SQUASH_KA_def)
next
  case wakes
  then show ?thesis using assms(1-3) by (fastforce simp: stuck_def late_def expired_def Let_def)
next
  case waits
  then show ?thesis using assms(1-3) by (fastforce simp: stuck_def late_def expired_def Let_def)
qed

interpretation rw: queue_walk "process_one reg envs reads" Q_ready "\<lambda>st. stuck Y T (fst st)"
proof
  fix st L as x bs st'
  assume h: "queues_ok (fst st) L" "L Q_ready = as @ x # bs" "stuck Y T (fst st) L" "process_one reg envs reads x st = Some st'"
  obtain s g acts where st: "st = (s, g, acts)" by (metis prod_cases3)
  have "x \<notin> Y" using rq.ok_disjoint [OF h(1), of Q_ready Q_block] h(2,3) by (auto simp: stuck_def)
  then show "\<exists>L' as'. queues_ok (fst st') L' \<and> L' Q_ready = as' @ bs \<and> members L' = members L \<and> stuck Y T (fst st') L'"
    using goes_on_stuck [OF process_one_goes_on [where L = L and bs = bs, OF _ h(2)]] h st by (metis fst_conv)
qed

interpretation bw: queue_walk "fdset_one env" Q_block "\<lambda>st L. stuck Y T (fst st) L \<and> late Y T env"
proof
  fix st L as x bs st'
  assume h: "queues_ok (fst st) L" "L Q_block = as @ x # bs" "stuck Y T (fst st) L \<and> late Y T env" "fdset_one env x st = Some st'"
  obtain s g acts where st: "st = (s, g, acts)" by (metis prod_cases3)
  show "\<exists>L' as'. queues_ok (fst st') L' \<and> L' Q_block = as' @ bs \<and> members L' = members L \<and>
      (stuck Y T (fst st') L' \<and> late Y T env)"
  proof (cases "x \<in> Y")
    case True
    then have "st' = (upd_req x SQUASH_KA s, g, acts)" using fdset_one_stuck [of Y T s L env x g acts st'] h(3,4) st by (metis fst_conv)
    moreover have "stuck Y T (upd_req x SQUASH_KA s) L" using h(3) st by (simp add: stuck_def upd_req_def SQUASH_KA_def)
    ultimately show ?thesis using h st by (intro exI [of _ L] exI [of _ "as @ [x]"]) simp
  next
    case False
    then show ?thesis
      using goes_on_stuck [OF fdset_one_goes_on [where L = L and bs = bs, OF _ h(2)]] h st by (metis fst_conv)
  qed
qed

lemma stuck_none [simp]: "stuck {} T s L" "late {} T env"
  by (simp_all add: stuck_def late_def)

lemma listen_fold [simp]:
  "queues_ok (fold (listen_one cfg sub mc) ws s) L \<longleftrightarrow> queues_ok s L"
  "reqs (fold (listen_one cfg sub mc) ws s) = reqs s"
  by (induction ws arbitrary: s) (simp_all add: listen_one_def split: prod.split)

text \<open>C3: Both loops end.  \<open>process_requests\<close> handles every request that was ready when it began, once and
  in the order of the list, and \<open>fdset_update\<close> every blocked one, although the steps relink the lists they
  walk along and accept or free requests on the way.\<close>

theorem loops_end:
  assumes "queues_ok s L"
  shows "process_requests reg envs reads (s, g, acts) = foldo (process_one reg envs reads) (L Q_ready) (s, g, acts) \<and>
    fdset_update env p_web_socket sub_port max_connections (s, g, acts) =
      map_option (\<lambda>(s, g, acts). (fold (listen_one (e_cfg env) sub_port max_connections) p_web_socket s, g, acts))
        (foldo (fdset_one env) (L Q_block) (s, g, acts))"
  using rw.walk_queue [of "(s, g, acts)" L "{}" 0 reg envs reads] bw.walk_queue [of "(s, g, acts)" L "{}" 0 env] assms
  by (simp add: process_requests_def fdset_update_def)

text \<open>At a server with the one ready request 7.\<close>

theorem loops_end_witness:
  "\<forall>reg envs reads g. process_requests reg envs reads (enqueue Q_ready 7 server_init, g, []) =
    foldo (process_one reg envs reads) [7] (enqueue Q_ready 7 server_init, g, [])"
  using loops_end [OF queues_ok_one [of Q_ready 7]] by simp

end
