(* ===== verification/Serve.thy ===== *)
theory Serve
  imports Loop
begin

text \<open>
  The main loop of the server (in \<open>main\<close> of \<open>src/src/boa.c\<close>), a round at a time: the blocked requests
  are looked after, then the ready ones are handled, or, if there are none, the server waits in \<open>select\<close>
  and accepts connections.  What \<open>select\<close>, \<open>accept\<close> and the reads answer in a round is the record
  \<open>round\<close>.  \<open>None\<close> is the end of the process: a crash, or \<open>die\<close>.
\<close>

section \<open>The main loop\<close>

datatype select_result = SELECTED "int set" "int set" | TIMED_OUT | INTERRUPTED | SELECT_FAILED

record round =
  rd_env :: env
  rd_envs :: "nat \<Rightarrow> env"
  rd_reads :: "nat \<Rightarrow> read_result list"
  rd_select :: select_result
  rd_accepts :: "int \<Rightarrow> accepted"

record service =
  p_web_socket :: "(int \<times> int) list"
  server_sub_port :: int
  max_connections :: int
  redir_server_s :: int

definition get_request :: "service \<Rightarrow> round \<Rightarrow> int \<Rightarrow> srv \<Rightarrow> srv option" where
  "get_request svc rd sock_fd st =
    map_option snd (get_sock_request (rd_env rd) (max_connections svc) (rd_accepts rd sock_fd) st)"

text \<open>Requests on the socket for redirected clients are marked.\<close>

definition get_access_redir_request :: "service \<Rightarrow> round \<Rightarrow> srv \<Rightarrow> srv option" where
  "get_access_redir_request svc rd st =
    map_option (\<lambda>(new_req, s, g, acts).
        (case new_req of None \<Rightarrow> s | Some c \<Rightarrow> upd_req c (\<lambda>r. r \<lparr> r_request_from := 3 \<rparr>) s, g, acts))
      (get_sock_request (rd_env rd) (max_connections svc) (rd_accepts rd (redir_server_s svc)) st)"

definition accept_one :: "service \<Rightarrow> round \<Rightarrow> int \<times> int \<Rightarrow> srv \<Rightarrow> srv option" where
  "accept_one svc rd p_entry st =
    (let (socket, port) = p_entry in
     if socket > 0 \<and> (port = server_port (e_cfg (rd_env rd)) \<or> port = server_sub_port svc) \<and>
        socket \<in> block_read_fdset (fst st)
     then get_request svc rd socket st
     else Some st)"

definition accept_all :: "service \<Rightarrow> round \<Rightarrow> srv \<Rightarrow> srv option" where
  "accept_all svc rd st =
    (case foldo (accept_one svc rd) (p_web_socket svc) st of
       None \<Rightarrow> None
     | Some st \<Rightarrow>
         if redir_server_s svc \<in> block_read_fdset (fst st) then get_access_redir_request svc rd st else Some st)"

text \<open>\<open>select\<close> leaves those of the descriptors that are ready.\<close>

definition set_fds :: "int set \<Rightarrow> int set \<Rightarrow> server \<Rightarrow> server" where
  "set_fds rs ws s = s \<lparr> block_read_fdset := rs, block_write_fdset := ws \<rparr>"

definition select_step :: "service \<Rightarrow> round \<Rightarrow> srv \<Rightarrow> srv option" where
  "select_step svc rd st =
    (let (s, g, acts) = st; s = s \<lparr> block_read_fdset := insert (redir_server_s svc) (block_read_fdset s) \<rparr> in
     case rd_select rd of
       SELECTED rs ws \<Rightarrow>
         accept_all svc rd (set_fds (block_read_fdset s \<inter> rs) (block_write_fdset s \<inter> ws) s, g, acts)
     | TIMED_OUT \<Rightarrow> Some (set_fds {} {} s, g, acts)
     | INTERRUPTED \<Rightarrow> Some (s, g, acts)
     | SELECT_FAILED \<Rightarrow> None)"

definition serve_round :: "registry \<Rightarrow> service \<Rightarrow> round \<Rightarrow> srv \<Rightarrow> srv option" where
  "serve_round reg svc rd st =
    (if lame_duck_mode (e_cfg (rd_env rd)) \<noteq> 0 \<and> q_head (fst st) Q_ready = None \<and> q_head (fst st) Q_block = None
     then None
     else case fdset_update (rd_env rd) (p_web_socket svc) (server_sub_port svc) (max_connections svc) st of
       None \<Rightarrow> None
     | Some st \<Rightarrow>
         if q_head (fst st) Q_ready \<noteq> None
         then map_option (\<lambda>(s, g, acts). (set_fds {} {} s, g, acts)) (process_requests reg (rd_envs rd) (rd_reads rd) st)
         else select_step svc rd st)"

definition serve :: "registry \<Rightarrow> service \<Rightarrow> round list \<Rightarrow> srv \<Rightarrow> srv option" where
  "serve reg svc rds st = foldo (serve_round reg svc) rds st"

section \<open>What every round keeps\<close>

text \<open>The queues are well formed and hold the same requests, and the ones that are stuck remain so.\<close>

definition keeps :: "nat set \<Rightarrow> int \<Rightarrow> nat set \<Rightarrow> server \<Rightarrow> bool" where
  "keeps Y T M s \<longleftrightarrow> (\<exists>L. queues_ok s L \<and> members L = M \<and> stuck Y T s L)"

lemma keepsI: "queues_ok s L \<Longrightarrow> stuck Y T s L \<Longrightarrow> keeps Y T (members L) s"
  by (auto simp: keeps_def)

lemma stuck_reqs: "reqs s' = reqs s \<Longrightarrow> stuck Y T s' L \<longleftrightarrow> stuck Y T s L"
  by (simp add: stuck_def)

lemma keeps_links:
  "q_head s' = q_head s \<Longrightarrow> q_next s' = q_next s \<Longrightarrow> q_prev s' = q_prev s \<Longrightarrow> reqs s' = reqs s \<Longrightarrow>
    keeps Y T M s \<Longrightarrow> keeps Y T M s'"
  unfolding keeps_def using queues_ok_cong [of s' s] stuck_reqs [of s' s] by metis

lemma keeps_set_fds [simp]: "keeps Y T M s \<Longrightarrow> keeps Y T M (set_fds rs ws s)"
  by (rule keeps_links) (simp_all add: set_fds_def)

lemma keeps_read_fds [simp]: "keeps Y T M s \<Longrightarrow> keeps Y T M (s \<lparr> block_read_fdset := rs \<rparr>)"
  by (rule keeps_links) simp_all

lemma fdset_update_keeps:
  assumes "keeps Y T M s" "late Y T env" "fdset_update env ws sub mc (s, g, acts) = Some (s', g', acts')"
  shows "keeps Y T M s'"
proof -
  obtain L where L: "queues_ok s L" "members L = M" "stuck Y T s L" using assms(1) by (auto simp: keeps_def)
  obtain t gt at where w: "walk (fdset_one env) (q_head s Q_block) (s, g, acts) = Some (t, gt, at)"
    and s': "s' = fold (listen_one (e_cfg env) sub mc) ws t"
    using assms(3) by (auto simp: fdset_update_def)
  obtain L' where "queues_ok t L'" "members L' = M" "stuck Y T t L'"
    using bw.walk_keeps [of "(s, g, acts)" L Y T env "(t, gt, at)"] L w assms(2) by auto
  then show ?thesis unfolding s' keeps_def by (intro exI [of _ L']) (simp add: stuck_def)
qed

lemma process_requests_keeps:
  assumes "keeps Y T M s" "process_requests reg envs reads (s, g, acts) = Some (s', g', acts')"
  shows "keeps Y T M s'"
proof -
  obtain L where L: "queues_ok s L" "members L = M" "stuck Y T s L" using assms(1) by (auto simp: keeps_def)
  then show ?thesis
    using rw.walk_keeps [of "(s, g, acts)" L Y T reg envs reads "(s', g', acts')"] assms(2)
    by (auto simp: process_requests_def keeps_def)
qed

text \<open>An accepted request is none of the stuck ones, for it was free.\<close>

lemma accept_keeps:
  assumes "keeps Y T M s" "get_sock_request env mc acc (s, g, acts) = Some (ret, s', g', acts')"
  shows "keeps Y T M s' \<and> (\<forall>c. ret = Some c \<longrightarrow> keeps Y T M (upd_req c (\<lambda>r. r \<lparr> r_request_from := v \<rparr>) s'))"
proof -
  obtain L where L: "queues_ok s L" "members L = M" "stuck Y T s L" using assms(1) by (auto simp: keeps_def)
  obtain L' where L': "queues_ok s' L'" "members L' = M" "spares {} s L s' L'"
    using get_sock_queues [OF L(1) assms(2)] L(2) by auto
  have "stuck Y T s' L'" using spares_stuck [OF L'(3) L(3,1)] by simp
  then show ?thesis
    using L'(1,2) by (auto simp: keeps_def stuck_def upd_req_def intro!: exI [of _ L'])
qed

lemma get_request_keeps:
  "keeps Y T M (fst st) \<Longrightarrow> get_request svc rd fd st = Some st' \<Longrightarrow> keeps Y T M (fst st')"
  by (cases st; cases st') (auto simp: get_request_def dest: accept_keeps)

lemma get_redir_keeps:
  "keeps Y T M (fst st) \<Longrightarrow> get_access_redir_request svc rd st = Some st' \<Longrightarrow> keeps Y T M (fst st')"
  by (cases st; cases st') (auto simp: get_access_redir_request_def split: option.splits dest: accept_keeps)

lemma accept_one_keeps:
  "keeps Y T M (fst st) \<Longrightarrow> accept_one svc rd p st = Some st' \<Longrightarrow> keeps Y T M (fst st')"
  by (auto simp: accept_one_def dest: get_request_keeps split: prod.splits if_splits)

lemma foldo_keeps:
  assumes "\<And>x st st'. x \<in> set xs \<Longrightarrow> P st \<Longrightarrow> step x st = Some st' \<Longrightarrow> P st'" "P st" "foldo step xs st = Some st'"
  shows "P st'"
  using assms by (induction xs arbitrary: st) (auto split: option.splits)

lemma accept_all_keeps:
  assumes "keeps Y T M (fst st)" "accept_all svc rd st = Some st'"
  shows "keeps Y T M (fst st')"
proof -
  obtain t where t: "foldo (accept_one svc rd) (p_web_socket svc) st = Some t"
    using assms(2) by (auto simp: accept_all_def split: option.splits)
  have "keeps Y T M (fst t)"
    by (rule foldo_keeps [where P = "\<lambda>st. keeps Y T M (fst st)", OF _ assms(1) t]) (rule accept_one_keeps)
  then show ?thesis
    using assms(2) t get_redir_keeps [of Y T M t svc rd st'] by (auto simp: accept_all_def split: if_splits)
qed

lemma select_step_keeps:
  assumes "keeps Y T M (fst st)" "select_step svc rd st = Some st'"
  shows "keeps Y T M (fst st')"
proof -
  obtain s g acts where st: "st = (s, g, acts)" by (metis prod_cases3)
  define s1 where "s1 = s \<lparr> block_read_fdset := insert (redir_server_s svc) (block_read_fdset s) \<rparr>"
  have s1: "keeps Y T M s1" using assms(1) st by (simp add: s1_def)
  have e: "select_step svc rd st =
      (case rd_select rd of
         SELECTED rs ws \<Rightarrow>
           accept_all svc rd (set_fds (block_read_fdset s1 \<inter> rs) (block_write_fdset s1 \<inter> ws) s1, g, acts)
       | TIMED_OUT \<Rightarrow> Some (set_fds {} {} s1, g, acts)
       | INTERRUPTED \<Rightarrow> Some (s1, g, acts)
       | SELECT_FAILED \<Rightarrow> None)"
    unfolding select_step_def st Let_def prod.case s1_def by (rule refl)
  show ?thesis
  proof (cases "rd_select rd")
    case (SELECTED rs ws)
    define t where "t = (set_fds (block_read_fdset s1 \<inter> rs) (block_write_fdset s1 \<inter> ws) s1, g, acts)"
    have "accept_all svc rd t = Some st'" using assms(2) e SELECTED by (simp add: t_def)
    moreover have "keeps Y T M (fst t)" using s1 by (simp add: t_def)
    ultimately show ?thesis by (rule accept_all_keeps [rotated])
  next
    case TIMED_OUT
    then have "st' = (set_fds {} {} s1, g, acts)" using assms(2) e by simp
    then show ?thesis using s1 by simp
  next
    case INTERRUPTED
    then show ?thesis using assms(2) e s1 by auto
  next
    case SELECT_FAILED
    then show ?thesis using assms(2) e by simp
  qed
qed

lemma serve_round_keeps:
  assumes "late Y T (rd_env rd)" "keeps Y T M (fst st)" "serve_round reg svc rd st = Some st'"
  shows "keeps Y T M (fst st')"
proof -
  obtain s g acts where st: "st = (s, g, acts)" by (metis prod_cases3)
  obtain t where t: "fdset_update (rd_env rd) (p_web_socket svc) (server_sub_port svc) (max_connections svc) st = Some t"
    using assms(3) by (auto simp: serve_round_def split: option.splits if_splits)
  obtain s1 g1 acts1 where t1: "t = (s1, g1, acts1)" by (metis prod_cases3)
  have k: "keeps Y T M s1" using fdset_update_keeps assms(1,2) t unfolding st t1 fst_conv by blast
  show ?thesis
  proof (cases "q_head s1 Q_ready")
    case None
    then have "select_step svc rd t = Some st'" using assms(3) t t1 by (auto simp: serve_round_def split: if_splits)
    then show ?thesis using select_step_keeps [of Y T M t svc rd st'] k t1 by simp
  next
    case (Some x)
    then obtain s2 g2 acts2 where "process_requests reg (rd_envs rd) (rd_reads rd) (s1, g1, acts1) = Some (s2, g2, acts2)"
      "st' = (set_fds {} {} s2, g2, acts2)"
      using assms(3) t t1 by (auto simp: serve_round_def split: if_splits)
    then show ?thesis using process_requests_keeps [OF k] by simp
  qed
qed

lemma serve_keeps:
  assumes "\<And>rd. rd \<in> set rds \<Longrightarrow> late Y T (rd_env rd)" "keeps Y T M (fst st)" "serve reg svc rds st = Some st'"
  shows "keeps Y T M (fst st')"
  using foldo_keeps [where P = "\<lambda>st. keeps Y T M (fst st)", OF _ assms(2) assms(3) [unfolded serve_def]]
    serve_round_keeps assms(1) by blast

section \<open>The pool of requests\<close>

definition sample_service :: service where
  "sample_service = \<lparr> p_web_socket = [(5, 80)], server_sub_port = 8080, max_connections = 10, redir_server_s = 6 \<rparr>"

definition sample_round :: "select_result \<Rightarrow> round" where
  "sample_round sel = \<lparr> rd_env = sample_env, rd_envs = \<lambda>_. sample_env, rd_reads = \<lambda>_. [], rd_select = sel,
     rd_accepts = \<lambda>_. \<lparr> a_conn = Some (9, ''10.0.0.1'', 4000), a_sockname = None \<rparr> \<rparr>"

lemma boot_keeps: "distinct xs \<Longrightarrow> keeps {} 0 (set xs) (init_free_requests xs server_init)"
  using init_free_queues [OF queues_ok_init, of xs]
  by (auto simp: keeps_def members_def intro!: exI [of _ "(\<lambda>_. []) (Q_free := rev xs)"])

text \<open>C1: Whatever clients send and the network answers, the requests allocated at the start are never
  lost, duplicated or linked into two lists: after any number of rounds of the main loop the three lists
  are well formed doubly linked lists and hold exactly these requests.\<close>

theorem serve_pool:
  assumes "distinct xs" "serve reg svc rds (init_free_requests xs server_init, g, []) = Some (s', g', acts)"
  shows "\<exists>L. queues_ok s' L \<and> members L = set xs"
  using serve_keeps [of rds "{}" 0 "set xs" "(init_free_requests xs server_init, g, [])" reg svc "(s', g', acts)"]
    boot_keeps [OF assms(1)] assms(2) by (auto simp: keeps_def)

text \<open>A server with two requests accepts a connection on its socket 5.\<close>

lemma sample_accepts:
  "\<exists>s' g' acts. serve reg sample_service [sample_round (SELECTED {5} {})] (init_free_requests [1, 2] server_init, globals_init, []) =
     Some (s', g', acts) \<and> q_head s' Q_block = Some 2"
  by (simp add: serve_def serve_round_def sample_round_def sample_service_def sample_env_def sample_config_def
      server_init_def enqueue_def dequeue_def fdset_update_def walk.simps listen_one_def select_step_def
      set_fds_def accept_all_def accept_one_def get_request_def get_sock_request_def new_request_def Let_def upd_req_def
      accepted_request_def globals_init_def tables_init_def)

theorem serve_pool_witness:
  "\<exists>s' g' acts L. serve sample_registry sample_service [sample_round (SELECTED {5} {})]
       (init_free_requests [1, 2] server_init, globals_init, []) = Some (s', g', acts) \<and>
     queues_ok s' L \<and> members L = {1, 2}"
proof -
  obtain s' g' acts where r: "serve sample_registry sample_service [sample_round (SELECTED {5} {})]
      (init_free_requests [1, 2] server_init, globals_init, []) = Some (s', g', acts)"
    using sample_accepts by blast
  show ?thesis using serve_pool [OF _ r] r by fastforce
qed

section \<open>Requests that are never freed\<close>

text \<open>C4: A blocked request that still has output to send is never freed once its time is over: the time
  out calls \<open>free_request\<close>, which returns at once because of the output, and it does so in every later
  round, before the loop would look whether the client reads again.  The request stays blocked with its
  output whatever happens, and when all requests of the server are in this state no connection is
  accepted any more.\<close>

theorem stuck_forever:
  assumes "queues_ok s L" "stuck Y T s L" "\<forall>rd \<in> set rds. T + REQUEST_TIMEOUT \<le> e_time_counter (rd_env rd)"
    and "serve reg svc rds (s, g, acts) = Some (s', g', acts')"
  shows "\<exists>L'. queues_ok s' L' \<and> members L' = members L \<and>
      (\<forall>y \<in> Y. y \<in> set (L' Q_block) \<and> r_buffer_end (reqs s' y) \<noteq> 0) \<and>
      (Y = members L \<longrightarrow> new_request s' = (None, s'))"
proof -
  have "keeps Y T (members L) s'"
    using serve_keeps [of rds Y T "members L" "(s, g, acts)" reg svc "(s', g', acts')"]
      keepsI [OF assms(1,2)] assms(3,4) by (simp add: late_def)
  then obtain L' where L': "queues_ok s' L'" "members L' = members L" "stuck Y T s' L'" by (auto simp: keeps_def)
  have "new_request s' = (None, s')" if "Y = members L"
  proof -
    have "set (L' Q_free) \<subseteq> set (L' Q_block)" using that L'(2,3) by (auto simp: stuck_def members_def)
    then have "L' Q_free = []" using rq.ok_disjoint [OF L'(1), of Q_free Q_block] by (simp add: inf.absorb1)
    then show ?thesis using links_head [OF L'(1), of Q_free] by (simp add: new_request_def)
  qed
  then show ?thesis using L' by (auto simp: stuck_def)
qed

text \<open>At a server whose one request is blocked with a byte to send since time 0, at time 100.\<close>

definition sample_stalled :: server where
  "sample_stalled = enqueue Q_block 7 (upd_req 7 (\<lambda>r. r \<lparr> r_buffer_end := 1 \<rparr>) server_init)"

lemma sample_stalled_ok:
  "queues_ok sample_stalled ((\<lambda>_. []) (Q_block := [7]))" "stuck {7} 1 sample_stalled ((\<lambda>_. []) (Q_block := [7]))"
proof -
  have "queues_ok (upd_req 7 (\<lambda>r. r \<lparr> r_buffer_end := 1 \<rparr>) server_init) (\<lambda>_. [])" by simp
  then have "queues_ok sample_stalled ((\<lambda>_. []) (Q_block := 7 # (\<lambda>_. []) Q_block))"
    unfolding sample_stalled_def by (rule rq.enq_ok) simp
  then show "queues_ok sample_stalled ((\<lambda>_. []) (Q_block := [7]))" by (simp only:)
  show "stuck {7} 1 sample_stalled ((\<lambda>_. []) (Q_block := [7]))"
    by (simp add: sample_stalled_def stuck_def upd_req_def server_init_def blank_request_def)
qed

theorem stuck_forever_witness:
  "\<exists>s' g' acts L'. serve sample_registry sample_service [sample_round TIMED_OUT, sample_round TIMED_OUT]
       (sample_stalled, globals_init, []) = Some (s', g', acts) \<and>
     queues_ok s' L' \<and> new_request s' = (None, s') \<and> 7 \<in> set (L' Q_block)"
proof -
  obtain s' g' acts where r: "serve sample_registry sample_service [sample_round TIMED_OUT, sample_round TIMED_OUT]
      (sample_stalled, globals_init, []) = Some (s', g', acts)"
    by (simp add: serve_def serve_round_def sample_round_def sample_service_def sample_env_def sample_config_def
        sample_stalled_def server_init_def enqueue_def fdset_update_def walk.simps listen_one_def select_step_def
        set_fds_def fdset_one_def expired_def free_request_def SQUASH_KA_def REQUEST_TIMEOUT_def Let_def upd_req_def blank_request_def)
  have "\<forall>rd \<in> set [sample_round TIMED_OUT, sample_round TIMED_OUT]. 1 + REQUEST_TIMEOUT \<le> e_time_counter (rd_env rd)"
    by (simp add: sample_round_def sample_env_def REQUEST_TIMEOUT_def)
  from stuck_forever [OF sample_stalled_ok this r] show ?thesis
    using r by (auto simp: members_def)
qed

lemma queue_counts [simp]:
  "st_connections (dequeue q x s) = st_connections s" "st_connections (enqueue q x s) = st_connections s"
  by (simp_all add: dequeue_def enqueue_def Let_def split: option.split)

text \<open>C39: When \<open>accept\<close> fails, the clean-up takes the fresh request for a finished one: it closes
  descriptor 0, which the request never owned, and counts a connection as closed that was never counted as
  open, so that the limit on connections rises with every failure.\<close>

theorem accept_failure:
  assumes "limit = -1 \<or> st_connections s < limit" "q_head s Q_free = Some c" "a_conn acc = None"
  shows "\<exists>s' g'. get_sock_request env limit acc (s, g, acts) = Some (None, s', g', acts @ [A_close 0]) \<and>
    st_connections s' = st_connections s - 1"
  using assms
  by (auto simp: get_sock_request_def new_request_def free_request_def hand_on_def may_keep_def close_connection_def
      drop_post_file_def reset_request_def zero_request_def clear_wait_def upd_req_def Let_def)

theorem accept_failure_witness:
  "\<exists>s' g'. get_sock_request sample_env 10 \<lparr> a_conn = None, a_sockname = None \<rparr>
      (init_free_requests [1] server_init, globals_init, []) = Some (None, s', g', [A_close 0]) \<and> st_connections s' = -1"
  using accept_failure [of 10 "init_free_requests [1] server_init" 1 "\<lparr> a_conn = None, a_sockname = None \<rparr>"
      sample_env globals_init "[]"] by (simp add: server_init_def enqueue_def Let_def)

end
