(* ===== verification/Chain.thy ===== *)
theory Chain
  imports Prelude
begin

text \<open>
  The chains of the configuration database (\<open>src/src/LINUX/mib.c\<close>): for every id of the table
  \<open>mib_chain_record_table\<close> a list of records of one length, held in memory as a linked list that nothing
  else points into, so here a list of byte strings.  \<open>malloc\<close> does not fail.  A configuration is saved as
  the records of every chain behind a header with the id and the number of bytes; the machine's byte order
  is the parameter \<open>big\<close>.  \<open>None\<close> stands for an access outside the buffer.
\<close>

section \<open>Integers in memory\<close>

definition bytes_of :: "bool \<Rightarrow> nat \<Rightarrow> nat \<Rightarrow> bytes" where
  "bytes_of big n v = (let b = map (\<lambda>i. chr_of (v div 256 ^ i mod 256)) [0..<n] in if big then rev b else b)"

fun nat_le :: "bytes \<Rightarrow> nat" where
  "nat_le [] = 0"
| "nat_le (c # cs) = uchar c + 256 * nat_le cs"

definition nat_of :: "bool \<Rightarrow> bytes \<Rightarrow> nat" where
  "nat_of big b = nat_le (if big then rev b else b)"

lemma length_bytes_of [simp]: "length (bytes_of big n v) = n"
  by (simp add: bytes_of_def Let_def)

lemma nat_le_less: "nat_le b < 256 ^ length b"
proof (induction b)
  case (Cons c b)
  have "uchar c < 256" by (rule uchar_less)
  then have "uchar c + 256 * nat_le b < 256 * (nat_le b + 1)" by simp
  also have "\<dots> \<le> 256 * 256 ^ length b" using Cons.IH by (intro mult_le_mono) auto
  finally show ?case by simp
qed simp

lemma map_upt_shift: "map f [0..<Suc n] = f 0 # map (\<lambda>i. f (Suc i)) [0..<n]"
  by (simp add: map_upt_Suc del: upt_Suc)

lemma nat_le_bytes: "nat_le (map (\<lambda>i. chr_of (v div 256 ^ i mod 256)) [0..<n]) = v mod 256 ^ n"
proof (induction n arbitrary: v)
  case (Suc n)
  have "nat_le (map (\<lambda>i. chr_of (v div 256 ^ i mod 256)) [0..<Suc n]) =
      v mod 256 + 256 * nat_le (map (\<lambda>i. chr_of (v div 256 div 256 ^ i mod 256)) [0..<n])"
    by (simp add: map_upt_shift div_mult2_eq del: upt_Suc)
  also have "\<dots> = v mod 256 + 256 * (v div 256 mod 256 ^ n)" by (simp add: Suc)
  also have "\<dots> = v mod 256 ^ Suc n" by (simp add: mod_mult2_eq)
  finally show ?case .
qed simp

lemma bytes_nat_le: "map (\<lambda>i. chr_of (nat_le b div 256 ^ i mod 256)) [0..<length b] = b"
proof (induction b)
  case (Cons c b)
  have c: "uchar c < 256" by (rule uchar_less)
  then have "(uchar c + 256 * nat_le b) mod 256 = uchar c" "(uchar c + 256 * nat_le b) div 256 = nat_le b"
    by simp_all
  then show ?case using Cons by (simp add: map_upt_shift div_mult2_eq del: upt_Suc)
qed simp

lemma nat_of_bytes_of [simp]: "v < 256 ^ n \<Longrightarrow> nat_of big (bytes_of big n v) = v"
  by (simp add: nat_of_def bytes_of_def Let_def nat_le_bytes)

lemma bytes_of_nat_of [simp]: "length b = n \<Longrightarrow> bytes_of big n (nat_of big b) = b"
  using bytes_nat_le [of b] bytes_nat_le [of "rev b"] by (auto simp: nat_of_def bytes_of_def Let_def)

lemma nat_of_less: "length b = n \<Longrightarrow> nat_of big b < 256 ^ n"
  using nat_le_less [of b] nat_le_less [of "rev b"] by (auto simp: nat_of_def)

section \<open>The table\<close>

datatype config_data = UNKNOWN_SETTING | RUNNING_SETTING | HW_SETTING | DEFAULT_SETTING | CURRENT_SETTING

text \<open>One entry of \<open>mib_chain_record_table\<close>; the table ends with an entry of id 0.\<close>

record chain_entry =
  ct_id :: nat
  ct_type :: config_data
  ct_size :: nat
  ct_chain :: "bytes list"
  ct_default :: "bytes option"

type_synonym chains = "chain_entry list"

fun chain_index :: "chains \<Rightarrow> nat \<Rightarrow> nat option" where
  "chain_index [] i = None"
| "chain_index (e # tbl) i =
    (if ct_id e = i then Some 0 else if ct_id e = 0 then None else map_option Suc (chain_index tbl i))"

definition chain_total :: "chains \<Rightarrow> nat \<Rightarrow> nat" where
  "chain_total tbl i = (case chain_index tbl i of None \<Rightarrow> 0 | Some k \<Rightarrow> length (ct_chain (tbl ! k)))"

definition set_chain :: "chains \<Rightarrow> nat \<Rightarrow> bytes list \<Rightarrow> chains" where
  "set_chain tbl k rs = tbl [k := (tbl ! k) \<lparr> ct_chain := rs \<rparr>]"

definition chain_clear :: "chains \<Rightarrow> nat \<Rightarrow> chains" where
  "chain_clear tbl i = (case chain_index tbl i of None \<Rightarrow> tbl | Some k \<Rightarrow> set_chain tbl k [])"

definition chain_add :: "chains \<Rightarrow> nat \<Rightarrow> bytes \<Rightarrow> (int \<times> chains) option" where
  "chain_add tbl i ptr =
    (case chain_index tbl i of
       None \<Rightarrow> Some (0, tbl)
     | Some k \<Rightarrow>
         if length ptr < ct_size (tbl ! k) then None
         else Some (1, set_chain tbl k (ct_chain (tbl ! k) @ [take (ct_size (tbl ! k)) ptr])))"

definition chain_delete :: "chains \<Rightarrow> nat \<Rightarrow> nat \<Rightarrow> int \<times> chains" where
  "chain_delete tbl i recordNum =
    (case chain_index tbl i of
       None \<Rightarrow> (0, tbl)
     | Some k \<Rightarrow>
         if recordNum \<ge> chain_total tbl i then (0, tbl)
         else let rs = ct_chain (tbl ! k) in (1, set_chain tbl k (take recordNum rs @ drop (Suc recordNum) rs)))"

definition chain_get :: "chains \<Rightarrow> nat \<Rightarrow> nat \<Rightarrow> bytes option" where
  "chain_get tbl i recordNum =
    (case chain_index tbl i of
       None \<Rightarrow> None
     | Some k \<Rightarrow> if recordNum \<ge> chain_total tbl i then None else Some (ct_chain (tbl ! k) ! recordNum))"

text \<open>The entries in front of the last one, over which all loops run.\<close>

definition active :: "chains \<Rightarrow> chains" where
  "active tbl = takeWhile (\<lambda>e. ct_id e \<noteq> 0) tbl"

text \<open>\<open>sizeof (MIB_CHAIN_RECORD_HDR_T)\<close>\<close>

abbreviation HDR :: nat where "HDR \<equiv> 6"

definition all_table_size :: "chains \<Rightarrow> config_data \<Rightarrow> nat" where
  "all_table_size tbl ty =
    foldl (\<lambda>n e. if ct_type e = ty \<and> chain_total tbl (ct_id e) > 0
                 then (n + chain_total tbl (ct_id e) * ct_size e + HDR) mod 2 ^ 32 else n) 0 (active tbl)"

definition all_table_clear :: "chains \<Rightarrow> config_data \<Rightarrow> chains" where
  "all_table_clear tbl ty = fold (\<lambda>e t. if ct_type e = ty then chain_clear t (ct_id e) else t) (active tbl) tbl"

text \<open>The record of the program's defaults: the rest of the array from there on.\<close>

definition chain_getDef :: "chains \<Rightarrow> nat \<Rightarrow> nat \<Rightarrow> bytes option" where
  "chain_getDef tbl i recordNum =
    (case chain_index tbl i of
       None \<Rightarrow> None
     | Some k \<Rightarrow>
         (case ct_default (tbl ! k) of
            None \<Rightarrow> None
          | Some d \<Rightarrow> if recordNum \<ge> length d div ct_size (tbl ! k) then None
                      else Some (drop (recordNum * ct_size (tbl ! k)) d)))"

section \<open>Saved chains\<close>

definition hdr_bytes :: "bool \<Rightarrow> nat \<Rightarrow> nat \<Rightarrow> bytes" where
  "hdr_bytes big i n = bytes_of big 2 i @ bytes_of big 4 n"

text \<open>The sum of index and length is an unsigned 32 bit number; the count of records is an \<open>int\<close>.\<close>

definition record_count :: "nat \<Rightarrow> nat \<Rightarrow> nat" where
  "record_count n sz = (if n div sz < 2 ^ 31 then n div sz else 0)"

fun add_records :: "chains \<Rightarrow> nat \<Rightarrow> bytes \<Rightarrow> nat \<Rightarrow> nat \<Rightarrow> nat \<Rightarrow> chains option" where
  "add_records tbl i ptr idx sz 0 = Some tbl"
| "add_records tbl i ptr idx sz (Suc n) =
    (case chain_add tbl i (drop idx ptr) of
       None \<Rightarrow> None
     | Some (ret, tbl) \<Rightarrow> add_records tbl i ptr (idx + sz) sz n)"

function chain_decod :: "bool \<Rightarrow> chains \<Rightarrow> bytes \<Rightarrow> nat \<Rightarrow> nat \<Rightarrow> (int \<times> chains) option" where
  "chain_decod big tbl ptr len idx =
    (if idx \<ge> len then Some (1, tbl)
     else if idx + HDR > length ptr then None
     else
       let i = nat_of big (bslice idx (idx + 2) ptr); n = nat_of big (bslice (idx + 2) (idx + HDR) ptr); idx = idx + HDR in
       case find (\<lambda>e. ct_id e = i) (active tbl) of
         None \<Rightarrow> Some (0, tbl)
       | Some e \<Rightarrow>
           if (idx + n) mod 2 ^ 32 > len then Some (0, tbl)
           else if n mod ct_size e \<noteq> 0 then Some (0, tbl)
           else case add_records tbl i ptr idx (ct_size e) (record_count n (ct_size e)) of
             None \<Rightarrow> None
           | Some tbl \<Rightarrow> chain_decod big tbl ptr len (idx + record_count n (ct_size e) * ct_size e))"
  by pat_completeness auto
termination
  by (relation "measure (\<lambda>(big, tbl, ptr, len, idx). len - idx)") auto

declare chain_decod.simps [simp del]

fun encod_loop :: "bool \<Rightarrow> chains \<Rightarrow> config_data \<Rightarrow> nat \<Rightarrow> chains \<Rightarrow> bytes \<Rightarrow> bytes option" where
  "encod_loop big tbl ty len [] out = (if len \<noteq> length out then None else Some out)"
| "encod_loop big tbl ty len (e # es) out =
    (let n = chain_total tbl (ct_id e) in
     if ct_type e = ty \<and> n > 0 then
       (if (n * ct_size e + HDR + length out) mod 2 ^ 32 > len then None
        else if length (ct_chain e) \<noteq> n then None
        else encod_loop big tbl ty len es
               (out @ hdr_bytes big (ct_id e) (n * ct_size e mod 2 ^ 32) @ concat (map (take (ct_size e)) (ct_chain e))))
     else encod_loop big tbl ty len es out)"

definition chain_encod :: "bool \<Rightarrow> chains \<Rightarrow> config_data \<Rightarrow> nat \<Rightarrow> bytes option" where
  "chain_encod big tbl ty len = encod_loop big tbl ty len (active tbl) []"

text \<open>Where a record stands in saved chains.\<close>

function chain_backup_record :: "bool \<Rightarrow> chains \<Rightarrow> nat \<Rightarrow> nat \<Rightarrow> bytes \<Rightarrow> nat \<Rightarrow> nat \<Rightarrow> nat option option" where
  "chain_backup_record big tbl want recordNum ptr len idx =
    (if idx \<ge> len then Some None
     else if idx + HDR > length ptr then None
     else
       let i = nat_of big (bslice idx (idx + 2) ptr); n = nat_of big (bslice (idx + 2) (idx + HDR) ptr); idx = idx + HDR in
       case find (\<lambda>e. ct_id e = i) (active tbl) of
         None \<Rightarrow> Some None
       | Some e \<Rightarrow>
           if (idx + n) mod 2 ^ 32 > len then Some None
           else if n mod ct_size e \<noteq> 0 then Some None
           else if i \<noteq> want then chain_backup_record big tbl want recordNum ptr len (idx + n)
           else Some (Some (idx + ct_size e * recordNum)))"
  by pat_completeness auto
termination
  by (relation "measure (\<lambda>(big, tbl, want, recordNum, ptr, len, idx). len - idx)") auto

declare chain_backup_record.simps [simp del]

section \<open>Well formed tables\<close>

definition entry_ok :: "chain_entry \<Rightarrow> bool" where
  "entry_ok e \<longleftrightarrow> 0 < ct_id e \<and> ct_id e < 2 ^ 16 \<and> 0 < ct_size e \<and> (\<forall>r \<in> set (ct_chain e). length r = ct_size e)"

definition chains_ok :: "chains \<Rightarrow> chain_entry \<Rightarrow> bool" where
  "chains_ok es s \<longleftrightarrow> ct_id s = 0 \<and> distinct (map ct_id es) \<and> (\<forall>e \<in> set es. entry_ok e)"

lemma chain_index_split:
  assumes "i \<notin> ct_id ` set xs" "0 \<notin> ct_id ` set xs" "ct_id e = i"
  shows "chain_index (xs @ e # ys) i = Some (length xs)"
  using assms by (induction xs) auto

lemma active_table: "\<forall>e \<in> set es. 0 < ct_id e \<Longrightarrow> ct_id s = 0 \<Longrightarrow> active (es @ [s]) = es"
  by (simp add: active_def takeWhile_append)

lemma find_split:
  "ct_id e = i \<Longrightarrow> i \<notin> ct_id ` set xs \<Longrightarrow> find (\<lambda>e. ct_id e = i) (xs @ e # ys) = Some e"
  by (induction xs) auto

lemma set_chain_split [simp]:
  "set_chain (xs @ e # ys) (length xs) rs = xs @ e \<lparr> ct_chain := rs \<rparr> # ys"
  by (simp add: set_chain_def)

text \<open>The operations on the chain of an entry in its table.\<close>

lemma chain_ops:
  assumes "ct_id e \<notin> ct_id ` set xs" "0 \<notin> ct_id ` set xs"
  shows "chain_total (xs @ e # ys) (ct_id e) = length (ct_chain e)"
    and "chain_clear (xs @ e # ys) (ct_id e) = xs @ e \<lparr> ct_chain := [] \<rparr> # ys"
    and "chain_add (xs @ e # ys) (ct_id e) ptr =
      (if length ptr < ct_size e then None else Some (1, xs @ e \<lparr> ct_chain := ct_chain e @ [take (ct_size e) ptr] \<rparr> # ys))"
  using chain_index_split [OF assms(1,2) refl, of ys]
  by (simp_all add: chain_total_def chain_clear_def chain_add_def)

text \<open>What an entry takes in a saved configuration of the kind \<open>ty\<close>.\<close>

definition saved_entry :: "bool \<Rightarrow> config_data \<Rightarrow> chain_entry \<Rightarrow> bytes" where
  "saved_entry big ty e =
    (if ct_type e = ty \<and> ct_chain e \<noteq> []
     then hdr_bytes big (ct_id e) (length (ct_chain e) * ct_size e) @ concat (ct_chain e) else [])"

definition saved :: "bool \<Rightarrow> config_data \<Rightarrow> chains \<Rightarrow> bytes" where
  "saved big ty es = concat (map (saved_entry big ty) es)"

definition cleared :: "config_data \<Rightarrow> chain_entry \<Rightarrow> chain_entry" where
  "cleared ty e = (if ct_type e = ty then e \<lparr> ct_chain := [] \<rparr> else e)"

lemma length_concat_records: "\<forall>r \<in> set rs. length r = n \<Longrightarrow> length (concat rs) = length rs * n"
  by (induction rs) auto

lemma length_hdr_bytes [simp]: "length (hdr_bytes big i n) = HDR"
  by (simp add: hdr_bytes_def)

lemma length_saved_entry:
  "entry_ok e \<Longrightarrow> length (saved_entry big ty e) =
     (if ct_type e = ty \<and> ct_chain e \<noteq> [] then length (ct_chain e) * ct_size e + HDR else 0)"
  using length_concat_records [of "ct_chain e" "ct_size e"] by (simp add: saved_entry_def entry_ok_def)

lemma split_ids:
  assumes "chains_ok es s" "es = xs @ e # ys"
  shows "ct_id e \<notin> ct_id ` set xs" "0 \<notin> ct_id ` set xs"
proof -
  show "ct_id e \<notin> ct_id ` set xs" using assms by (auto simp: chains_ok_def)
  have "\<forall>e \<in> set xs. 0 < ct_id e" using assms by (auto simp: chains_ok_def entry_ok_def)
  then show "0 \<notin> ct_id ` set xs" by force
qed

lemma active_es: "chains_ok es s \<Longrightarrow> active (es @ [s]) = es"
  by (rule active_table) (auto simp: chains_ok_def entry_ok_def)

lemma total_es: "chains_ok es s \<Longrightarrow> e \<in> set es \<Longrightarrow> chain_total (es @ [s]) (ct_id e) = length (ct_chain e)"
  using split_ids chain_ops(1) [of e] by (metis append_Cons append_assoc in_set_conv_decomp)

lemma size_es:
  assumes ok: "chains_ok es s" and "length (saved big ty es) < 2 ^ 32"
  shows "all_table_size (es @ [s]) ty = length (saved big ty es)"
proof -
  have "foldl (\<lambda>n e. if ct_type e = ty \<and> chain_total (es @ [s]) (ct_id e) > 0
                 then (n + chain_total (es @ [s]) (ct_id e) * ct_size e + HDR) mod 2 ^ 32 else n) k fs =
      k + length (saved big ty fs)"
    if "set fs \<subseteq> set es" "k + length (saved big ty fs) < 2 ^ 32" for fs k
    using that
  proof (induction fs arbitrary: k)
    case (Cons e fs)
    have l: "length (saved big ty (e # fs)) = length (saved_entry big ty e) + length (saved big ty fs)"
      by (simp add: saved_def)
    have e: "entry_ok e" "chain_total (es @ [s]) (ct_id e) = length (ct_chain e)"
      using Cons.prems(1) ok total_es [OF ok] by (auto simp: chains_ok_def)
    then show ?case
      using Cons.IH [of "k + length (saved_entry big ty e)"] Cons.prems l length_saved_entry [OF e(1), of big ty]
      by (auto simp: add.assoc)
  qed (simp add: saved_def)
  from this [of es 0] show ?thesis using assms(2) by (simp add: all_table_size_def active_es [OF ok])
qed

lemma encod_es:
  assumes ok: "chains_ok es s" and "length (saved big ty es) < 2 ^ 32"
  shows "chain_encod big (es @ [s]) ty (length (saved big ty es)) = Some (saved big ty es)"
proof -
  have "encod_loop big (es @ [s]) ty len fs out = Some (out @ saved big ty fs)"
    if "set fs \<subseteq> set es" "length out + length (saved big ty fs) = len" "len < 2 ^ 32" for fs out len
    using that
  proof (induction fs arbitrary: out)
    case (Cons e fs)
    have l: "saved big ty (e # fs) = saved_entry big ty e @ saved big ty fs" by (simp add: saved_def)
    have e: "entry_ok e" "chain_total (es @ [s]) (ct_id e) = length (ct_chain e)"
      using Cons.prems(1) ok total_es [OF ok] by (auto simp: chains_ok_def)
    have c: "map (take (ct_size e)) (ct_chain e) = ct_chain e"
      using e(1) by (intro map_idI) (simp add: entry_ok_def)
    have "length out + length (saved_entry big ty e) \<le> len" using Cons.prems(2) l by simp
    then show ?case
      using Cons.IH [of "out @ saved_entry big ty e"] Cons.prems l length_saved_entry [OF e(1), of big ty] e(2) c
      by (auto simp: saved_entry_def Let_def add.commute)
  qed (simp add: saved_def)
  from this [of es "[]"] show ?thesis using assms(2) by (simp add: chain_encod_def active_es [OF ok])
qed

lemma clear_es:
  assumes ok: "chains_ok es s"
  shows "all_table_clear (es @ [s]) ty = map (cleared ty) es @ [s]"
proof -
  have "fold (\<lambda>e t. if ct_type e = ty then chain_clear t (ct_id e) else t) fs (map (cleared ty) gs @ fs @ [s]) =
      map (cleared ty) (gs @ fs) @ [s]" if "es = gs @ fs" for gs fs
    using that
  proof (induction fs arbitrary: gs)
    case (Cons e fs)
    have "ct_id (cleared ty x) = ct_id x" for x by (simp add: cleared_def)
    then have i: "ct_id ` set (map (cleared ty) gs) = ct_id ` set gs" by (simp add: image_image)
    have "chain_clear (map (cleared ty) gs @ e # fs @ [s]) (ct_id e) = map (cleared ty) gs @ e \<lparr> ct_chain := [] \<rparr> # fs @ [s]"
      by (rule chain_ops(2)) (use split_ids [OF ok Cons.prems] i in auto)
    then have "(if ct_type e = ty then chain_clear (map (cleared ty) gs @ e # fs @ [s]) (ct_id e)
        else map (cleared ty) gs @ e # fs @ [s]) = map (cleared ty) (gs @ [e]) @ fs @ [s]"
      by (simp add: cleared_def)
    then show ?case using Cons.IH [of "gs @ [e]"] Cons.prems by (simp del: map_append)
  qed simp
  from this [of "[]" es] show ?thesis by (simp add: all_table_clear_def active_es [OF ok])
qed

lemma add_records_split:
  assumes "ct_id e \<notin> ct_id ` set xs" "0 \<notin> ct_id ` set xs" "\<forall>r \<in> set rs. length r = ct_size e"
  shows "add_records (xs @ e # ys) (ct_id e) (a @ concat rs @ b) (length a) (ct_size e) (length rs) =
    Some (xs @ e \<lparr> ct_chain := ct_chain e @ rs \<rparr> # ys)"
  using assms
proof (induction rs arbitrary: e a)
  case (Cons r rs)
  have "add_records (xs @ e \<lparr> ct_chain := ct_chain e @ [r] \<rparr> # ys) (ct_id e) ((a @ r) @ concat rs @ b) (length (a @ r))
      (ct_size e) (length rs) = Some (xs @ e \<lparr> ct_chain := ct_chain e @ r # rs \<rparr> # ys)"
    using Cons.IH [of "e \<lparr> ct_chain := ct_chain e @ [r] \<rparr>" "a @ r"] Cons.prems by simp
  then show ?case using Cons.prems chain_ops(3) [OF Cons.prems(1,2)] by simp
qed simp

lemma bslice_at: "bslice (length a) (length a + n) (a @ b) = take n b"
  by (simp add: bslice_def)

text \<open>One step of the decoder over a saved entry.\<close>

lemma decod_entry:
  assumes ids: "ct_id e \<notin> ct_id ` set xs" "0 \<notin> ct_id ` set xs" "\<forall>y \<in> set ys. 0 < ct_id y" "ct_id s = 0"
    and e: "entry_ok (e \<lparr> ct_chain := rs \<rparr>)" "ct_chain e = []"
    and len: "len = length a + HDR + length rs * ct_size e + length b" "len < 2 ^ 31"
  shows "chain_decod big (xs @ e # ys @ [s]) (a @ hdr_bytes big (ct_id e) (length rs * ct_size e) @ concat rs @ b) len (length a) =
    chain_decod big (xs @ e \<lparr> ct_chain := rs \<rparr> # ys @ [s]) (a @ hdr_bytes big (ct_id e) (length rs * ct_size e) @ concat rs @ b)
      len (length a + HDR + length rs * ct_size e)"
proof -
  define n where "n = length rs * ct_size e"
  define ptr where "ptr = a @ hdr_bytes big (ct_id e) n @ concat rs @ b"
  have ok: "ct_id e < 2 ^ 16" "0 < ct_id e" "0 < ct_size e" "\<forall>r \<in> set rs. length r = ct_size e"
    using e(1) by (auto simp: entry_ok_def)
  have c: "length (concat rs) = n" using length_concat_records ok(4) by (simp add: n_def)
  have l: "length ptr = len" using len(1) c by (simp add: ptr_def n_def)
  have nn: "n < 2 ^ 31" "n mod ct_size e = 0" "record_count n (ct_size e) = length rs"
  proof -
    show n: "n < 2 ^ 31" using len by (simp add: n_def)
    show "n mod ct_size e = 0" by (simp add: n_def)
    have "n div ct_size e = length rs" using ok(3) by (simp add: n_def)
    moreover have "n div ct_size e \<le> n" by simp
    ultimately show "record_count n (ct_size e) = length rs" using n by (simp add: record_count_def)
  qed
  have i: "nat_of big (bslice (length a) (length a + 2) ptr) = ct_id e"
    unfolding ptr_def bslice_at using ok(1) by (simp add: hdr_bytes_def)
  have h: "nat_of big (bslice (length a + 2) (length a + HDR) ptr) = n"
  proof -
    have p: "ptr = (a @ bytes_of big 2 (ct_id e)) @ bytes_of big 4 n @ concat rs @ b" by (simp add: ptr_def hdr_bytes_def)
    have "bslice (length a + 2) (length a + HDR) ptr = take 4 (bytes_of big 4 n @ concat rs @ b)"
      unfolding p using bslice_at [of "a @ bytes_of big 2 (ct_id e)" 4 "bytes_of big 4 n @ concat rs @ b"]
      by (simp add: add.commute add.left_commute del: append_assoc)
    then show ?thesis using nn(1) by simp
  qed
  have "\<forall>x \<in> set (xs @ e # ys). 0 < ct_id x" using ids(2,3) ok(2) by (auto simp: image_iff)
  then have "active ((xs @ e # ys) @ [s]) = xs @ e # ys" by (rule active_table) (rule ids(4))
  then have f: "find (\<lambda>x. ct_id x = ct_id e) (active (xs @ e # ys @ [s])) = Some e"
    using find_split [OF refl ids(1)] by simp
  have r: "add_records (xs @ e # ys @ [s]) (ct_id e) ptr (length a + HDR) (ct_size e) (length rs) =
      Some (xs @ e \<lparr> ct_chain := rs \<rparr> # ys @ [s])"
    using add_records_split [OF ids(1,2) ok(4), of "ys @ [s]" "a @ hdr_bytes big (ct_id e) n" b] e(2) by (simp add: ptr_def)
  have m: "(length a + HDR + n) mod 2 ^ 32 \<le> len" "length a < len" "length a + HDR \<le> length ptr"
    using len l by (simp_all add: n_def)
  show ?thesis
    unfolding n_def [symmetric] ptr_def [symmetric]
    by (subst chain_decod.simps) (use m f i h nn r n_def in \<open>simp add: Let_def\<close>)
qed

text \<open>Decoding what was saved fills the cleared table again.\<close>

lemma decod_es:
  assumes ok: "chains_ok es s" and len: "length (saved big ty es) < 2 ^ 31"
  shows "chain_decod big (map (cleared ty) es @ [s]) (saved big ty es) (length (saved big ty es)) 0 = Some (1, es @ [s])"
proof -
  have "chain_decod big (gs @ map (cleared ty) fs @ [s]) (saved big ty gs @ saved big ty fs)
      (length (saved big ty es)) (length (saved big ty gs)) = Some (1, es @ [s])" if "es = gs @ fs" for gs fs
    using that
  proof (induction fs arbitrary: gs)
    case Nil
    then show ?case by (subst chain_decod.simps) simp
  next
    case (Cons e fs)
    have e: "entry_ok e" "\<forall>y \<in> set (map (cleared ty) fs). 0 < ct_id y" "ct_id s = 0"
      using Cons.prems ok by (auto simp: chains_ok_def entry_ok_def cleared_def)
    have sv: "saved big ty (e # fs) = saved_entry big ty e @ saved big ty fs" "saved big ty (gs @ [e]) = saved big ty gs @ saved_entry big ty e"
      by (simp_all add: saved_def)
    have IH: "chain_decod big ((gs @ [e]) @ map (cleared ty) fs @ [s]) (saved big ty (gs @ [e]) @ saved big ty fs)
        (length (saved big ty es)) (length (saved big ty (gs @ [e]))) = Some (1, es @ [s])"
      using Cons.IH [of "gs @ [e]"] Cons.prems by simp
    show ?case
    proof (cases "saved_entry big ty e = []")
      case True
      then have "cleared ty e = e"
        by (cases e) (auto simp: saved_entry_def cleared_def hdr_bytes_def bytes_of_def Let_def split: if_splits)
      then show ?thesis using IH True sv by simp
    next
      case False
      then have t: "ct_type e = ty" "ct_chain e \<noteq> []" and se: "saved_entry big ty e = hdr_bytes big (ct_id e) (length (ct_chain e) * ct_size e) @ concat (ct_chain e)"
        by (auto simp: saved_entry_def split: if_splits)
      define e0 where "e0 = e \<lparr> ct_chain := [] \<rparr>"
      have e0: "cleared ty e = e0" "e0 \<lparr> ct_chain := ct_chain e \<rparr> = e" "ct_id e0 = ct_id e" "ct_size e0 = ct_size e" "ct_chain e0 = []"
        using t by (simp_all add: cleared_def e0_def)
      have l: "length (concat (ct_chain e)) = length (ct_chain e) * ct_size e"
        using e(1) by (intro length_concat_records) (simp add: entry_ok_def)
      have "chain_decod big (gs @ e0 # map (cleared ty) fs @ [s])
          (saved big ty gs @ hdr_bytes big (ct_id e0) (length (ct_chain e) * ct_size e0) @ concat (ct_chain e) @ saved big ty fs)
          (length (saved big ty es)) (length (saved big ty gs)) =
        chain_decod big (gs @ e0 \<lparr> ct_chain := ct_chain e \<rparr> # map (cleared ty) fs @ [s])
          (saved big ty gs @ hdr_bytes big (ct_id e0) (length (ct_chain e) * ct_size e0) @ concat (ct_chain e) @ saved big ty fs)
          (length (saved big ty es)) (length (saved big ty gs) + HDR + length (ct_chain e) * ct_size e0)"
        by (rule decod_entry [OF _ _ e(2,3)])
          (use split_ids [OF ok Cons.prems] e(1) e0 l len Cons.prems in \<open>simp_all add: saved_def saved_entry_def t\<close>)
      then show ?thesis using IH sv se l e0 by (simp add: add.assoc)
    qed
  qed
  from this [of "[]" es] show ?thesis by (simp add: saved_def)
qed

section \<open>A length the check lets through\<close>

lemma add_records_wild:
  assumes "ct_id e \<notin> ct_id ` set xs" "0 \<notin> ct_id ` set xs" "idx \<le> length ptr" "length ptr < idx + k * ct_size e"
  shows "add_records (xs @ e # ys) (ct_id e) ptr idx (ct_size e) k = None"
  using assms
proof (induction k arbitrary: idx e)
  case (Suc k)
  show ?case
  proof (cases "length (drop idx ptr) < ct_size e")
    case True
    then show ?thesis using chain_ops(3) [OF Suc.prems(1,2)] by simp
  next
    case False
    then have "add_records (xs @ e \<lparr> ct_chain := ct_chain e @ [take (ct_size e) (drop idx ptr)] \<rparr> # ys) (ct_id e) ptr
        (idx + ct_size e) (ct_size e) k = None"
      using Suc.IH [of "e \<lparr> ct_chain := ct_chain e @ [take (ct_size e) (drop idx ptr)] \<rparr>" "idx + ct_size e"] Suc.prems by simp
    then show ?thesis using chain_ops(3) [OF Suc.prems(1,2)] False by simp
  qed
qed simp

lemma decod_wild:
  assumes ok: "chains_ok (xs @ e # ys) s"
    and n: "n < 2 ^ 32" "n mod ct_size e = 0" "n div ct_size e < 2 ^ 31" "length body < n" "(HDR + n) mod 2 ^ 32 \<le> HDR + length body"
  shows "chain_decod big ((xs @ e # ys) @ [s]) (hdr_bytes big (ct_id e) n @ body) (HDR + length body) 0 = None"
proof -
  define ptr where "ptr = hdr_bytes big (ct_id e) n @ body"
  have ids: "ct_id e \<notin> ct_id ` set xs" "0 \<notin> ct_id ` set xs" using split_ids [OF ok refl] by auto
  have e: "ct_id e < 2 ^ 16" using ok by (auto simp: chains_ok_def entry_ok_def)
  have l: "length ptr = HDR + length body" by (simp add: ptr_def)
  have i: "nat_of big (bslice 0 2 ptr) = ct_id e"
    using e by (simp add: ptr_def hdr_bytes_def bslice_def)
  have h: "nat_of big (bslice 2 HDR ptr) = n"
    using bslice_at [of "bytes_of big 2 (ct_id e)" 4 "bytes_of big 4 n @ body"] n(1) by (simp add: ptr_def hdr_bytes_def)
  have f: "find (\<lambda>x. ct_id x = ct_id e) (active ((xs @ e # ys) @ [s])) = Some e"
    unfolding active_es [OF ok] by (rule find_split [OF refl ids(1)])
  have c: "record_count n (ct_size e) * ct_size e = n" using n(2,3) by (auto simp: record_count_def)
  have w: "add_records (xs @ e # ys @ [s]) (ct_id e) ptr HDR (ct_size e) (record_count n (ct_size e)) = None"
    by (rule add_records_wild [OF ids]) (use c n(4) l in simp_all)
  show ?thesis
    unfolding ptr_def [symmetric] by (subst chain_decod.simps) (use f i h n w l in \<open>simp add: Let_def numeral_2_eq_2\<close>)
qed

end
