(* ===== verification/Image.thy ===== *)
theory Image
  imports Chain "HOL-Library.Word"
begin

text \<open>
  The configuration of the board as it is kept in memory and saved (\<open>src/src/LINUX/mib.c\<close>), in the build
  that saves it raw to two files (\<open>CONFIG_MTD_NAND\<close> and \<open>CONFIG_USER_CONF_ON_RAWFILE\<close>, no XML): a header
  with signature, checksum and length, the table of values, and for the current settings the chains.  The
  tables are the bytes of the structures \<open>MIB_T\<close>, \<open>HW_MIB_T\<close> and \<open>RS_MIB_T\<close>, whose sizes are the lengths
  here.  \<open>malloc\<close> does not fail; a write to a file succeeds or fails as a whole (\<open>m_disk\<close>).
\<close>

unbundle bit_operations_syntax

section \<open>State\<close>

record param_header =
  ph_signature :: bytes
  ph_version :: nat
  ph_checksum :: nat
  ph_len :: nat

record mib =
  m_chains :: chains
  m_cs :: bytes
  m_hs :: bytes
  m_rs :: bytes
  m_cs_header :: param_header
  m_ds_header :: param_header
  m_hs_header :: param_header
  m_cs_file :: "bytes option"
  m_hs_file :: "bytes option"
  m_disk :: bool

datatype config_mib = CONFIG_MIB_ALL | CONFIG_MIB_TABLE | CONFIG_MIB_CHAIN

text \<open>The sizes of the header, of the largest files, and the version.\<close>

abbreviation PARAM_HEADER :: nat where "PARAM_HEADER \<equiv> 14"

definition CURRENT_SETTING_MAX_LEN :: nat where "CURRENT_SETTING_MAX_LEN = 0x10000"
definition DEFAULT_SETTING_MAX_LEN :: nat where "DEFAULT_SETTING_MAX_LEN = 0x2000"
definition HW_SETTING_MAX_LEN :: nat where "HW_SETTING_MAX_LEN = 0x8000"

definition FLASH_FILE_SYSTEM_VERSION :: nat where "FLASH_FILE_SYSTEM_VERSION = 1"

definition signature_tag :: "config_data \<Rightarrow> bytes" where
  "signature_tag ty =
    (case ty of CURRENT_SETTING \<Rightarrow> ''ADSL-CS-'' | DEFAULT_SETTING \<Rightarrow> ''ADSL-DS-'' | HW_SETTING \<Rightarrow> ''ADSL-HS-'' | _ \<Rightarrow> [])"

definition header_bytes :: "bool \<Rightarrow> param_header \<Rightarrow> bytes" where
  "header_bytes big h = ph_signature h @ [chr_of (ph_version h), chr_of (ph_checksum h)] @ bytes_of big 4 (ph_len h)"

definition header_of :: "bool \<Rightarrow> bytes \<Rightarrow> param_header" where
  "header_of big b = \<lparr> ph_signature = take 8 b, ph_version = uchar (b ! 8), ph_checksum = uchar (b ! 9),
     ph_len = nat_of big (bslice 10 PARAM_HEADER b) \<rparr>"

definition checksum :: "bytes \<Rightarrow> nat \<Rightarrow> nat" where
  "checksum ptr len = unat (NOT (foldl (\<lambda>s c. s + of_nat (uchar c)) (0 :: 8 word) (take len ptr)) + 1)"

section \<open>Files\<close>

text \<open>The file of the default settings is not one of the two; its offset is refused.  A file is not
  truncated when it is written.\<close>

definition mib_file :: "mib \<Rightarrow> config_data \<Rightarrow> bytes option" where
  "mib_file m ty = (case ty of CURRENT_SETTING \<Rightarrow> m_cs_file m | HW_SETTING \<Rightarrow> m_hs_file m | _ \<Rightarrow> None)"

definition mib_file_read :: "mib \<Rightarrow> config_data \<Rightarrow> nat \<Rightarrow> bytes option" where
  "mib_file_read m ty len =
    (case mib_file m ty of None \<Rightarrow> None | Some f \<Rightarrow> if length f < len then None else Some (take len f))"

definition overwritten :: "bytes option \<Rightarrow> bytes \<Rightarrow> bytes option" where
  "overwritten f d = Some (d @ (case f of None \<Rightarrow> [] | Some f \<Rightarrow> drop (length d) f))"

definition mib_file_write :: "mib \<Rightarrow> config_data \<Rightarrow> bytes \<Rightarrow> int \<times> mib" where
  "mib_file_write m ty d =
    (if \<not> m_disk m then (0, m)
     else case ty of
       CURRENT_SETTING \<Rightarrow> (1, m \<lparr> m_cs_file := overwritten (m_cs_file m) d \<rparr>)
     | HW_SETTING \<Rightarrow> (1, m \<lparr> m_hs_file := overwritten (m_hs_file m) d \<rparr>)
     | _ \<Rightarrow> (0, m))"

section \<open>Tables and headers\<close>

definition get_mib_tbl :: "mib \<Rightarrow> config_data \<Rightarrow> bytes" where
  "get_mib_tbl m ty =
    (case ty of CURRENT_SETTING \<Rightarrow> m_cs m | DEFAULT_SETTING \<Rightarrow> m_cs m | HW_SETTING \<Rightarrow> m_hs m
     | RUNNING_SETTING \<Rightarrow> m_rs m | UNKNOWN_SETTING \<Rightarrow> [])"

definition set_mib_tbl :: "config_data \<Rightarrow> bytes \<Rightarrow> mib \<Rightarrow> mib" where
  "set_mib_tbl ty b m =
    (case ty of CURRENT_SETTING \<Rightarrow> m \<lparr> m_cs := b \<rparr> | DEFAULT_SETTING \<Rightarrow> m \<lparr> m_cs := b \<rparr>
     | HW_SETTING \<Rightarrow> m \<lparr> m_hs := b \<rparr> | RUNNING_SETTING \<Rightarrow> m \<lparr> m_rs := b \<rparr> | UNKNOWN_SETTING \<Rightarrow> m)"

definition get_mib_header :: "mib \<Rightarrow> config_data \<Rightarrow> param_header option" where
  "get_mib_header m ty =
    (case ty of CURRENT_SETTING \<Rightarrow> Some (m_cs_header m) | DEFAULT_SETTING \<Rightarrow> Some (m_ds_header m)
     | HW_SETTING \<Rightarrow> Some (m_hs_header m) | _ \<Rightarrow> None)"

definition set_mib_header :: "config_data \<Rightarrow> param_header \<Rightarrow> mib \<Rightarrow> mib" where
  "set_mib_header ty h m =
    (case ty of CURRENT_SETTING \<Rightarrow> m \<lparr> m_cs_header := h \<rparr> | DEFAULT_SETTING \<Rightarrow> m \<lparr> m_ds_header := h \<rparr>
     | HW_SETTING \<Rightarrow> m \<lparr> m_hs_header := h \<rparr> | _ \<Rightarrow> m)"

definition init_mib_header :: "mib \<Rightarrow> mib" where
  "init_mib_header m =
    (let h = \<lambda>ty b. \<lparr> ph_signature = signature_tag ty, ph_version = FLASH_FILE_SYSTEM_VERSION, ph_checksum = 0xFF, ph_len = length b \<rparr>
     in m \<lparr> m_cs_header := h CURRENT_SETTING (m_cs m), m_ds_header := h DEFAULT_SETTING (m_cs m),
            m_hs_header := h HW_SETTING (m_hs m) \<rparr>)"

definition content_min_size :: "mib \<Rightarrow> config_data \<Rightarrow> nat" where
  "content_min_size m ty =
    (case ty of CURRENT_SETTING \<Rightarrow> length (m_cs m) | DEFAULT_SETTING \<Rightarrow> length (m_cs m)
     | HW_SETTING \<Rightarrow> length (m_hs m) | _ \<Rightarrow> 0)"

definition content_max_size :: "config_data \<Rightarrow> nat" where
  "content_max_size ty =
    (case ty of CURRENT_SETTING \<Rightarrow> CURRENT_SETTING_MAX_LEN | DEFAULT_SETTING \<Rightarrow> DEFAULT_SETTING_MAX_LEN
     | HW_SETTING \<Rightarrow> HW_SETTING_MAX_LEN | _ \<Rightarrow> 0)"

definition header_check :: "mib \<Rightarrow> config_data \<Rightarrow> param_header \<Rightarrow> bool" where
  "header_check m ty h \<longleftrightarrow>
    ty \<in> {CURRENT_SETTING, DEFAULT_SETTING, HW_SETTING} \<and> ph_signature h = signature_tag ty \<and>
    content_min_size m ty \<le> ph_len h \<and> ph_len h \<le> content_max_size ty"

definition content_decod_check :: "param_header \<Rightarrow> bytes \<Rightarrow> bool" where
  "content_decod_check h ptr \<longleftrightarrow> ph_checksum h = checksum ptr (ph_len h)"

definition content_encod_check :: "param_header \<Rightarrow> bytes \<Rightarrow> param_header" where
  "content_encod_check h ptr = h \<lparr> ph_checksum := checksum ptr (ph_len h) \<rparr>"

section \<open>Loading\<close>

definition read_chains :: "bool \<Rightarrow> config_data \<Rightarrow> bytes \<Rightarrow> nat \<Rightarrow> mib \<Rightarrow> (int \<times> mib) option" where
  "read_chains big ty ptr len m =
    (if ty = CURRENT_SETTING then
       let m = m \<lparr> m_chains := all_table_clear (m_chains m) CURRENT_SETTING \<rparr> in
       if len > 0 then
         (case chain_decod big (m_chains m) ptr len 0 of
            None \<Rightarrow> None
          | Some (ret, t) \<Rightarrow> Some (if ret = 1 then 1 else 0, m \<lparr> m_chains := t \<rparr>))
       else Some (1, m)
     else Some (1, m))"

definition content_read :: "bool \<Rightarrow> mib \<Rightarrow> config_data \<Rightarrow> config_mib \<Rightarrow> (int \<times> mib) option" where
  "content_read big m ty flag =
    (case mib_file_read m ty PARAM_HEADER of
       None \<Rightarrow> Some (0, m)
     | Some hb \<Rightarrow>
         let h = header_of big hb in
         if \<not> header_check m ty h then Some (0, m)
         else case mib_file_read m ty ((ph_len h + PARAM_HEADER) mod 2 ^ 32) of
           None \<Rightarrow> Some (0, m)
         | Some f \<Rightarrow>
             let content = drop PARAM_HEADER f; n = content_min_size m ty in
             if \<not> content_decod_check h content then Some (0, m)
             else
               let m = set_mib_header ty h m;
                   m = (if flag = CONFIG_MIB_ALL \<or> flag = CONFIG_MIB_TABLE
                        then set_mib_tbl ty (mem_write (get_mib_tbl m ty) 0 (take n content)) m else m)
               in if flag = CONFIG_MIB_TABLE then Some (1, m)
                  else read_chains big ty (drop n content) (ph_len h - n) m)"

definition mib_load :: "bool \<Rightarrow> mib \<Rightarrow> config_data \<Rightarrow> (int \<times> mib) option" where
  "mib_load big m ty = (if ty = RUNNING_SETTING then Some (0, m) else content_read big m ty CONFIG_MIB_ALL)"

definition mib_load_table :: "bool \<Rightarrow> mib \<Rightarrow> config_data \<Rightarrow> (int \<times> mib) option" where
  "mib_load_table big m ty = content_read big m ty CONFIG_MIB_TABLE"

definition mib_load_chain :: "bool \<Rightarrow> mib \<Rightarrow> config_data \<Rightarrow> (int \<times> mib) option" where
  "mib_load_chain big m ty = content_read big m ty CONFIG_MIB_CHAIN"

section \<open>Saving\<close>

definition content_size :: "mib \<Rightarrow> config_data \<Rightarrow> nat" where
  "content_size m ty = (all_table_size (m_chains m) ty + content_min_size m ty + PARAM_HEADER) mod 2 ^ 32"

definition encod_chains :: "bool \<Rightarrow> mib \<Rightarrow> config_data \<Rightarrow> nat \<Rightarrow> bytes option" where
  "encod_chains big m ty n = (if n > 0 then chain_encod big (m_chains m) ty n else Some [])"

text \<open>The header in memory gets its new length even where the rest fails.  Settings without a header have
  no table to save.\<close>

definition content_write_to_raw :: "bool \<Rightarrow> mib \<Rightarrow> config_data \<Rightarrow> nat \<Rightarrow> (bytes option \<times> mib) option" where
  "content_write_to_raw big m ty len =
    (case get_mib_header m ty of
       None \<Rightarrow> None
     | Some h \<Rightarrow>
         let tbl_size = content_min_size m ty; chain_size = all_table_size (m_chains m) ty;
             h = h \<lparr> ph_len := (chain_size + tbl_size) mod 2 ^ 32 \<rparr>; m = set_mib_header ty h m;
             total = (ph_len h + PARAM_HEADER) mod 2 ^ 32 in
         if total \<noteq> len then Some (None, m)
         else if total > content_max_size ty then Some (None, m)
         else case encod_chains big m ty chain_size of
           None \<Rightarrow> Some (None, m)
         | Some t \<Rightarrow>
             let content = take tbl_size (get_mib_tbl m ty) @ t; h = content_encod_check h content
             in Some (Some (header_bytes big h @ content), set_mib_header ty h m))"

definition content_write :: "bool \<Rightarrow> mib \<Rightarrow> config_data \<Rightarrow> (int \<times> mib) option" where
  "content_write big m ty =
    (case content_write_to_raw big m ty (content_size m ty) of
       None \<Rightarrow> None
     | Some (None, m) \<Rightarrow> Some (0, m)
     | Some (Some f, m) \<Rightarrow> let (ret, m) = mib_file_write m ty f in Some (if ret = 1 then 1 else 0, m))"

definition mib_update :: "bool \<Rightarrow> mib \<Rightarrow> config_data \<Rightarrow> (int \<times> mib) option" where
  "mib_update big m ty = (if ty = RUNNING_SETTING then Some (0, m) else content_write big m ty)"

text \<open>Settings that come from outside are told apart by their signature.\<close>

definition mib_update_from_raw :: "bool \<Rightarrow> mib \<Rightarrow> bytes \<Rightarrow> int \<times> mib" where
  "mib_update_from_raw big m ptr =
    (if length ptr < PARAM_HEADER then (0, m)
     else
       let h = header_of big ptr in
       case find (\<lambda>ty. ph_signature h = signature_tag ty) [CURRENT_SETTING, DEFAULT_SETTING, HW_SETTING] of
         None \<Rightarrow> (0, m)
       | Some ty \<Rightarrow>
           if \<not> header_check m ty h then (0, m)
           else if length ptr \<noteq> (ph_len h + PARAM_HEADER) mod 2 ^ 32 then (0, m)
           else let (ret, m) = mib_file_write m ty ptr in (if ret = 1 then 1 else 0, m))"

text \<open>The check of the default settings is not heeded.\<close>

definition mib_reset :: "bool \<Rightarrow> mib \<Rightarrow> config_data \<Rightarrow> int \<times> mib" where
  "mib_reset big m ty =
    (if ty \<noteq> CURRENT_SETTING then (0, m)
     else case mib_file_read m DEFAULT_SETTING PARAM_HEADER of
       None \<Rightarrow> (0, m)
     | Some hb \<Rightarrow>
         (case mib_file_read m DEFAULT_SETTING ((ph_len (header_of big hb) + PARAM_HEADER) mod 2 ^ 32) of
            None \<Rightarrow> (0, m)
          | Some f \<Rightarrow>
              let (ret, m) = mib_file_write m CURRENT_SETTING (mem_write f 0 (signature_tag CURRENT_SETTING))
              in (if ret = 1 then 1 else 0, m)))"

section \<open>Headers and checksums\<close>

definition header_ok :: "param_header \<Rightarrow> bool" where
  "header_ok h \<longleftrightarrow> length (ph_signature h) = 8 \<and> ph_version h < 256 \<and> ph_checksum h < 256 \<and> ph_len h < 2 ^ 32"

lemma length_header_bytes: "header_ok h \<Longrightarrow> length (header_bytes big h) = PARAM_HEADER"
  by (simp add: header_ok_def header_bytes_def)

lemma header_of_bytes:
  assumes "header_ok h"
  shows "header_of big (header_bytes big h) = h"
proof -
  have l: "length (ph_signature h) = 8" using assms by (simp add: header_ok_def)
  have "bslice 10 PARAM_HEADER (header_bytes big h) = bytes_of big 4 (ph_len h)"
    using bslice_at [of "ph_signature h @ [chr_of (ph_version h), chr_of (ph_checksum h)]" 4 "bytes_of big 4 (ph_len h)"] l
    by (simp add: header_bytes_def)
  then show ?thesis
    using assms l by (simp add: header_of_def header_ok_def) (simp add: header_bytes_def nth_append)
qed

lemma foldl_sum: "foldl (\<lambda>s c. s + f c) (a :: 'a :: comm_monoid_add) xs = a + sum_list (map f xs)"
  by (induction xs arbitrary: a) (auto simp: add.assoc)

lemma checksum_sum: "checksum ptr len = unat (- (\<Sum>c \<leftarrow> take len ptr. of_nat (uchar c)) :: 8 word)"
  by (simp add: checksum_def foldl_sum not_eq_complement)

lemma checksum_less: "checksum ptr len < 256"
  using unsigned_less [of "- (\<Sum>c \<leftarrow> take len ptr. of_nat (uchar c)) :: 8 word"] by (simp add: checksum_sum)

lemma checksum_take: "checksum (ptr @ rest) (length ptr) = checksum ptr (length ptr)"
  by (simp add: checksum_def)

lemma of_nat_uchar_inject: "of_nat (uchar c) = (of_nat (uchar d) :: 8 word) \<longleftrightarrow> c = d"
proof
  assume "of_nat (uchar c) = (of_nat (uchar d) :: 8 word)"
  then have "unat (of_nat (uchar c) :: 8 word) = unat (of_nat (uchar d) :: 8 word)" by simp
  then show "c = d" using uchar_less [of c] uchar_less [of d] by (simp add: unat_of_nat)
qed simp

lemma checksum_changes:
  assumes "i < length ptr" "c \<noteq> ptr ! i"
  shows "checksum (ptr [i := c]) (length ptr) \<noteq> checksum ptr (length ptr)"
proof
  assume e: "checksum (ptr [i := c]) (length ptr) = checksum ptr (length ptr)"
  have p: "ptr = take i ptr @ ptr ! i # drop (Suc i) ptr" "ptr [i := c] = take i ptr @ c # drop (Suc i) ptr"
    using assms(1) by (simp_all add: id_take_nth_drop upd_conv_take_nth_drop)
  have "(\<Sum>x \<leftarrow> ptr [i := c]. of_nat (uchar x) :: 8 word) = (\<Sum>x \<leftarrow> ptr. of_nat (uchar x))"
    using e by (simp add: checksum_sum flip: word_unat_eq_iff)
  then have "of_nat (uchar c) = (of_nat (uchar (ptr ! i)) :: 8 word)"
    by (subst (asm) p(2), subst (asm) (2) p(1)) simp
  then show False using assms(2) of_nat_uchar_inject by blast
qed

section \<open>Reading what stands in a file\<close>

lemma file_header:
  assumes "header_ok h" "mib_file m ty = Some (header_bytes big h @ d)"
  shows "mib_file_read m ty PARAM_HEADER = Some (header_bytes big h)"
  using assms length_header_bytes [OF assms(1)] by (simp add: mib_file_read_def)

lemma file_content:
  assumes "header_ok h" "mib_file m ty = Some (header_bytes big h @ d @ rest)" "length d = ph_len h" "ph_len h + PARAM_HEADER < 2 ^ 32"
  shows "mib_file_read m ty ((ph_len h + PARAM_HEADER) mod 2 ^ 32) = Some (header_bytes big h @ d)"
  using assms length_header_bytes [OF assms(1), of big] by (simp add: mib_file_read_def)

lemma header_check_bound: "header_check m ty h \<Longrightarrow> ph_len h + PARAM_HEADER < 2 ^ 32"
  by (auto simp: header_check_def content_max_size_def CURRENT_SETTING_MAX_LEN_def DEFAULT_SETTING_MAX_LEN_def
      HW_SETTING_MAX_LEN_def)

text \<open>A content that does not fit its checksum is not loaded.\<close>

lemma content_read_refuses:
  assumes "header_ok h" "mib_file m ty = Some (header_bytes big h @ d @ rest)" "length d = ph_len h"
    and "ph_checksum h \<noteq> checksum d (length d)"
  shows "content_read big m ty flag = Some (0, m)"
proof (cases "header_check m ty h")
  case True
  have "mib_file_read m ty ((ph_len h + PARAM_HEADER) mod 2 ^ 32) = Some (header_bytes big h @ d)"
    by (rule file_content [OF assms(1-3) header_check_bound [OF True]])
  moreover have "\<not> content_decod_check h (drop PARAM_HEADER (header_bytes big h @ d))"
    using assms(3,4) length_header_bytes [OF assms(1), of big] by (simp add: content_decod_check_def)
  ultimately show ?thesis
    using file_header [OF assms(1,2)] header_of_bytes [OF assms(1), of big] True by (simp add: content_read_def Let_def)
next
  case False
  then show ?thesis
    using file_header [OF assms(1,2)] header_of_bytes [OF assms(1), of big] by (simp add: content_read_def Let_def)
qed

text \<open>C10: A saved configuration in which one byte of the content was changed is never loaded: whatever is
  asked for, \<open>__mib_content_read\<close> returns 0 and leaves the tables, the chains and the header in memory as
  they are.\<close>

theorem corruption_detected:
  assumes "header_ok h" "ph_len h = length content" "i < length content" "c \<noteq> content ! i"
    and "mib_file m ty = Some (header_bytes big (content_encod_check h content) @ content [i := c] @ rest)"
  shows "content_read big m ty flag = Some (0, m)"
proof (rule content_read_refuses [OF _ assms(5)])
  show "header_ok (content_encod_check h content)"
    using assms(1) checksum_less by (simp add: header_ok_def content_encod_check_def)
  show "length (content [i := c]) = ph_len (content_encod_check h content)" using assms(2) by (simp add: content_encod_check_def)
  show "ph_checksum (content_encod_check h content) \<noteq> checksum (content [i := c]) (length (content [i := c]))"
    using checksum_changes [OF assms(3,4)] assms(2) by (simp add: content_encod_check_def)
qed

definition sample_header :: param_header where
  "sample_header = \<lparr> ph_signature = signature_tag CURRENT_SETTING, ph_version = 1, ph_checksum = 0xFF, ph_len = 3 \<rparr>"

definition sample_mib :: mib where
  "sample_mib =
    \<lparr> m_chains =
        [\<lparr> ct_id = 5, ct_type = CURRENT_SETTING, ct_size = 2, ct_chain = [''ab'', ''cd''], ct_default = None \<rparr>,
         \<lparr> ct_id = 0, ct_type = UNKNOWN_SETTING, ct_size = 0, ct_chain = [], ct_default = None \<rparr>],
      m_cs = ''xyz'', m_hs = [], m_rs = [], m_cs_header = sample_header, m_ds_header = sample_header,
      m_hs_header = sample_header, m_cs_file = None, m_hs_file = None, m_disk = True \<rparr>"

lemma sample_header_ok: "header_ok sample_header"
  by (simp add: header_ok_def sample_header_def signature_tag_def)

theorem corruption_detected_witness:
  "content_read False (sample_mib \<lparr> m_cs_file := Some (header_bytes False (content_encod_check sample_header ''xyz'') @ ''xYz'') \<rparr>)
     CURRENT_SETTING CONFIG_MIB_ALL =
   Some (0, sample_mib \<lparr> m_cs_file := Some (header_bytes False (content_encod_check sample_header ''xyz'') @ ''xYz'') \<rparr>)"
  by (rule corruption_detected [OF sample_header_ok, where content = "''xyz''" and i = 1 and c = "CHR ''Y''" and rest = "[]"])
    (simp_all add: sample_header_def mib_file_def)

section \<open>Saving and loading\<close>

text \<open>What \<open>_mib_update\<close> leaves behind: the two tables as they were, and the file.\<close>

lemma update_current:
  assumes ok: "chains_ok es s" "m_chains m = es @ [s]" "m_disk m"
    and h: "ph_signature (m_cs_header m) = signature_tag CURRENT_SETTING" "ph_version (m_cs_header m) < 256"
    and len: "PARAM_HEADER + length (m_cs m) + length (saved big CURRENT_SETTING es) \<le> CURRENT_SETTING_MAX_LEN"
  defines "d \<equiv> m_cs m @ saved big CURRENT_SETTING es"
  defines "h1 \<equiv> content_encod_check ((m_cs_header m) \<lparr> ph_len := length d \<rparr>) d"
  shows "mib_update big m CURRENT_SETTING =
      Some (1, m \<lparr> m_cs_header := h1, m_cs_file := overwritten (m_cs_file m) (header_bytes big h1 @ d) \<rparr>)"
    and "header_ok h1" "header_check m CURRENT_SETTING h1" "ph_checksum h1 = checksum d (length d)" "ph_len h1 = length d"
proof -
  have b: "length (saved big CURRENT_SETTING es) < 2 ^ 31" "length d < 0x10000"
    using len by (simp_all add: CURRENT_SETTING_MAX_LEN_def d_def)
  show l: "ph_len h1 = length d" and c: "ph_checksum h1 = checksum d (length d)"
    by (simp_all add: h1_def content_encod_check_def)
  have f: "ph_signature h1 = signature_tag CURRENT_SETTING" "ph_version h1 < 256"
    using h by (simp_all add: h1_def content_encod_check_def)
  show "header_ok h1" using f l c b checksum_less by (simp add: header_ok_def signature_tag_def)
  show "header_check m CURRENT_SETTING h1"
    using f l b by (simp add: header_check_def content_min_size_def content_max_size_def CURRENT_SETTING_MAX_LEN_def d_def)
  have a: "all_table_size (m_chains m) CURRENT_SETTING = length (saved big CURRENT_SETTING es)"
    using size_es [OF ok(1)] b(1) ok(2) by simp
  have z: "all_table_size (m_chains m) CURRENT_SETTING + length (m_cs m) = length d" using a by (simp add: d_def)
  have e: "encod_chains big (m \<lparr> m_cs_header := h \<rparr>) CURRENT_SETTING (length (saved big CURRENT_SETTING es)) =
      Some (saved big CURRENT_SETTING es)" for h
    using encod_es [OF ok(1), of big CURRENT_SETTING] b(1) ok(2)
    by (cases "saved big CURRENT_SETTING es = []") (auto simp: encod_chains_def)
  have sz: "content_size m CURRENT_SETTING = length d + PARAM_HEADER"
    using z b(2) by (simp add: content_size_def content_min_size_def)
  have mx: "length d + PARAM_HEADER \<le> CURRENT_SETTING_MAX_LEN" using len by (simp add: d_def)
  have "content_write_to_raw big m CURRENT_SETTING (length d + PARAM_HEADER) =
      Some (Some (header_bytes big h1 @ d), m \<lparr> m_cs_header := h1 \<rparr>)"
  proof -
    have "(length d + PARAM_HEADER) mod 2 ^ 32 = length d + PARAM_HEADER" "length d mod 2 ^ 32 = length d" using b(2) by simp_all
    moreover have "take (length (m_cs m)) (m_cs m) @ saved big CURRENT_SETTING es = d" by (simp add: d_def)
    ultimately show ?thesis
      using z e mx a
      by (simp add: content_write_to_raw_def get_mib_header_def set_mib_header_def get_mib_tbl_def content_min_size_def
          content_max_size_def Let_def h1_def)
  qed
  then show "mib_update big m CURRENT_SETTING =
      Some (1, m \<lparr> m_cs_header := h1, m_cs_file := overwritten (m_cs_file m) (header_bytes big h1 @ d) \<rparr>)"
    using ok(3) sz by (simp add: mib_update_def content_write_def mib_file_write_def)
qed

lemma load_current:
  assumes h: "header_ok h" "header_check m CURRENT_SETTING h" "ph_len h = length d" "ph_checksum h = checksum d (length d)"
    and f: "mib_file m CURRENT_SETTING = Some (header_bytes big h @ d @ rest)"
    and d: "d = cs @ saved big CURRENT_SETTING es" "length cs = length (m_cs m)"
    and c: "m_chains m = es2 @ [s]" "chains_ok es2 s" "chains_ok es s" "map (cleared CURRENT_SETTING) es2 = map (cleared CURRENT_SETTING) es"
  shows "mib_load big m CURRENT_SETTING = Some (1, m \<lparr> m_cs_header := h, m_cs := cs, m_chains := es @ [s] \<rparr>)"
proof -
  have r: "mib_file_read m CURRENT_SETTING ((ph_len h + PARAM_HEADER) mod 2 ^ 32) = Some (header_bytes big h @ d)"
    by (rule file_content [OF h(1) f h(3) [symmetric] header_check_bound [OF h(2)]])
  have r0: "mib_file_read m CURRENT_SETTING PARAM_HEADER = Some (header_bytes big h)" using file_header [OF h(1) f] .
  have dr: "drop PARAM_HEADER (header_bytes big h @ d) = d" using length_header_bytes [OF h(1), of big] by simp
  have ck: "content_decod_check h d" using h(3,4) by (simp add: content_decod_check_def)
  have b: "length (saved big CURRENT_SETTING es) < 2 ^ 31"
    using h(2,3) d(1) by (simp add: header_check_def content_max_size_def CURRENT_SETTING_MAX_LEN_def)
  define m1 where "m1 = m \<lparr> m_cs_header := h, m_cs := cs \<rparr>"
  have m1: "(if True then set_mib_tbl CURRENT_SETTING (mem_write (get_mib_tbl (set_mib_header CURRENT_SETTING h m) CURRENT_SETTING) 0
        (take (content_min_size m CURRENT_SETTING) d)) (set_mib_header CURRENT_SETTING h m)
      else set_mib_header CURRENT_SETTING h m) = m1"
    using d by (simp add: m1_def set_mib_tbl_def get_mib_tbl_def set_mib_header_def content_min_size_def mem_write_def)
  have cl: "all_table_clear (m_chains m1) CURRENT_SETTING = map (cleared CURRENT_SETTING) es @ [s]"
    using clear_es [OF c(2), of CURRENT_SETTING] c(1,4) by (simp add: m1_def)
  have n: "ph_len h - content_min_size m CURRENT_SETTING = length (saved big CURRENT_SETTING es)"
    "drop (content_min_size m CURRENT_SETTING) d = saved big CURRENT_SETTING es"
    using h(3) d by (simp_all add: content_min_size_def)
  have "read_chains big CURRENT_SETTING (saved big CURRENT_SETTING es) (length (saved big CURRENT_SETTING es)) m1 =
      Some (1, m1 \<lparr> m_chains := es @ [s] \<rparr>)"
  proof (cases "saved big CURRENT_SETTING es = []")
    case True
    have "chain_decod big (map (cleared CURRENT_SETTING) es @ [s]) (saved big CURRENT_SETTING es) 0 0 =
        Some (1, map (cleared CURRENT_SETTING) es @ [s])"
      by (subst chain_decod.simps) simp
    then show ?thesis using decod_es [OF c(3) b] True cl by (simp add: read_chains_def)
  next
    case False
    then show ?thesis using decod_es [OF c(3) b] cl by (simp add: read_chains_def Let_def)
  qed
  then show ?thesis
    unfolding mib_load_def content_read_def r0 option.case header_of_bytes [OF h(1)] Let_def r dr
    using h(2) ck m1 n by (simp add: m1_def)
qed

text \<open>The chains a load leaves: those of the loaded class from the file, the others as the board held
  them.\<close>

definition same_table :: "chains \<Rightarrow> chains \<Rightarrow> bool" where
  "same_table es2 es \<longleftrightarrow> map (\<lambda>e. e \<lparr> ct_chain := [] \<rparr>) es2 = map (\<lambda>e. e \<lparr> ct_chain := [] \<rparr>) es"

definition loaded_over :: "config_data \<Rightarrow> chains \<Rightarrow> chains \<Rightarrow> chains" where
  "loaded_over ty es es2 = map2 (\<lambda>e e2. if ct_type e = ty then e else e2) es es2"

lemma same_entry:
  "same_table (e2 # es2) (e # es) \<longleftrightarrow> e2 \<lparr> ct_chain := [] \<rparr> = e \<lparr> ct_chain := [] \<rparr> \<and> same_table es2 es"
  by (simp add: same_table_def)

lemma entry_fields:
  fixes e e2 :: chain_entry
  assumes "e2 \<lparr> ct_chain := [] \<rparr> = e \<lparr> ct_chain := [] \<rparr>"
  shows "ct_id e2 = ct_id e \<and> ct_type e2 = ct_type e \<and> ct_size e2 = ct_size e"
  using assms by (metis chain_entry.select_convs(1-3) chain_entry.surjective chain_entry.update_convs(4))

lemma loaded_over_facts:
  assumes "same_table es2 es"
  shows "map ct_id (loaded_over ty es es2) = map ct_id es \<and>
    set (loaded_over ty es es2) \<subseteq> set es \<union> set es2 \<and>
    saved big ty (loaded_over ty es es2) = saved big ty es \<and>
    map (cleared ty) es2 = map (cleared ty) (loaded_over ty es es2)"
  using assms
proof (induction es arbitrary: es2)
  case Nil
  then show ?case by (simp add: same_table_def loaded_over_def)
next
  case (Cons e es)
  then obtain e2 es3 where e2: "es2 = e2 # es3" by (cases es2) (auto simp: same_table_def)
  have s: "e2 \<lparr> ct_chain := [] \<rparr> = e \<lparr> ct_chain := [] \<rparr>" "same_table es3 es"
    using Cons.prems unfolding e2 same_entry by auto
  have f: "ct_id e2 = ct_id e \<and> ct_type e2 = ct_type e" using entry_fields [OF s(1)] by simp
  have l: "loaded_over ty (e # es) es2 = (if ct_type e = ty then e else e2) # loaded_over ty es es3"
    by (simp add: loaded_over_def e2)
  show ?case unfolding l
    using Cons.IH [OF s(2)] f s(1) unfolding e2
    by (auto simp: saved_def saved_entry_def cleared_def)
qed

text \<open>C9: Saving the current settings and loading them again gives the same settings: after \<open>_mib_update\<close>,
  \<open>_mib_load\<close> on a board of the same build, whatever values its table and records its chains held,
  succeeds and finds the table and the records of every chain of the current settings as they were saved
  and in their order, while the chains of the other classes keep what the loading board held; also when
  an older and longer file was overwritten, for either byte order and for every configuration that fits
  its 64 kilobytes.\<close>

theorem save_load:
  assumes "chains_ok es s" "m_chains m = es @ [s]" "m_disk m"
    and "ph_signature (m_cs_header m) = signature_tag CURRENT_SETTING" "ph_version (m_cs_header m) < 256"
    and "PARAM_HEADER + length (m_cs m) + length (saved big CURRENT_SETTING es) \<le> CURRENT_SETTING_MAX_LEN"
    and "m_chains m2 = es2 @ [s]" "chains_ok es2 s" "same_table es2 es" "length (m_cs m2) = length (m_cs m)"
  shows "\<exists>m1 m3. mib_update big m CURRENT_SETTING = Some (1, m1) \<and>
    mib_load big (m2 \<lparr> m_cs_file := m_cs_file m1 \<rparr>) CURRENT_SETTING = Some (1, m3) \<and>
    m_cs m3 = m_cs m \<and>
    m_chains m3 = map2 (\<lambda>e e2. if ct_type e = CURRENT_SETTING then e else e2) es es2 @ [s]"
proof -
  define es3 where "es3 = loaded_over CURRENT_SETTING es es2"
  define d where "d = m_cs m @ saved big CURRENT_SETTING es"
  define h1 where "h1 = content_encod_check ((m_cs_header m) \<lparr> ph_len := length d \<rparr>) d"
  define m1 where "m1 = m \<lparr> m_cs_header := h1, m_cs_file := overwritten (m_cs_file m) (header_bytes big h1 @ d) \<rparr>"
  note u = update_current [OF assms(1-6), folded d_def, folded h1_def]
  have l: "map ct_id es3 = map ct_id es" "set es3 \<subseteq> set es \<union> set es2" "saved big CURRENT_SETTING es3 = saved big CURRENT_SETTING es"
    "map (cleared CURRENT_SETTING) es2 = map (cleared CURRENT_SETTING) es3"
    using loaded_over_facts [OF assms(9), of CURRENT_SETTING big] by (simp_all add: es3_def)
  have ok: "chains_ok es3 s" using assms(1,8) l(1,2) by (auto simp: chains_ok_def)
  have "header_check (m2 \<lparr> m_cs_file := m_cs_file m1 \<rparr>) CURRENT_SETTING h1"
    using u(3) assms(10) by (simp add: header_check_def content_min_size_def)
  moreover obtain rest where "mib_file (m2 \<lparr> m_cs_file := m_cs_file m1 \<rparr>) CURRENT_SETTING = Some (header_bytes big h1 @ d @ rest)"
    by (simp add: mib_file_def m1_def overwritten_def)
  ultimately have "mib_load big (m2 \<lparr> m_cs_file := m_cs_file m1 \<rparr>) CURRENT_SETTING =
      Some (1, m2 \<lparr> m_cs_file := m_cs_file m1, m_cs_header := h1, m_cs := m_cs m, m_chains := es3 @ [s] \<rparr>)"
    using load_current [OF u(2) _ u(5,4) _ d_def [folded l(3)] _ _ _ ok l(4)] assms by simp
  then show ?thesis using u(1) by (auto simp: m1_def es3_def loaded_over_def)
qed

text \<open>The saving board has a running chain of one record; the loading board holds other values, other
  records and an empty running chain, as after a reboot.\<close>

theorem save_load_witness:
  "let e = \<lparr> ct_id = 5, ct_type = CURRENT_SETTING, ct_size = 2, ct_chain = [''ab'', ''cd''], ct_default = None \<rparr>;
       r = \<lparr> ct_id = 7, ct_type = RUNNING_SETTING, ct_size = 1, ct_chain = [''r''], ct_default = None \<rparr>;
       s = \<lparr> ct_id = 0, ct_type = UNKNOWN_SETTING, ct_size = 0, ct_chain = [], ct_default = None \<rparr>
   in \<exists>m1 m3. mib_update True (sample_mib \<lparr> m_chains := [e, r, s] \<rparr>) CURRENT_SETTING = Some (1, m1) \<and>
    mib_load True (sample_mib \<lparr> m_cs := ''---'', m_chains := [e \<lparr> ct_chain := [''zz''] \<rparr>, r \<lparr> ct_chain := [] \<rparr>, s],
      m_cs_file := m_cs_file m1 \<rparr>) CURRENT_SETTING = Some (1, m3) \<and>
    m_cs m3 = ''xyz'' \<and> m_chains m3 = [e, r \<lparr> ct_chain := [] \<rparr>, s]"
proof -
  define e where "e = \<lparr> ct_id = 5, ct_type = CURRENT_SETTING, ct_size = 2, ct_chain = [''ab'', ''cd''], ct_default = None \<rparr>"
  define r where "r = \<lparr> ct_id = 7, ct_type = RUNNING_SETTING, ct_size = 1, ct_chain = [''r''], ct_default = None \<rparr>"
  define s where "s = \<lparr> ct_id = 0, ct_type = UNKNOWN_SETTING, ct_size = 0, ct_chain = [], ct_default = None \<rparr>"
  let ?es2 = "[e \<lparr> ct_chain := [''zz''] \<rparr>, r \<lparr> ct_chain := [] \<rparr>]"
  let ?m = "sample_mib \<lparr> m_chains := [e, r, s] \<rparr>" let ?m2 = "sample_mib \<lparr> m_cs := ''---'', m_chains := ?es2 @ [s] \<rparr>"
  have c: "chains_ok [e, r] s" "chains_ok ?es2 s" "same_table ?es2 [e, r]" "m_chains ?m = [e, r] @ [s]" "m_chains ?m2 = ?es2 @ [s]"
    by (simp_all add: chains_ok_def entry_ok_def e_def s_def r_def same_table_def)
  have l: "PARAM_HEADER + length (m_cs ?m) + length (saved True CURRENT_SETTING [e, r]) \<le> CURRENT_SETTING_MAX_LEN"
    by (simp add: sample_mib_def saved_def saved_entry_def e_def r_def CURRENT_SETTING_MAX_LEN_def)
  have h: "m_disk ?m" "ph_signature (m_cs_header ?m) = signature_tag CURRENT_SETTING" "ph_version (m_cs_header ?m) < 256"
    "length (m_cs ?m2) = length (m_cs ?m)" by (simp_all add: sample_mib_def sample_header_def)
  have t: "ct_type e = CURRENT_SETTING" "ct_type r \<noteq> CURRENT_SETTING" "m_cs ?m = ''xyz''"
    by (simp_all add: e_def r_def sample_mib_def)
  show ?thesis
    using save_load [OF c(1,4) h(1-3) l c(5,2,3) h(4)] t
    unfolding Let_def e_def [symmetric] r_def [symmetric] s_def [symmetric] by simp
qed

section \<open>Settings from outside\<close>

text \<open>C38: \<open>_mib_update_from_raw\<close> writes settings from outside to their file after a check of signature and
  length alone, although it promises to check the checksum: settings with a wrong checksum take the place
  of the good ones, and the next load refuses them.\<close>

theorem raw_unchecked:
  assumes "header_ok h" "ty = CURRENT_SETTING \<or> ty = HW_SETTING" "header_check m ty h" "length content = ph_len h" "m_disk m"
  shows "\<exists>m' rest. mib_update_from_raw big m (header_bytes big h @ content) = (1, m') \<and>
    mib_file m' ty = Some (header_bytes big h @ content @ rest) \<and>
    (ph_checksum h \<noteq> checksum content (length content) \<longrightarrow> mib_load big m' ty = Some (0, m'))"
proof -
  define ptr where "ptr = header_bytes big h @ content"
  have l: "length ptr = PARAM_HEADER + ph_len h" using length_header_bytes [OF assms(1), of big] assms(4) by (simp add: ptr_def)
  have h: "header_of big ptr = h"
    using header_of_bytes [OF assms(1), of big] length_header_bytes [OF assms(1), of big]
    by (simp add: header_of_def ptr_def bslice_def nth_append)
  have f: "find (\<lambda>ty. ph_signature h = signature_tag ty) [CURRENT_SETTING, DEFAULT_SETTING, HW_SETTING] = Some ty"
    using assms(2,3) by (auto simp: header_check_def signature_tag_def)
  obtain m' where m': "mib_file_write m ty ptr = (1, m')" using assms(2,5) by (auto simp: mib_file_write_def)
  have u: "mib_update_from_raw big m ptr = (1, m')"
    using l h f assms(3) m' header_check_bound [OF assms(3)] by (simp add: mib_update_from_raw_def add.commute)
  obtain rest where r: "mib_file m' ty = Some (header_bytes big h @ content @ rest)"
    using m' assms(2,5) by (auto simp: mib_file_write_def mib_file_def overwritten_def ptr_def)
  have "mib_load big m' ty = Some (0, m')" if "ph_checksum h \<noteq> checksum content (length content)"
    using content_read_refuses [OF assms(1) r assms(4) that] assms(2) by (auto simp: mib_load_def)
  then show ?thesis using u r unfolding ptr_def by blast
qed

theorem raw_unchecked_witness:
  "\<exists>m'. mib_update_from_raw False sample_mib (header_bytes False sample_header @ ''!!!'') = (1, m') \<and>
    mib_load False m' CURRENT_SETTING = Some (0, m')"
proof -
  have c: "checksum ''!!!'' (length ''!!!'') \<noteq> ph_checksum sample_header"
    by (simp add: checksum_def not_eq_complement uchar_def sample_header_def)
  have h: "header_check sample_mib CURRENT_SETTING sample_header" "length ''!!!'' = ph_len sample_header" "m_disk sample_mib"
    by (simp_all add: sample_header_def sample_mib_def header_check_def content_min_size_def content_max_size_def
        CURRENT_SETTING_MAX_LEN_def)
  show ?thesis using raw_unchecked [OF sample_header_ok _ h, of False] c by auto
qed

end
