(* ===== verification/Mibval.thy ===== *)
theory Mibval
  imports Image
begin

text \<open>
  The values of the configuration and their text form (\<open>string_to_mib\<close>, \<open>mib_to_string\<close> and their helpers in
  \<open>src/src/LINUX/utility.c\<close>), in a build
  without \<open>CONFIG_IPV6\<close> and without the encryption of strings.  \<open>long\<close> has 32 bits.  \<open>None\<close> stands for an
  access outside a buffer.
\<close>

datatype mib_type =
  BYTE_T | WORD_T | DWORD_T | INTEGER_T | STRING_T | ENCRYPT_STRING_T | BYTE5_T | BYTE6_T | BYTE13_T | IA_T | IA6_T
  | BYTE_ARRAY_T | WORD_ARRAY_T | INT_ARRAY_T | BYTE64_T | OBJECT_T

section \<open>Numbers as text\<close>

definition hex_digit :: "nat \<Rightarrow> char" where
  "hex_digit n = (if n < 10 then chr_of (48 + n) else chr_of (87 + n))"

text \<open>\<open>%02x\<close>, \<open>%04x\<close> and \<open>%08x\<close> of a number that has so many digits.\<close>

fun hexs :: "nat \<Rightarrow> nat \<Rightarrow> string" where
  "hexs 0 n = []"
| "hexs (Suc w) n = hexs w (n div 16) @ [hex_digit (n mod 16)]"

text \<open>The value of a digit to any base up to 36.\<close>

definition digit_of :: "char \<Rightarrow> nat" where
  "digit_of c =
    (let u = uchar c in
     if 48 \<le> u \<and> u \<le> 57 then u - 48 else if 97 \<le> u \<and> u \<le> 122 then u - 87 else if 65 \<le> u \<and> u \<le> 90 then u - 55 else 99)"

definition isxdigit :: "char \<Rightarrow> bool" where
  "isxdigit c \<longleftrightarrow> digit_of c < 16"

fun radix_val :: "nat \<Rightarrow> nat \<Rightarrow> string \<Rightarrow> nat" where
  "radix_val b acc [] = acc"
| "radix_val b acc (c # s) = (if digit_of c < b then radix_val b (b * acc + digit_of c) s else acc)"

text \<open>\<open>strtoul\<close> and \<open>strtol\<close> with the base 0: the base is told by the prefix.\<close>

definition strto_parts :: "string \<Rightarrow> bool \<times> nat" where
  "strto_parts s =
    (let t = dropWhile is_space s; neg = prefix ''-'' t; t = (if neg \<or> prefix ''+'' t then drop 1 t else t) in
     (neg,
      if (prefix ''0x'' t \<or> prefix ''0X'' t) \<and> length t > 2 \<and> isxdigit (t ! 2) then radix_val 16 0 (drop 2 t)
      else if prefix ''0'' t then radix_val 8 0 t
      else radix_val 10 0 t))"

definition strtoul0 :: "string \<Rightarrow> nat" where
  "strtoul0 s = (let (neg, n) = strto_parts s in if n \<ge> 2 ^ 32 then 2 ^ 32 - 1 else if neg then (2 ^ 32 - n) mod 2 ^ 32 else n)"

definition strtol0 :: "string \<Rightarrow> int" where
  "strtol0 s = (let (neg, n) = strto_parts s in if neg then max (- (2 ^ 31)) (- int n) else min (2 ^ 31 - 1) (int n))"

text \<open>\<open>inet_ntop\<close> and \<open>inet_pton\<close> of an IPv4 address.\<close>

definition inet_ntop4 :: "bytes \<Rightarrow> string" where
  "inet_ntop4 b =
    digs (uchar (b ! 0)) @ ''.'' @ digs (uchar (b ! 1)) @ ''.'' @ digs (uchar (b ! 2)) @ ''.'' @ digs (uchar (b ! 3))"

fun split_dots :: "string \<Rightarrow> string list" where
  "split_dots [] = [[]]"
| "split_dots (c # s) = (if c = CHR ''.'' then [] # split_dots s
     else case split_dots s of [] \<Rightarrow> [[c]] | w # ws \<Rightarrow> (c # w) # ws)"

definition octet_ok :: "string \<Rightarrow> bool" where
  "octet_ok w \<longleftrightarrow> w \<noteq> [] \<and> (\<forall>c \<in> set w. is_digit c) \<and> digits_val 0 w < 256 \<and> (prefix ''0'' w \<longrightarrow> length w = 1)"

definition inet_pton4 :: "string \<Rightarrow> bytes option" where
  "inet_pton4 s =
    (let ws = split_dots s in
     if length ws = 4 \<and> (\<forall>w \<in> set ws. octet_ok w) then Some (map (\<lambda>w. chr_of (digits_val 0 w)) ws) else None)"

section \<open>Arrays as text\<close>

fun groups :: "nat \<Rightarrow> nat \<Rightarrow> bytes \<Rightarrow> bytes list" where
  "groups n 0 b = []"
| "groups n (Suc k) b = take n b # groups n k (drop n b)"

fun comma_join :: "string list \<Rightarrow> string" where
  "comma_join [] = []"
| "comma_join [w] = w"
| "comma_join (w # ws) = w @ '','' @ comma_join ws"

definition hex_groups :: "bool \<Rightarrow> nat \<Rightarrow> nat \<Rightarrow> bytes \<Rightarrow> string list" where
  "hex_groups big n k v = map (\<lambda>g. hexs (2 * n) (nat_of big g)) (groups n k v)"

definition is_delimiter :: "char \<Rightarrow> bool" where
  "is_delimiter ch \<longleftrightarrow> ch = CHR '','' \<or> ch = CHR '' '' \<or> ch = NUL"

definition eat_delimiter :: "string \<Rightarrow> nat \<Rightarrow> nat" where
  "eat_delimiter s pos = length (takeWhile is_delimiter (drop pos (s @ [NUL])))"

definition to_hex_string :: "string \<Rightarrow> string" where
  "to_hex_string s = filter (\<lambda>c. c \<noteq> CHR '','' \<and> c \<noteq> CHR '' '') s"

text \<open>Digits are copied right aligned into eight places of a buffer of \<open>maxstrlen + 1\<close> bytes.\<close>

definition copy_hex_str_as_one_int :: "string \<Rightarrow> nat \<Rightarrow> nat \<Rightarrow> nat \<Rightarrow> string \<Rightarrow> string option" where
  "copy_hex_str_as_one_int s maxstrlen from_pos cp_len out =
    (if length out + 8 > maxstrlen + 1 then None
     else Some (out @ replicate (8 - cp_len) (CHR ''0'') @ take cp_len (drop from_pos s)))"

function hex_int_loop :: "string \<Rightarrow> nat \<Rightarrow> nat \<Rightarrow> nat \<Rightarrow> nat \<Rightarrow> string \<Rightarrow> string option" where
  "hex_int_loop s maxstrlen pos hex_count from_pos out =
    (if pos > length s \<or> length out > maxstrlen then Some out
     else
       let delimiter_count = eat_delimiter s pos in
       if delimiter_count = 0 then
         (if hex_count + 1 = 8 then
            (case copy_hex_str_as_one_int s maxstrlen from_pos 8 out of
               None \<Rightarrow> None
             | Some out \<Rightarrow> hex_int_loop s maxstrlen (pos + 1) 0 (from_pos + 8) out)
          else hex_int_loop s maxstrlen (pos + 1) (hex_count + 1) from_pos out)
       else if pos > from_pos then
         (case copy_hex_str_as_one_int s maxstrlen from_pos (pos - from_pos) out of
            None \<Rightarrow> None
          | Some out \<Rightarrow> hex_int_loop s maxstrlen (pos + delimiter_count) 0 (pos + delimiter_count) out)
       else hex_int_loop s maxstrlen (pos + delimiter_count) hex_count (pos + delimiter_count) out)"
  by pat_completeness auto
termination
  by (relation "measure (\<lambda>(s, maxstrlen, pos, hex_count, from_pos, out). Suc (length s) - pos)") auto

declare hex_int_loop.simps [simp del]

definition to_hex_string_int :: "string \<Rightarrow> nat \<Rightarrow> string option" where
  "to_hex_string_int s maxstrlen = map_option (take maxstrlen) (hex_int_loop s maxstrlen 0 0 0 [])"

text \<open>The three conversions stop at a character that is no digit; what came before stays written.\<close>

fun hex_units :: "bool \<Rightarrow> nat \<Rightarrow> nat \<Rightarrow> string \<Rightarrow> int \<times> bytes" where
  "hex_units big w 0 s = (1, [])"
| "hex_units big w (Suc k) s =
    (let d = take w s in
     if length d < w \<or> \<not> list_all isxdigit d then (0, [])
     else let (ret, b) = hex_units big w k (drop w s) in (ret, bytes_of big (w div 2) (radix_val 16 0 d) @ b))"

definition rtk_string_to_hex :: "string \<Rightarrow> nat \<Rightarrow> int \<times> bytes" where
  "rtk_string_to_hex s len = hex_units False 2 ((len + 1) div 2) s"

definition string_to_short :: "bool \<Rightarrow> string \<Rightarrow> nat \<Rightarrow> int \<times> bytes" where
  "string_to_short big s len = hex_units big 4 ((len + 3) div 4) s"

definition string_to_integer :: "bool \<Rightarrow> string \<Rightarrow> nat \<Rightarrow> int \<times> bytes" where
  "string_to_integer big s len = hex_units big 8 ((len + 7) div 8) s"

section \<open>Values\<close>

text \<open>\<open>v\<close> are the bytes from the value on; \<open>sz\<close> is the size of its type.\<close>

definition mib_read :: "bytes \<Rightarrow> nat \<Rightarrow> (bytes \<Rightarrow> string) \<Rightarrow> (int \<times> string) option" where
  "mib_read v n f = (if length v < n then None else Some (0, f (take n v)))"

definition mib_to_string :: "bool \<Rightarrow> bytes \<Rightarrow> mib_type \<Rightarrow> nat \<Rightarrow> (int \<times> string) option" where
  "mib_to_string big v ty sz =
    (case ty of
       IA_T \<Rightarrow> mib_read v 4 inet_ntop4
     | BYTE_T \<Rightarrow> mib_read v 1 (\<lambda>b. digs (nat_of big b))
     | WORD_T \<Rightarrow> mib_read v 2 (\<lambda>b. digs (nat_of big b))
     | DWORD_T \<Rightarrow> mib_read v 4 (\<lambda>b. digs (nat_of big b))
     | INTEGER_T \<Rightarrow> mib_read v 4 (\<lambda>b. let n = nat_of big b in show_int (if n < 2 ^ 31 then int n else int n - 2 ^ 32))
     | BYTE5_T \<Rightarrow> mib_read v sz (\<lambda>b. concat (hex_groups big 1 sz b))
     | BYTE6_T \<Rightarrow> mib_read v sz (\<lambda>b. concat (hex_groups big 1 sz b))
     | BYTE13_T \<Rightarrow> mib_read v sz (\<lambda>b. concat (hex_groups big 1 sz b))
     | BYTE_ARRAY_T \<Rightarrow> mib_read v sz (\<lambda>b. comma_join (hex_groups big 1 sz b))
     | WORD_ARRAY_T \<Rightarrow> mib_read v (sz div 2 * 2) (\<lambda>b. comma_join (hex_groups big 2 (sz div 2) b))
     | INT_ARRAY_T \<Rightarrow> mib_read v (sz div 4 * 4) (\<lambda>b. comma_join (hex_groups big 4 (sz div 4) b))
     | STRING_T \<Rightarrow> if NUL \<in> set v then Some (0, cstr v) else None
     | ENCRYPT_STRING_T \<Rightarrow> if NUL \<in> set v then Some (0, cstr v) else None
     | _ \<Rightarrow> Some (-1, []))"

text \<open>\<open>strncpy\<close> fills up with zeros.\<close>

definition strncpy_bytes :: "string \<Rightarrow> nat \<Rightarrow> bytes" where
  "strncpy_bytes s n = take n (s @ replicate n NUL)"

text \<open>What is written to \<open>mib\<close>, with the bytes that stood there.  The results of the array conversions are
  not looked at.\<close>

definition mib_put :: "bytes \<Rightarrow> int \<Rightarrow> bytes \<Rightarrow> (int \<times> bytes) option" where
  "mib_put mib ret b = (if length b > length mib then None else Some (ret, mem_write mib 0 b))"

definition string_to_mib :: "bool \<Rightarrow> bytes \<Rightarrow> string \<Rightarrow> mib_type \<Rightarrow> nat \<Rightarrow> (int \<times> bytes) option" where
  "string_to_mib big mib s ty sz =
    (case ty of
       IA_T \<Rightarrow>
         (case inet_pton4 (if s = [] then ''0.0.0.0'' else s) of
            None \<Rightarrow> Some (-1, mib)
          | Some a \<Rightarrow> mib_put mib 0 a)
     | BYTE_T \<Rightarrow> mib_put mib 0 (bytes_of big 1 (strtoul0 s))
     | WORD_T \<Rightarrow> mib_put mib 0 (bytes_of big 2 (strtoul0 s))
     | DWORD_T \<Rightarrow> mib_put mib 0 (bytes_of big 4 (strtoul0 s))
     | INTEGER_T \<Rightarrow> mib_put mib 0 (bytes_of big 4 (nat (strtol0 s mod 2 ^ 32)))
     | BYTE_ARRAY_T \<Rightarrow> mib_put mib 0 (snd (rtk_string_to_hex (to_hex_string s) (sz * 2)))
     | BYTE5_T \<Rightarrow> mib_put mib 0 (snd (rtk_string_to_hex s (sz * 2)))
     | BYTE6_T \<Rightarrow> mib_put mib 0 (snd (rtk_string_to_hex s (sz * 2)))
     | BYTE13_T \<Rightarrow> mib_put mib 0 (snd (rtk_string_to_hex s (sz * 2)))
     | STRING_T \<Rightarrow> mib_put mib 0 (strncpy_bytes s sz)
     | ENCRYPT_STRING_T \<Rightarrow> mib_put mib 0 (strncpy_bytes s sz)
     | WORD_ARRAY_T \<Rightarrow> mib_put mib 0 (snd (string_to_short big (to_hex_string s) (sz * 2)))
     | INT_ARRAY_T \<Rightarrow>
         (case to_hex_string_int s (sz * 2) of
            None \<Rightarrow> None
          | Some t \<Rightarrow> mib_put mib 0 (snd (string_to_integer big t (sz * 2))))
     | _ \<Rightarrow> Some (0, mib))"

section \<open>Hexadecimal text\<close>

lemma digit_of_hex [simp]: "n < 16 \<Longrightarrow> digit_of (hex_digit n) = n"
  by (auto simp: digit_of_def hex_digit_def Let_def)

lemma radix_val_append:
  "list_all (\<lambda>c. digit_of c < b) s \<Longrightarrow> radix_val b acc (s @ t) = radix_val b (radix_val b acc s) t"
  by (induction s arbitrary: acc) auto

lemma hexs_digits: "list_all isxdigit (hexs w n)"
  by (induction w arbitrary: n) (auto simp: isxdigit_def)

lemma length_hexs [simp]: "length (hexs w n) = w"
  by (induction w arbitrary: n) auto

lemma radix_hexs [simp]: "radix_val 16 0 (hexs w n) = n mod 16 ^ w"
proof (induction w arbitrary: n)
  case (Suc w)
  have "radix_val 16 0 (hexs (Suc w) n) = 16 * (n div 16 mod 16 ^ w) + n mod 16"
    using radix_val_append [of 16 "hexs w (n div 16)" 0] hexs_digits [of w "n div 16"] Suc
    by (simp add: list_all_iff isxdigit_def)
  then show ?case by (simp add: mod_mult2_eq)
qed simp

lemma isxdigit_no_delimiter: "isxdigit c \<Longrightarrow> c \<noteq> CHR '','' \<and> c \<noteq> CHR '' '' \<and> c \<noteq> NUL"
  by (auto simp: isxdigit_def digit_of_def uchar_def)

lemma to_hex_string_join:
  assumes "\<forall>w \<in> set ws. list_all isxdigit w"
  shows "to_hex_string (comma_join ws) = concat ws"
proof -
  have w: "to_hex_string w = w" if "list_all isxdigit w" for w
    using that isxdigit_no_delimiter by (auto simp: to_hex_string_def list_all_iff intro!: filter_True)
  have a: "to_hex_string (a @ b) = to_hex_string a @ to_hex_string b" for a b by (simp add: to_hex_string_def)
  have "to_hex_string '','' = []" by (simp add: to_hex_string_def)
  then show ?thesis using assms by (induction ws rule: comma_join.induct) (auto simp: w a, simp add: to_hex_string_def)
qed

lemma concat_groups: "concat (groups n k b) = take (n * k) b"
  by (induction k arbitrary: b) (auto simp: take_add)

lemma groups_lengths: "n * k \<le> length b \<Longrightarrow> \<forall>g \<in> set (groups n k b). length g = n"
proof (induction k arbitrary: b)
  case (Suc k)
  then have "\<forall>g \<in> set (groups n k (drop n b)). length g = n" by (intro Suc.IH) simp
  then show ?case using Suc.prems by simp
qed simp

lemma length_groups [simp]: "length (groups n k b) = k"
  by (induction k arbitrary: b) auto

lemma hex_units_groups:
  assumes "0 < n" "\<forall>g \<in> set gs. length g = n"
  shows "hex_units big (2 * n) (length gs) (concat (map (\<lambda>g. hexs (2 * n) (nat_of big g)) gs) @ t) = (1, concat gs)"
  using assms(2)
proof (induction gs)
  case (Cons g gs)
  have "nat_of big g < 256 ^ n" using Cons.prems by (intro nat_of_less) simp
  then have "nat_of big g < 16 ^ (2 * n)" by (simp add: power_mult)
  then have "bytes_of big n (radix_val 16 0 (hexs (2 * n) (nat_of big g))) = g"
    using Cons.prems by simp
  then show ?case using Cons hexs_digits [of "2 * n"] by (simp add: case_prod_unfold)
qed simp

lemma hex_groups_back:
  assumes "0 < n" "n * k \<le> length v"
  shows "hex_units big (2 * n) k (concat (hex_groups big n k v)) = (1, take (n * k) v)"
  using hex_units_groups [OF assms(1) groups_lengths [OF assms(2)], of big "[]"] by (simp add: hex_groups_def concat_groups)

lemma hex_groups_digits: "\<forall>w \<in> set (hex_groups big n k v). list_all isxdigit w"
  using hexs_digits by (auto simp: hex_groups_def)

section \<open>Decimal text\<close>

lemma digit_of_digit: "is_digit c \<Longrightarrow> digit_of c = uchar c - 48 \<and> uchar c - 48 < 10"
  by (auto simp: is_digit_def digit_of_def Let_def)

lemma radix_10: "\<forall>c \<in> set s. is_digit c \<Longrightarrow> radix_val 10 acc s = digits_val acc s"
  by (induction s arbitrary: acc) (auto simp: digit_of_digit)

lemma digs_head: "0 < n \<Longrightarrow> \<not> prefix ''0'' (digs n)"
proof (induction n rule: digs.induct)
  case (1 n)
  show ?case
  proof (cases "n < 10")
    case True
    then show ?thesis using 1(2) by (subst digs.simps) (simp add: eq_chr_of_iff uchar_def)
  next
    case False
    then have "\<not> prefix ''0'' (digs (n div 10))" using 1(1) by simp
    moreover have "digs (n div 10) \<noteq> []" by simp
    ultimately show ?thesis using False by (subst digs.simps) (cases "digs (n div 10)", auto)
  qed
qed

lemma strto_unsigned:
  assumes "\<forall>c \<in> set s. is_digit c" "s \<noteq> []" "\<not> prefix ''0'' s"
  shows "strto_parts s = (False, digits_val 0 s)" "strto_parts (CHR ''-'' # s) = (True, digits_val 0 s)"
proof -
  obtain c t where s: "s = c # t" "is_digit c" using assms(1,2) by (cases s) auto
  have d: "\<not> is_space c" "c \<noteq> CHR ''-''" "c \<noteq> CHR ''+''" "\<not> is_space CHR ''-''"
    using s(2) by (auto simp: is_space_def is_digit_def uchar_def)
  have z: "c \<noteq> CHR ''0''" using assms(3) s(1) by auto
  show "strto_parts s = (False, digits_val 0 s)" "strto_parts (CHR ''-'' # s) = (True, digits_val 0 s)"
    using d z assms(1) s(1) radix_10 [of s 0] by (simp_all add: strto_parts_def Let_def)
qed

lemma strto_digs:
  shows "strto_parts (digs n) = (False, n)"
    and "0 < n \<Longrightarrow> strto_parts (CHR ''-'' # digs n) = (True, n)"
proof -
  show "strto_parts (digs n) = (False, n)"
  proof (cases "n = 0")
    case True
    have "digs 0 = ''0''" by (subst digs.simps) (simp add: char_eval)
    then show ?thesis using True by (simp add: strto_parts_def is_space_def digit_of_def uchar_def)
  next
    case False
    then show ?thesis using strto_unsigned(1) [OF digs_digits digs_nonempty digs_head] by simp
  qed
  show "0 < n \<Longrightarrow> strto_parts (CHR ''-'' # digs n) = (True, n)"
    using strto_unsigned(2) [OF digs_digits digs_nonempty digs_head] by simp
qed

lemma strtoul_digs: "n < 2 ^ 32 \<Longrightarrow> strtoul0 (digs n) = n"
  by (simp add: strtoul0_def strto_digs)

lemma strtol_show: "- (2 ^ 31) \<le> i \<Longrightarrow> i < 2 ^ 31 \<Longrightarrow> strtol0 (show_int i) = i"
  using strto_digs(1) [of "nat i"] strto_digs(2) [of "nat (- i)"] by (auto simp: strtol0_def show_int_def)

lemma split_dots_plain: "CHR ''.'' \<notin> set w \<Longrightarrow> split_dots w = [w]"
  by (induction w) auto

lemma split_dots_word: "CHR ''.'' \<notin> set w \<Longrightarrow> split_dots (w @ CHR ''.'' # s) = w # split_dots s"
  by (induction w) auto

lemma digs_no_dot: "CHR ''.'' \<notin> set (digs n)"
  using digs_digits [of n] by (auto simp: is_digit_def uchar_def)

lemma octet_digs: "n < 256 \<Longrightarrow> octet_ok (digs n)"
proof -
  have "digs 0 = ''0''" by (subst digs.simps) (simp add: char_eval)
  then show "n < 256 \<Longrightarrow> octet_ok (digs n)"
    using digs_digits [of n] digs_head [of n] by (cases "n = 0") (auto simp: octet_ok_def is_digit_def uchar_def)
qed

lemma inet_back: "length v = 4 \<Longrightarrow> inet_pton4 (inet_ntop4 v) = Some v"
proof -
  assume "length v = 4"
  then obtain a b c d where v: "v = [a, b, c, d]" by (auto simp: length_Suc_conv eval_nat_numeral)
  have "split_dots (inet_ntop4 v) = [digs (uchar a), digs (uchar b), digs (uchar c), digs (uchar d)]"
    by (simp add: v inet_ntop4_def split_dots_word split_dots_plain digs_no_dot)
  then show ?thesis by (simp add: inet_pton4_def octet_digs v)
qed

section \<open>Arrays of integers\<close>

lemma eat_none: "pos < length s \<Longrightarrow> isxdigit (s ! pos) \<Longrightarrow> eat_delimiter s pos = 0"
  using isxdigit_no_delimiter [of "s ! pos"]
  by (simp add: eat_delimiter_def is_delimiter_def Cons_nth_drop_Suc [symmetric] nth_append)

lemma hex_int_digits:
  assumes "from_pos + 8 \<le> length s" "\<forall>i < 8. isxdigit (s ! (from_pos + i))" "length out \<le> maxstrlen" "k \<le> 7"
  shows "hex_int_loop s maxstrlen from_pos 0 from_pos out = hex_int_loop s maxstrlen (from_pos + k) k from_pos out"
  using assms(4)
proof (induction k)
  case (Suc k)
  then have "eat_delimiter s (from_pos + k) = 0" using assms(1,2) by (intro eat_none) auto
  then have "hex_int_loop s maxstrlen (from_pos + k) k from_pos out = hex_int_loop s maxstrlen (from_pos + Suc k) (Suc k) from_pos out"
    using assms(1,3) Suc.prems by (subst hex_int_loop.simps) (simp add: Let_def)
  then show ?case using Suc by simp
qed simp

lemma hex_int_token:
  assumes "from_pos + 8 \<le> length s" "\<forall>i < 8. isxdigit (s ! (from_pos + i))" "length out + 8 \<le> maxstrlen"
  shows "hex_int_loop s maxstrlen from_pos 0 from_pos out =
    hex_int_loop s maxstrlen (from_pos + 8) 0 (from_pos + 8) (out @ take 8 (drop from_pos s))"
proof -
  have "eat_delimiter s (from_pos + 7) = 0" using assms(1,2) by (intro eat_none) auto
  then have "hex_int_loop s maxstrlen (from_pos + 7) 7 from_pos out =
      hex_int_loop s maxstrlen (from_pos + 8) 0 (from_pos + 8) (out @ take 8 (drop from_pos s))"
    using assms by (subst hex_int_loop.simps) (simp add: Let_def copy_hex_str_as_one_int_def add.commute)
  then show ?thesis using hex_int_digits [of from_pos s out maxstrlen 7] assms by simp
qed

lemma hex_int_comma:
  assumes "s = a @ CHR '','' # b" "b \<noteq> []" "isxdigit (hd b)" "length out \<le> maxstrlen"
  shows "hex_int_loop s maxstrlen (length a) 0 (length a) out = hex_int_loop s maxstrlen (length a + 1) 0 (length a + 1) out"
proof -
  have "eat_delimiter s (length a) = 1"
    using assms(1-3) isxdigit_no_delimiter [of "hd b"] by (cases b) (auto simp: eat_delimiter_def is_delimiter_def)
  then show ?thesis using assms(1,4) by (subst hex_int_loop.simps) (simp add: Let_def)
qed

lemma hex_int_end:
  assumes "length out \<le> maxstrlen"
  shows "hex_int_loop s maxstrlen (length s) 0 (length s) out = Some out"
proof -
  have "eat_delimiter s (length s) = 1" by (simp add: eat_delimiter_def is_delimiter_def)
  moreover have "hex_int_loop s maxstrlen (length s + 1) 0 (length s + 1) out = Some out" by (subst hex_int_loop.simps) simp
  ultimately show ?thesis using assms by (subst hex_int_loop.simps) (simp add: Let_def)
qed

lemma hex_int_join:
  assumes "\<forall>w \<in> set ws. length w = 8 \<and> list_all isxdigit w" "length out + 8 * length ws \<le> maxstrlen"
  shows "hex_int_loop (a @ comma_join ws) maxstrlen (length a) 0 (length a) out = Some (out @ concat ws)"
  using assms
proof (induction ws arbitrary: a out rule: comma_join.induct)
  case 1
  then show ?case using hex_int_end [of out maxstrlen a] by simp
next
  case (2 w)
  have "hex_int_loop (a @ w) maxstrlen (length a) 0 (length a) out = hex_int_loop (a @ w) maxstrlen (length a + 8) 0 (length a + 8) (out @ w)"
    using hex_int_token [of "length a" "a @ w" out maxstrlen] 2 by (simp add: list_all_length)
  then show ?case using hex_int_end [of "out @ w" maxstrlen "a @ w"] 2 by simp
next
  case (3 w w2 ws)
  define b where "b = comma_join (w2 # ws)"
  have b: "b \<noteq> []" "isxdigit (hd b)" using 3(2) by (cases ws; cases w2; simp add: b_def)+
  have "hex_int_loop (a @ w @ CHR '','' # b) maxstrlen (length a) 0 (length a) out =
      hex_int_loop (a @ w @ CHR '','' # b) maxstrlen (length a + 8) 0 (length a + 8) (out @ w)"
    using hex_int_token [of "length a" "a @ w @ CHR '','' # b" out maxstrlen] 3(2,3) by (simp add: list_all_length nth_append)
  moreover have "hex_int_loop (a @ w @ CHR '','' # b) maxstrlen (length (a @ w)) 0 (length (a @ w)) (out @ w) =
      hex_int_loop (a @ w @ CHR '','' # b) maxstrlen (length (a @ w) + 1) 0 (length (a @ w) + 1) (out @ w)"
    by (rule hex_int_comma [OF _ b]) (use 3(2,3) in simp_all)
  moreover have "hex_int_loop (a @ w @ CHR '','' # b) maxstrlen (length (a @ w) + 1) 0 (length (a @ w) + 1) (out @ w) =
      Some (out @ w @ concat (w2 # ws))"
    using 3(1) [of "out @ w" "a @ w @ '',''"] 3(2,3) by (simp add: b_def add.commute)
  ultimately show ?case using 3(2) by (simp add: b_def)
qed

lemma to_hex_string_int_join:
  assumes "\<forall>w \<in> set ws. length w = 8 \<and> list_all isxdigit w" "8 * length ws = maxstrlen"
  shows "to_hex_string_int (comma_join ws) maxstrlen = Some (concat ws)"
proof -
  have "length (concat ws) = maxstrlen" using assms by (induction ws arbitrary: maxstrlen) auto
  then show ?thesis using hex_int_join [of ws "[]" maxstrlen "[]"] assms by (simp add: to_hex_string_int_def)
qed

section \<open>Values and their text\<close>

text \<open>The sizes of the types that have a text form.\<close>

definition type_sized :: "mib_type \<Rightarrow> nat \<Rightarrow> bool" where
  "type_sized ty sz =
    (case ty of
       BYTE_T \<Rightarrow> sz = 1 | WORD_T \<Rightarrow> sz = 2 | DWORD_T \<Rightarrow> sz = 4 | INTEGER_T \<Rightarrow> sz = 4 | IA_T \<Rightarrow> sz = 4
     | WORD_ARRAY_T \<Rightarrow> even sz | INT_ARRAY_T \<Rightarrow> 4 dvd sz | IA6_T \<Rightarrow> False | BYTE64_T \<Rightarrow> False | OBJECT_T \<Rightarrow> False
     | _ \<Rightarrow> True)"

definition is_text :: "mib_type \<Rightarrow> bool" where
  "is_text ty \<longleftrightarrow> ty = STRING_T \<or> ty = ENCRYPT_STRING_T"

lemma mib_put_exact: "length b = sz \<Longrightarrow> sz \<le> length mem \<Longrightarrow> mib_put mem 0 b = Some (0, b @ drop sz mem)"
  by (simp add: mib_put_def mem_write_def)

lemma short_back: "k * 2 = sz \<Longrightarrow> sz \<le> length v \<Longrightarrow>
    string_to_short big (concat (hex_groups big 2 k v)) (sz * 2) = (1, take sz v)"
proof -
  assume k: "k * 2 = sz" "sz \<le> length v"
  then have "(sz * 2 + 3) div 4 = k" by presburger
  then show ?thesis using hex_groups_back [of 2 k v big] k by (simp add: string_to_short_def mult.commute)
qed

lemma integer_back: "k * 4 = sz \<Longrightarrow> sz \<le> length v \<Longrightarrow>
    string_to_integer big (concat (hex_groups big 4 k v)) (sz * 2) = (1, take sz v)"
proof -
  assume k: "k * 4 = sz" "sz \<le> length v"
  then have "(sz * 2 + 7) div 8 = k" by presburger
  then show ?thesis using hex_groups_back [of 4 k v big] k by (simp add: string_to_integer_def mult.commute)
qed

lemma nat_le_single: "length g = 1 \<Longrightarrow> nat_of big g = nat_of False g" "length g = 1 \<Longrightarrow> bytes_of big 1 x = bytes_of False 1 x"
  by (cases g; simp add: nat_of_def) (simp add: bytes_of_def Let_def)

lemma hex_groups_one: "sz \<le> length v \<Longrightarrow> hex_groups big 1 sz v = hex_groups False 1 sz v"
  using groups_lengths [of 1 sz v] nat_le_single(1) [of _ big] by (simp add: hex_groups_def)

lemma bytes_back: "sz \<le> length v \<Longrightarrow> rtk_string_to_hex (concat (hex_groups big 1 sz v)) (sz * 2) = (1, take sz v)"
  using hex_groups_back [of 1 sz v False] hex_groups_one [of sz v big] by (simp add: rtk_string_to_hex_def)

lemma number_back:
  assumes "length b = n" "n \<le> 4"
  shows "bytes_of big n (strtoul0 (digs (nat_of big b))) = b"
proof -
  have "nat_of big b < 256 ^ n" using assms(1) by (rule nat_of_less)
  also have "\<dots> \<le> 256 ^ 4" using assms(2) by (intro power_increasing) auto
  finally show ?thesis using strtoul_digs [of "nat_of big b"] assms(1) by simp
qed

lemma integer_text_back:
  assumes "length b = 4"
  shows "bytes_of big 4 (nat (strtol0 (let n = nat_of big b in show_int (if n < 2 ^ 31 then int n else int n - 2 ^ 32)) mod 2 ^ 32)) = b"
proof -
  have n: "nat_of big b < 2 ^ 32" using nat_of_less [OF assms, of big] by simp
  define i where "i = (if nat_of big b < 2 ^ 31 then int (nat_of big b) else int (nat_of big b) - 2 ^ 32)"
  have "- (2 ^ 31) \<le> i" "i < 2 ^ 31" "i mod 2 ^ 32 = int (nat_of big b)" using n by (auto simp: i_def mod_diff_right_eq)
  then have "nat (strtol0 (show_int i) mod 2 ^ 32) = nat_of big b" using strtol_show by simp
  then show ?thesis using assms unfolding Let_def i_def [symmetric] by simp
qed

lemma strncpy_back: "length (cstr v) < sz \<Longrightarrow> sz \<le> length mem \<Longrightarrow>
  \<exists>m. mib_put mem 0 (strncpy_bytes (cstr v) sz) = Some (0, m) \<and> length m = length mem \<and> drop sz m = drop sz mem \<and> cstr m = cstr v"
proof -
  assume sz: "length (cstr v) < sz" "sz \<le> length mem"
  have b: "strncpy_bytes (cstr v) sz = cstr v @ replicate (sz - length (cstr v)) NUL"
    using sz(1) by (simp add: strncpy_bytes_def min_def)
  obtain k where k: "sz - length (cstr v) = Suc k" using sz(1) by (cases "sz - length (cstr v)") auto
  have "cstr (s @ NUL # t) = s" if "NUL \<notin> set s" for s t using that by (induction s) (auto simp: cstr_def)
  then have "cstr (strncpy_bytes (cstr v) sz @ drop sz mem) = cstr v" using cstr_no_nul by (simp add: b k)
  moreover have "length (strncpy_bytes (cstr v) sz) = sz" by (simp add: strncpy_bytes_def)
  ultimately show ?thesis
    using mib_put_exact [OF _ sz(2), of "strncpy_bytes (cstr v) sz"] sz(2)
    by (intro exI [of _ "strncpy_bytes (cstr v) sz @ drop sz mem"]) simp
qed

lemma cstr_in_size: "NUL \<in> set (take sz v) \<Longrightarrow> length (cstr v) < sz"
proof (induction v arbitrary: sz)
  case (Cons c v)
  then show ?case by (cases sz) (auto simp: cstr_def)
qed simp

lemma text_of_numbers:
  assumes "ty \<in> {BYTE_T, WORD_T, DWORD_T, INTEGER_T, IA_T}" "type_sized ty sz" "sz \<le> length v"
  shows "\<exists>s. mib_to_string big v ty sz = Some (0, s) \<and> string_to_mib big mem s ty sz = mib_put mem 0 (take sz v)"
proof -
  have l: "length (take sz v) = sz" using assms(3) by simp
  have ne: "inet_ntop4 b \<noteq> []" for b by (simp add: inet_ntop4_def)
  consider "ty = BYTE_T" "sz = 1" | "ty = WORD_T" "sz = 2" | "ty = DWORD_T" "sz = 4" | "ty = INTEGER_T" "sz = 4" | "ty = IA_T" "sz = 4"
    using assms(1,2) by (auto simp: type_sized_def)
  then show ?thesis
  proof cases
    case 1
    then show ?thesis using number_back [of "take 1 v" 1 big] assms(3)
      by (cases v) (simp_all add: mib_to_string_def string_to_mib_def mib_read_def)
  next
    case 4
    then show ?thesis using integer_text_back [of "take 4 v" big] assms(3)
      unfolding mib_to_string_def string_to_mib_def mib_read_def mib_type.case by simp
  next
    case 5
    then show ?thesis using inet_back [of "take 4 v"] ne assms(3)
      unfolding mib_to_string_def string_to_mib_def mib_read_def mib_type.case by simp
  qed (use number_back [OF l, of big] assms(3) in
      \<open>simp_all add: mib_to_string_def string_to_mib_def mib_read_def del: One_nat_def\<close>)
qed

lemma text_of_arrays:
  assumes "ty \<in> {BYTE5_T, BYTE6_T, BYTE13_T, BYTE_ARRAY_T, WORD_ARRAY_T, INT_ARRAY_T}" "type_sized ty sz" "sz \<le> length v"
  shows "\<exists>s. mib_to_string big v ty sz = Some (0, s) \<and> string_to_mib big mem s ty sz = mib_put mem 0 (take sz v)"
proof -
  have j: "to_hex_string (comma_join (hex_groups big n k b)) = concat (hex_groups big n k b)" for n k b
    by (rule to_hex_string_join) (rule hex_groups_digits)
  have ji: "to_hex_string_int (comma_join (hex_groups big 4 k b)) (8 * k) = Some (concat (hex_groups big 4 k b))" for k b
    by (rule to_hex_string_int_join) (use hex_groups_digits [of big 4 k b] in \<open>auto simp: hex_groups_def\<close>)
  have b: "rtk_string_to_hex (concat (hex_groups big 1 sz (take sz v))) (sz * 2) = (1, take sz v)"
    using bytes_back [of sz "take sz v" big] assms(3) by simp
  consider "ty \<in> {BYTE5_T, BYTE6_T, BYTE13_T}" | "ty = BYTE_ARRAY_T" | k where "ty = WORD_ARRAY_T" "sz = 2 * k"
    | k where "ty = INT_ARRAY_T" "sz = 4 * k"
    using assms(1,2) by (auto simp: type_sized_def dvd_def)
  then show ?thesis
  proof cases
    case 1
    then have "mib_to_string big v ty sz = Some (0, concat (hex_groups big 1 sz (take sz v)))"
      "string_to_mib big mem t ty sz = mib_put mem 0 (snd (rtk_string_to_hex t (sz * 2)))" for t
      using assms(3) by (auto simp: mib_to_string_def string_to_mib_def mib_read_def)
    then show ?thesis using b by (intro exI [of _ "concat (hex_groups big 1 sz (take sz v))"]) simp
  next
    case 2
    then have "mib_to_string big v ty sz = Some (0, comma_join (hex_groups big 1 sz (take sz v)))"
      "string_to_mib big mem t ty sz = mib_put mem 0 (snd (rtk_string_to_hex (to_hex_string t) (sz * 2)))" for t
      using assms(3) by (simp_all add: mib_to_string_def string_to_mib_def mib_read_def)
    then show ?thesis using b j [of 1] by (intro exI [of _ "comma_join (hex_groups big 1 sz (take sz v))"]) simp
  next
    case (3 k)
    then show ?thesis using short_back [of k sz "take sz v" big] j [of 2] assms(3)
      by (simp add: mib_to_string_def string_to_mib_def mib_read_def mult.commute)
  next
    case (4 k)
    then show ?thesis using integer_back [of k sz "take sz v" big] ji [of k] assms(3)
      by (simp add: mib_to_string_def string_to_mib_def mib_read_def mult.commute)
  qed
qed

text \<open>C12: A value survives its text form: what \<open>string_to_mib\<close> makes of the text that \<open>mib_to_string\<close>
  printed of a value is the value, whatever stood there before, for numbers, addresses, keys and arrays of
  every width byte for byte, for strings up to the terminator; what stands behind the value is kept, and
  neither conversion leaves its buffer.  This holds for either byte order.\<close>

theorem mib_text_roundtrip:
  assumes "type_sized ty sz" "sz \<le> length v" "sz \<le> length mem" "is_text ty \<Longrightarrow> NUL \<in> set (take sz v)"
  shows "\<exists>s m. mib_to_string big v ty sz = Some (0, s) \<and> string_to_mib big mem s ty sz = Some (0, m) \<and>
    length m = length mem \<and> drop sz m = drop sz mem \<and>
    (if is_text ty then cstr m = cstr v else take sz m = take sz v)"
proof (cases "is_text ty")
  case True
  then have n: "NUL \<in> set (take sz v)" by (rule assms(4))
  then have "NUL \<in> set v" by (rule in_set_takeD)
  then have "mib_to_string big v ty sz = Some (0, cstr v)"
    "string_to_mib big mem (cstr v) ty sz = mib_put mem 0 (strncpy_bytes (cstr v) sz)"
    using True by (auto simp: is_text_def mib_to_string_def string_to_mib_def)
  moreover obtain m where "mib_put mem 0 (strncpy_bytes (cstr v) sz) = Some (0, m)" "length m = length mem"
      "drop sz m = drop sz mem" "cstr m = cstr v"
    using strncpy_back [OF cstr_in_size [OF n] assms(3)] by blast
  ultimately show ?thesis using True by (intro exI [of _ "cstr v"] exI [of _ m]) simp
next
  case False
  then have "ty \<in> {BYTE_T, WORD_T, DWORD_T, INTEGER_T, IA_T} \<or>
      ty \<in> {BYTE5_T, BYTE6_T, BYTE13_T, BYTE_ARRAY_T, WORD_ARRAY_T, INT_ARRAY_T}"
    using assms(1) by (cases ty) (auto simp: is_text_def type_sized_def)
  then obtain s where "mib_to_string big v ty sz = Some (0, s)" "string_to_mib big mem s ty sz = mib_put mem 0 (take sz v)"
    using text_of_numbers [OF _ assms(1,2)] text_of_arrays [OF _ assms(1,2)] by metis
  moreover have "mib_put mem 0 (take sz v) = Some (0, take sz v @ drop sz mem)"
    using mib_put_exact [of "take sz v" sz mem] assms(2,3) by simp
  ultimately show ?thesis
    using False assms(2,3) by (intro exI [of _ s] exI [of _ "take sz v @ drop sz mem"]) simp
qed

theorem mib_text_roundtrip_witness:
  "\<exists>s m. mib_to_string True ''ab0d--'' INT_ARRAY_T 4 = Some (0, s) \<and> string_to_mib True ''xxxxyz'' s INT_ARRAY_T 4 = Some (0, m) \<and>
    take 4 m = ''ab0d''"
  using mib_text_roundtrip [of INT_ARRAY_T 4 "''ab0d--''" "''xxxxyz''" True] by (auto simp: type_sized_def is_text_def)

end
