(* ===== verification/Mibget.thy ===== *)
theory Mibget
  imports Mibval
begin

text \<open>
  The values of the configuration by their ids (\<open>src/src/LINUX/mib.c\<close>): reading, setting and exchanging a
  value of the table \<open>mib_table\<close>, and the program's default values, in a build with
  \<open>INCLUDE_DEFAULT_VALUE\<close> and without \<open>KEEP_CRITICAL_CURRENT_SETTING\<close> and \<open>KEEP_CRITICAL_HW_SETTING\<close>.  The
  last entry of the table has the id 0 and the class \<open>UNKNOWN_SETTING\<close>.  \<open>None\<close> stands for an access
  outside a buffer or a table.
\<close>

record mib_entry =
  me_id :: nat
  me_class :: config_data
  me_type :: mib_type
  me_offset :: nat
  me_size :: nat
  me_default :: "string option"

section \<open>Reading and setting\<close>

text \<open>The loop over the table ends at the id or at the last entry.\<close>

definition mib_lookup :: "mib_entry list \<Rightarrow> nat \<Rightarrow> mib_entry option" where
  "mib_lookup tbl i = find (\<lambda>e. me_id e = 0 \<or> me_id e = i) tbl"

definition plain_type :: "mib_type \<Rightarrow> bool" where
  "plain_type ty \<longleftrightarrow> ty \<in> {BYTE_T, WORD_T, DWORD_T, INTEGER_T, BYTE5_T, BYTE6_T, BYTE13_T, IA_T, BYTE_ARRAY_T, INT_ARRAY_T}"

definition value_copy :: "bytes \<Rightarrow> mib_entry \<Rightarrow> bytes \<Rightarrow> (int \<times> bytes) option" where
  "value_copy pMibTbl e buf =
    (if is_text (me_type e) then
       (let s = cstr (drop (me_offset e) pMibTbl) @ [NUL] in
        if NUL \<notin> set (drop (me_offset e) pMibTbl) \<or> length s > length buf then None else Some (1, mem_write buf 0 s))
     else if plain_type (me_type e) then
       (if me_offset e + me_size e > length pMibTbl \<or> me_size e > length buf then None
        else Some (1, mem_write buf 0 (bslice (me_offset e) (me_offset e + me_size e) pMibTbl)))
     else Some (0, buf))"

definition mib_get :: "mib \<Rightarrow> mib_entry list \<Rightarrow> nat \<Rightarrow> bytes \<Rightarrow> (int \<times> bytes) option" where
  "mib_get m tbl i buf =
    (case mib_lookup tbl i of
       None \<Rightarrow> None
     | Some e \<Rightarrow>
         if me_class e \<notin> {CURRENT_SETTING, HW_SETTING, RUNNING_SETTING} then Some (0, buf)
         else value_copy (get_mib_tbl m (me_class e)) e buf)"

definition mib_backup_get :: "mib_entry list \<Rightarrow> nat \<Rightarrow> bytes \<Rightarrow> bytes \<Rightarrow> (int \<times> bytes) option" where
  "mib_backup_get tbl i buf ptr =
    (case mib_lookup tbl i of
       None \<Rightarrow> None
     | Some e \<Rightarrow>
         if me_class e \<notin> {CURRENT_SETTING, HW_SETTING} then Some (0, buf) else value_copy ptr e buf)"

definition mib_set :: "mib \<Rightarrow> mib_entry list \<Rightarrow> nat \<Rightarrow> bytes \<Rightarrow> (int \<times> mib) option" where
  "mib_set m tbl i v =
    (case mib_lookup tbl i of
       None \<Rightarrow> None
     | Some e \<Rightarrow>
         let pMibTbl = get_mib_tbl m (me_class e) in
         if me_class e \<notin> {CURRENT_SETTING, HW_SETTING, RUNNING_SETTING} then Some (0, m)
         else if plain_type (me_type e) then
           (if me_offset e + me_size e > length pMibTbl \<or> me_size e > length v then None
            else Some (1, set_mib_tbl (me_class e) (mem_write pMibTbl (me_offset e) (take (me_size e) v)) m))
         else if is_text (me_type e) then
           (if NUL \<notin> set v then None
            else if length (cstr v) + 1 > me_size e then Some (0, m)
            else if me_offset e + length (cstr v) + 1 > length pMibTbl then None
            else Some (1, set_mib_tbl (me_class e) (mem_write pMibTbl (me_offset e) (cstr v @ [NUL])) m))
         else Some (0, m))"

text \<open>An unknown id is no error here.\<close>

definition mib_swap :: "mib \<Rightarrow> mib_entry list \<Rightarrow> nat \<Rightarrow> nat \<Rightarrow> (int \<times> mib) option" where
  "mib_swap m tbl i j =
    (case (mib_lookup tbl i, mib_lookup tbl j) of
       (Some e, Some f) \<Rightarrow>
         if me_id e = 0 \<or> me_id f = 0 then Some (1, m)
         else if me_class e \<noteq> me_class f \<or> me_size e \<noteq> me_size f \<or>
           me_class e \<notin> {CURRENT_SETTING, HW_SETTING, RUNNING_SETTING} then Some (0, m)
         else
           let t = get_mib_tbl m (me_class e); n = me_size e in
           if me_offset e + n > length t \<or> me_offset f + n > length t then None
           else
             let tmpBuf = bslice (me_offset e) (me_offset e + n) t;
                 t = mem_write t (me_offset e) (bslice (me_offset f) (me_offset f + n) t);
                 t = mem_write t (me_offset f) tmpBuf
             in Some (1, set_mib_tbl (me_class e) t m)
     | _ \<Rightarrow> None)"

section \<open>Defaults of the program\<close>

fun mib_getDef :: "bool \<Rightarrow> mib_entry list \<Rightarrow> nat \<Rightarrow> bytes \<Rightarrow> (int \<times> bytes) option" where
  "mib_getDef big [] i buf = None"
| "mib_getDef big (e # tbl) i buf =
    (if me_id e = 0 then Some (1, buf)
     else if me_id e \<noteq> i then mib_getDef big tbl i buf
     else case me_default e of
       None \<Rightarrow> Some (1, buf)
     | Some d \<Rightarrow>
         (case string_to_mib big buf d (me_type e) (me_size e) of
            None \<Rightarrow> None
          | Some (ret, buf) \<Rightarrow> mib_getDef big tbl i buf))"

text \<open>The table with every default of a class written to its place.\<close>

fun default_values :: "bool \<Rightarrow> config_data \<Rightarrow> mib_entry list \<Rightarrow> bytes \<Rightarrow> bytes option" where
  "default_values big ty [] t = None"
| "default_values big ty (e # tbl) t =
    (if me_id e = 0 then Some t
     else if me_class e \<noteq> ty \<or> me_default e = None then default_values big ty tbl t
     else if me_offset e > length t then None
     else case string_to_mib big (drop (me_offset e) t) (the (me_default e)) (me_type e) (me_size e) of
       None \<Rightarrow> None
     | Some (ret, b) \<Rightarrow> default_values big ty tbl (take (me_offset e) t @ b))"

fun default_records :: "config_data \<Rightarrow> chains \<Rightarrow> chains \<Rightarrow> chains option" where
  "default_records ty [] t = Some t"
| "default_records ty (e # es) t =
    (if ct_type e \<noteq> ty then default_records ty es t
     else case ct_default e of
       None \<Rightarrow> default_records ty es t
     | Some d \<Rightarrow>
         (case add_records t (ct_id e) d 0 (ct_size e) (length d div ct_size e) of
            None \<Rightarrow> None
          | Some t \<Rightarrow> default_records ty es t))"

datatype flash_default = FLASH_DEFAULT_TO_ALL | FLASH_DEFAULT_TO_AUGMENT | FLASH_DEFAULT_TO_MEMORY

definition table_class :: "config_data \<Rightarrow> config_data" where
  "table_class ty = (if ty = DEFAULT_SETTING then CURRENT_SETTING else ty)"

definition default_table :: "bool \<Rightarrow> mib_entry list \<Rightarrow> mib \<Rightarrow> config_data \<Rightarrow> (int \<times> mib) option" where
  "default_table big tbl m ty =
    (let m = (if ty = RUNNING_SETTING then m else init_mib_header m) in
     if ty \<noteq> RUNNING_SETTING \<and> get_mib_header m ty = None then Some (0, m)
     else
       let t = get_mib_tbl m ty;
           t = (if ty = RUNNING_SETTING then t else replicate (length t) NUL)
       in case default_values big (table_class ty) tbl t of
            None \<Rightarrow> None
          | Some t \<Rightarrow> Some (1, set_mib_tbl ty t m))"

definition default_chains :: "mib \<Rightarrow> config_data \<Rightarrow> mib option" where
  "default_chains m ty =
    (let t = all_table_clear (m_chains m) (table_class ty) in
     map_option (\<lambda>t. m \<lparr> m_chains := t \<rparr>) (default_records (table_class ty) (active t) t))"

text \<open>The settings in memory are written to their file through the check of settings from outside; the
  default settings are the current ones with another signature.\<close>

definition default_write :: "bool \<Rightarrow> mib \<Rightarrow> config_data \<Rightarrow> (int \<times> mib) option" where
  "default_write big m ty =
    (let from = table_class ty in
     case content_write_to_raw big m from (content_size m from) of
       None \<Rightarrow> None
     | Some (None, m) \<Rightarrow> Some (0, m)
     | Some (Some f, m) \<Rightarrow>
         let f = (if ty = DEFAULT_SETTING then mem_write f 0 (signature_tag DEFAULT_SETTING) else f);
             (ret, m) = mib_update_from_raw big m f
         in Some (if ret = 1 then 1 else 0, m))"

definition default_rest :: "bool \<Rightarrow> mib \<Rightarrow> config_data \<Rightarrow> flash_default \<Rightarrow> config_mib \<Rightarrow> (int \<times> mib) option" where
  "default_rest big m ty action rng =
    (case (if rng = CONFIG_MIB_TABLE then Some m else default_chains m ty) of
       None \<Rightarrow> None
     | Some m \<Rightarrow>
         if ty = RUNNING_SETTING \<or> action = FLASH_DEFAULT_TO_MEMORY then Some (1, m) else default_write big m ty)"

definition mib_init_mib_with_program_default ::
  "bool \<Rightarrow> mib_entry list \<Rightarrow> mib \<Rightarrow> config_data \<Rightarrow> flash_default \<Rightarrow> config_mib \<Rightarrow> (int \<times> mib) option" where
  "mib_init_mib_with_program_default big tbl m ty action rng =
    (case (if rng = CONFIG_MIB_ALL \<or> rng = CONFIG_MIB_TABLE then default_table big tbl m ty else Some (1, m)) of
       None \<Rightarrow> None
     | Some (ret, m) \<Rightarrow> if ret = 0 then Some (0, m) else default_rest big m ty action rng)"

text \<open>What fails to load is not replaced; the default settings are not looked at.\<close>

definition mib_init :: "bool \<Rightarrow> mib_entry list \<Rightarrow> mib \<Rightarrow> (int \<times> mib) option" where
  "mib_init big tbl m =
    (case mib_load big (init_mib_header m) HW_SETTING of
       None \<Rightarrow> None
     | Some (hs_valid, m) \<Rightarrow>
         (case mib_load big m CURRENT_SETTING of
            None \<Rightarrow> None
          | Some (cs_valid, m) \<Rightarrow>
              (case mib_init_mib_with_program_default big tbl m RUNNING_SETTING FLASH_DEFAULT_TO_MEMORY CONFIG_MIB_ALL of
                 None \<Rightarrow> None
               | Some (rs_valid, m) \<Rightarrow>
                   Some (if hs_valid \<noteq> 0 \<and> cs_valid \<noteq> 0 \<and> rs_valid \<noteq> 0 then 1 else 0, m))))"

section \<open>The table of values\<close>

text \<open>A value that lies in its table, terminated there if it is a string; two values apart, and two ids of
  one value: the rates of broadcast, DHCP, IGMP, multicast and unknown multicast storms are five ids for
  one field.\<close>

definition kept_class :: "config_data \<Rightarrow> bool" where
  "kept_class c \<longleftrightarrow> c \<in> {CURRENT_SETTING, HW_SETTING, RUNNING_SETTING}"

definition value_fits :: "bytes \<Rightarrow> mib_entry \<Rightarrow> bool" where
  "value_fits t e \<longleftrightarrow> me_offset e + me_size e \<le> length t \<and>
    (is_text (me_type e) \<longrightarrow> NUL \<in> set (bslice (me_offset e) (me_offset e + me_size e) t))"

definition apart :: "mib_entry \<Rightarrow> mib_entry \<Rightarrow> bool" where
  "apart e f \<longleftrightarrow> me_class e \<noteq> me_class f \<or> me_offset e + me_size e \<le> me_offset f \<or> me_offset f + me_size f \<le> me_offset e"

definition same_place :: "mib_entry \<Rightarrow> mib_entry \<Rightarrow> bool" where
  "same_place e f \<longleftrightarrow> me_class f = me_class e \<and> me_type f = me_type e \<and> me_offset f = me_offset e \<and> me_size f = me_size e"

lemma tables_apart:
  assumes "kept_class c" "kept_class d"
  shows "get_mib_tbl (set_mib_tbl c b m) d = (if d = c then b else get_mib_tbl m d)"
  using assms by (auto simp: kept_class_def get_mib_tbl_def set_mib_tbl_def)

lemma lookup_member: "mib_lookup tbl i = Some e \<Longrightarrow> e \<in> set tbl"
  unfolding mib_lookup_def find_Some_iff by auto

lemma cstr_take: "NUL \<in> set (take n s) \<Longrightarrow> cstr s = cstr (take n s)"
proof (induction s arbitrary: n)
  case (Cons c s)
  then show ?case by (cases n) (auto simp: cstr_def)
qed simp

lemma bslice_take: "bslice a (a + n) t = take n (drop a t)"
  by (simp add: bslice_def)

lemma value_copy_cong:
  assumes "value_fits t e" "length t' = length t"
    and "bslice (me_offset e) (me_offset e + me_size e) t' = bslice (me_offset e) (me_offset e + me_size e) t"
  shows "value_copy t' e buf = value_copy t e buf"
proof -
  have "cstr (drop (me_offset e) t') = cstr (drop (me_offset e) t)" "NUL \<in> set (drop (me_offset e) t') \<longleftrightarrow> NUL \<in> set (drop (me_offset e) t)"
    if "is_text (me_type e)"
    using that assms cstr_take [of "me_size e"] by (metis bslice_take value_fits_def in_set_takeD)+
  then show ?thesis using assms(2,3) by (simp add: value_copy_def Let_def)
qed

lemma mem_write_apart:
  assumes "off + length d \<le> length t" "a + n \<le> off \<or> off + length d \<le> a"
  shows "bslice a (a + n) (mem_write t off d) = bslice a (a + n) t"
  using assms by (auto simp: bslice_take mem_write_def drop_append take_append drop_take min_def)

text \<open>What a successful \<open>_mib_set\<close> did.\<close>

lemma mib_set_writes:
  assumes "mib_set m tbl i v = Some (1, m')" "mib_lookup tbl i = Some e"
  obtains d where "m' = set_mib_tbl (me_class e) (mem_write (get_mib_tbl m (me_class e)) (me_offset e) d) m"
    "kept_class (me_class e)" "length d \<le> me_size e"
    "is_text (me_type e) \<and> d = cstr v @ [NUL] \<or> \<not> is_text (me_type e) \<and> plain_type (me_type e) \<and> d = take (me_size e) v \<and> me_size e \<le> length v"
proof -
  have p: "plain_type ty \<Longrightarrow> \<not> is_text ty" for ty by (auto simp: plain_type_def is_text_def)
  show ?thesis
    using assms that p [of "me_type e"] by (auto simp: mib_set_def kept_class_def Let_def split: if_splits)
qed

lemma bslice_here: "off + length d \<le> length t \<Longrightarrow> length d \<le> n \<Longrightarrow>
    bslice off (off + n) (mem_write t off d) = d @ drop (length d) (bslice off (off + n) t)"
  unfolding bslice_take by (simp add: mem_write_def drop_take add.commute)

lemma value_copy_here:
  assumes t: "off = me_offset e" "off + me_size e \<le> length t" "length d \<le> me_size e" "me_size e \<le> length buf"
    and d: "is_text (me_type e) \<and> d = cstr v @ [NUL] \<or>
      \<not> is_text (me_type e) \<and> plain_type (me_type e) \<and> d = take (me_size e) v \<and> me_size e \<le> length v"
  shows "\<exists>out. value_copy (mem_write t off d) e buf = Some (1, out) \<and>
    (if is_text (me_type e) then cstr out = cstr v else take (me_size e) out = take (me_size e) v)"
proof -
  have c: "cstr (cstr v @ NUL # r) = cstr v" for r
  proof -
    have "cstr (s @ NUL # r) = s" if "NUL \<notin> set s" for s using that by (induction s) (auto simp: cstr_def)
    then show ?thesis by simp
  qed
  have w: "drop off (mem_write t off d) = d @ drop (off + length d) t" using t by (simp add: mem_write_def)
  show ?thesis
  proof (cases "is_text (me_type e)")
    case True
    then have s: "cstr (drop off (mem_write t off d)) @ [NUL] = d" "NUL \<in> set (drop off (mem_write t off d))"
      using d w c by auto
    then have "value_copy (mem_write t off d) e buf = Some (1, mem_write buf 0 d)"
      using True t by (simp add: value_copy_def Let_def)
    then show ?thesis using True d c by (auto simp: mem_write_def)
  next
    case False
    then have "value_copy (mem_write t off d) e buf = Some (1, mem_write buf 0 d)"
      using d t bslice_here [of off d t "me_size e"] by (auto simp: value_copy_def bslice_take)
    then show ?thesis using False d by (auto simp: mem_write_def)
  qed
qed

lemma mib_set_facts:
  assumes "value_fits (get_mib_tbl m (me_class e)) e" "mib_lookup tbl i = Some e" "mib_set m tbl i v = Some (1, m')"
  shows "value_fits (get_mib_tbl m' (me_class e)) e"
    and "me_size e \<le> length buf \<Longrightarrow> mib_lookup tbl j = Some f \<Longrightarrow> same_place e f \<Longrightarrow>
      \<exists>out. mib_get m' tbl j buf = Some (1, out) \<and>
        (if is_text (me_type e) then cstr out = cstr v else take (me_size e) out = take (me_size e) v)"
    and "mib_lookup tbl j = Some f \<Longrightarrow> apart e f \<Longrightarrow> value_fits (get_mib_tbl m (me_class f)) f \<Longrightarrow>
      (kept_class (me_class f) \<longrightarrow> value_fits (get_mib_tbl m' (me_class f)) f) \<and> mib_get m' tbl j b = mib_get m tbl j b"
proof -
  obtain d where m': "m' = set_mib_tbl (me_class e) (mem_write (get_mib_tbl m (me_class e)) (me_offset e) d) m"
    and c: "kept_class (me_class e)" and l: "length d \<le> me_size e"
    and d: "is_text (me_type e) \<and> d = cstr v @ [NUL] \<or>
      \<not> is_text (me_type e) \<and> plain_type (me_type e) \<and> d = take (me_size e) v \<and> me_size e \<le> length v"
    using mib_set_writes [OF assms(3,2)] .
  define t where "t = get_mib_tbl m (me_class e)"
  have fit: "me_offset e + me_size e \<le> length t" using assms(1) by (simp add: value_fits_def t_def)
  have g: "get_mib_tbl m' x = (if x = me_class e then mem_write t (me_offset e) d else get_mib_tbl m x)" if "kept_class x" for x
    using tables_apart [OF c that] by (simp add: m' t_def)
  have len: "length (mem_write t (me_offset e) d) = length t" using fit l by simp
  have k: "(me_class x \<notin> {CURRENT_SETTING, HW_SETTING, RUNNING_SETTING}) = (\<not> kept_class (me_class x))" for x
    by (simp add: kept_class_def)
  show "value_fits (get_mib_tbl m' (me_class e)) e"
    using fit l d g [OF c] len bslice_here [of "me_offset e" d t "me_size e"] by (auto simp: value_fits_def)
  show "\<exists>out. mib_get m' tbl j buf = Some (1, out) \<and>
      (if is_text (me_type e) then cstr out = cstr v else take (me_size e) out = take (me_size e) v)"
    if s: "me_size e \<le> length buf" "mib_lookup tbl j = Some f" "same_place e f"
  proof -
    have "value_copy (mem_write t (me_offset e) d) f buf = value_copy (mem_write t (me_offset e) d) e buf"
      using s(3) by (simp add: same_place_def value_copy_def)
    moreover have "me_class f = me_class e" using s(3) by (simp add: same_place_def)
    ultimately show ?thesis
      using value_copy_here [OF refl fit l s(1) d] c g [OF c] s(2) unfolding mib_get_def k by simp
  qed
  show "(kept_class (me_class f) \<longrightarrow> value_fits (get_mib_tbl m' (me_class f)) f) \<and> mib_get m' tbl j b = mib_get m tbl j b"
    if f: "mib_lookup tbl j = Some f" "apart e f" "value_fits (get_mib_tbl m (me_class f)) f"
  proof (cases "kept_class (me_class f)")
    case True
    have same: "bslice (me_offset f) (me_offset f + me_size f) (get_mib_tbl m' (me_class f)) =
        bslice (me_offset f) (me_offset f + me_size f) (get_mib_tbl m (me_class f))"
      using mem_write_apart [of "me_offset e" d t "me_offset f" "me_size f"] fit l g [OF True] f(2)
      by (auto simp: t_def apart_def)
    moreover have len_f: "length (get_mib_tbl m' (me_class f)) = length (get_mib_tbl m (me_class f))"
      using g [OF True] len by (simp add: t_def)
    ultimately have "value_copy (get_mib_tbl m' (me_class f)) f b = value_copy (get_mib_tbl m (me_class f)) f b"
      using value_copy_cong f(3) by blast
    moreover have "value_fits (get_mib_tbl m' (me_class f)) f" using f(3) same len_f by (simp add: value_fits_def)
    ultimately show ?thesis using f(1) True unfolding mib_get_def k by simp
  next
    case False
    then show ?thesis using f False unfolding mib_get_def k by simp
  qed
qed


text \<open>Two ids of one string, as the storm rates share a number, and a byte apart from it.\<close>

definition sample_table :: "mib_entry list" where
  "sample_table =
    [\<lparr> me_id = 7, me_class = CURRENT_SETTING, me_type = BYTE_T, me_offset = 0, me_size = 1, me_default = None \<rparr>,
     \<lparr> me_id = 9, me_class = CURRENT_SETTING, me_type = STRING_T, me_offset = 1, me_size = 2, me_default = None \<rparr>,
     \<lparr> me_id = 10, me_class = CURRENT_SETTING, me_type = STRING_T, me_offset = 1, me_size = 2, me_default = None \<rparr>,
     \<lparr> me_id = 0, me_class = UNKNOWN_SETTING, me_type = BYTE_T, me_offset = 0, me_size = 0, me_default = None \<rparr>]"


end
