(* ===== verification/Spec2Isabelle.thy ===== *)
theory Spec2Isabelle
  imports Queue Params Boawrite Stdio Serve Mibget
begin

text \<open>
  A model of the web server of an xDSL and PON gateway (a Boa server with dynamic pages, forms and logins,
  \<open>src/src/*.c\<close>) and of the configuration database its pages work on (\<open>src/src/LINUX/mib.c\<close> and the
  conversions of \<open>src/src/LINUX/utility.c\<close>).

  \<^bold>\<open>How the parts work together.\<close>  The main loop (\<open>main\<close> in \<open>boa.c\<close>) owns a pool of requests that move between
  three linked lists: free, ready, blocked.  A round first looks after the blocked requests
  (\<open>fdset_update\<close>), then lets every ready one take a step (\<open>process_requests\<close>), or waits in \<open>select\<close> and
  accepts connections.  A step depends on the status of the request: \<open>read_header\<close> parses the header in
  place and ends in \<open>process_header_end\<close>, which authorises the request, searches it for script injection,
  applies the lists of pages, translates the URI and picks a handler: a file or directory (\<open>get.c\<close>), a
  dynamic page or form (\<open>asp_page.c\<close>), or a CGI program (\<open>cgi.c\<close>, \<open>cgi_header.c\<close>, \<open>pipe.c\<close>).  Every answer
  is written through \<open>req_write\<close> into the output buffer of the request and sent by \<open>req_flush\<close>.  At the end
  \<open>free_request\<close> gives the request back or keeps its connection for the next one.  Forms and pages read and
  set values of the configuration by their ids; the configuration is saved with a checksum.

  \<^bold>\<open>The theories.\<close>
  \<^item> \<open>Prelude\<close>: characters, C strings, byte arrays, \<open>atoi\<close> and \<open>printf\<close> of numbers, the collections of facts.
  \<^item> \<open>Types\<close>: \<open>struct request\<close> (\<open>globals.h\<close>) as a record, constants of \<open>defines.h\<close> as datatypes, the global
    variables as the record \<open>server\<close>.  A pointer to a request is a number.
  \<^item> \<open>Queue\<close>: \<open>queue.c\<close>.  The locale \<open>request_queues\<close> says what a queue promises in terms of the list of its
    members; the interpretation \<open>rq\<close> shows it for the doubly linked lists.
  \<^item> \<open>Util\<close>, \<open>Encode\<close>, \<open>Dates\<close>, \<open>Buffer\<close>: \<open>util.c\<close> and the conversion of \<open>nls.c\<close> (paths, wild cards, percent
    encoding, BASE64, HTML, HTTP dates, the output buffer).
  \<^item> \<open>Hash\<close>: \<open>hash.c\<close>.  The locale \<open>first_wins_table\<close> is the interface of the tables filled from the
    configuration file, interpreted on them.
  \<^item> \<open>Response\<close>: \<open>response.c\<close>, text for text.  \<open>Alias\<close>: \<open>alias.c\<close> and the code pages of \<open>nls.c\<close>.
  \<^item> \<open>Login\<close>, \<open>Auth\<close>: the lists of logins (\<open>boa.c\<close>) and the protected directories (\<open>auth.c\<close>).
  \<^item> \<open>Pages\<close>, \<open>Logline\<close>, \<open>Dispatch\<close>: the checks, the header lines and \<open>process_header_end\<close> of \<open>request.c\<close>.
  \<^item> \<open>Boawrite\<close>, \<open>Params\<close>, \<open>Forms\<close>: \<open>asp_page.c\<close> and \<open>port.c\<close>.  \<open>Cgi\<close>, \<open>Stdio\<close>: CGI programs.  \<open>Get\<close>: \<open>get.c\<close>.
  \<^item> \<open>Read\<close>, \<open>Body\<close>: \<open>read.c\<close>.  \<open>Life\<close>, \<open>Loop\<close>, \<open>Serve\<close>: the life of a request, both loops over the queues (the
    locale \<open>queue_walk\<close>, interpreted as \<open>rw\<close> and \<open>bw\<close>) and the rounds of the main loop.
  \<^item> \<open>Chain\<close>, \<open>Image\<close>, \<open>Mibval\<close>, \<open>Mibget\<close>: the configuration: lists of records, the saved form with header and
    checksum, the text form of values, values by id and the defaults of the program.

  \<^bold>\<open>What is shown.\<close>
  \<^item> The server as a whole: the queues stay well formed, every request is in one place, and rounds neither
    lose nor duplicate requests (\<open>Serve\<close>); the loops over the queues end though the lists change
    under them (\<open>Loop\<close>); a request that waits too long with output to send stays for ever (\<open>Serve\<close>).
  \<^item> Reading: the scanner that works in place on whatever pieces arrive refines a parser of whole lines
    (\<open>Read\<close>); a body arrives in its file byte for byte up to the upload limit, and is dropped from there on
    (\<open>Body\<close>); request lines are parsed (\<open>Logline\<close>).
  \<^item> Access: every result of \<open>process_header_end\<close> is the answer of a failed check or comes from a handler started
    after all checks (\<open>Dispatch\<close>), a protected page needs the login of a listed user (\<open>Auth\<close>), a translated path
    is a configured root followed by components that do not climb out of it (\<open>Alias\<close>), the lists of pages and
    the search for script injection are characterised exactly (\<open>Pages\<close>).
  \<^item> Output: the buffer keeps what is written in order and stays in its bounds (\<open>Buffer\<close>), permanent redirects
    carry no line break, and temporary ones only where the link local address is set (\<open>Response\<close>), mark-up is
    escaped (\<open>Encode\<close>), files and pages are sent completely (\<open>Get\<close>), the output of a CGI program once its header
    is done with (\<open>Cgi\<close>), fields of forms and up to eight arguments of scripts are read back (\<open>Params\<close>, \<open>Forms\<close>).
  \<^item> Configuration: saved current settings are loaded again whatever the board held, changed ones are refused
    (\<open>Image\<close>), values survive their text form (\<open>Mibval\<close>), and the table keeps values that lie apart
    independent, while ids of one place share their value (\<open>Mibget\<close>).
  \<^item> Where the code fails, the theorem says so: the error properties of \<open>Read\<close>, \<open>Serve\<close>, \<open>Auth\<close>, \<open>Cgi\<close>, \<open>Image\<close>,
    and the limits inside those of \<open>Body\<close>, \<open>Response\<close>, \<open>Alias\<close>, \<open>Params\<close> and \<open>Forms\<close>.

  \<^bold>\<open>Bounds and undefined behaviour.\<close>  Loops are structural recursions or have a measure; only the walk over a
  queue follows links that the steps change, so \<open>Loop.walk\<close> is a partial function and \<open>Loop.loops_end\<close>
  shows that it returns on well formed queues.  Rounds of the main loop are a list of what the
  system calls answer.  A result \<open>None\<close> stands for a crash or an undefined access, at the place where
  the code has it.  Machine integers are written with their wrap-around where it matters (the sums of the
  configuration, the checksums as \<open>8 word\<close>, the checks of posted data); \<open>long\<close> has 32 bits, \<open>char\<close> is signed
  where the code uses its sign.  \<open>malloc\<close>, \<open>strdup\<close> and \<open>realloc\<close> succeed unless a theory says otherwise.

  \<^bold>\<open>The build.\<close>  \<open>SUPPORT_ASP\<close>, \<open>USE_AUTH\<close>, \<open>USE_LOGINWEB_OF_SERVER\<close>, \<open>LOGIN_ERR_TIMES_LIMITED\<close>, \<open>USE_DEONET\<close>,
  \<open>CONFIG_DEONET_SESSION\<close> and \<open>GUNZIP\<close> are defined; \<open>EMBED\<close> is not, so \<open>USE_NLS\<close>, \<open>USE_NLS_REFERER_REDIR\<close>,
  \<open>USE_CHARSET_HEADER\<close> and \<open>USE_BROWSERMATCH\<close> are.  Not defined are \<open>SERVER_SSL\<close>, \<open>INET6\<close>, CSRF tokens,
  \<open>BOA_TIME_LOG\<close>, \<open>VOIP_SUPPORT\<close>, \<open>MULTI_USER_PRIV\<close>, \<open>ACCOUNT_CONFIG\<close>, \<open>SUPPORT_ZERO_CONFIG\<close>,
  \<open>ENABLE_SIGNATURE_ADV\<close> and the variants of single providers (\<open>CONFIG_CU\<close>, \<open>CONFIG_CMCC\<close>, \<open>CONFIG_E8B\<close>,
  \<open>CONFIG_YUEME\<close>, \<open>CONFIG_TELMEX\<close>).  Header lines have at most 2048 bytes, the client stream and the output
  buffer 32768.  The configuration is built with \<open>CONFIG_MTD_NAND\<close>, \<open>CONFIG_USER_CONF_ON_RAWFILE\<close> and
  \<open>INCLUDE_DEFAULT_VALUE\<close>, without XML files, \<open>CONFIG_IPV6\<close> and the encryption of strings.  The byte order
  of the machine is a parameter.

  \<^bold>\<open>Parameters.\<close>  System calls and the file system are the fields of the record \<open>env\<close> (\<open>Buffer\<close>); the functions
  of pages and forms are values of the registries; the tables of the configuration are arguments.

  \<^bold>\<open>Not modelled.\<close>  The generated scanner and parser of the configuration file (\<open>lex.yy.c\<close>, \<open>y.tab.c\<close>, and
  \<open>config.c\<close>, their table of actions), logs, signals and start-up, which are sequences of system calls; the
  housekeeping of the board in \<open>portal.c\<close>, \<open>ap_connection.c\<close>, \<open>perform_pppoe.c\<close> and at the start of a round;
  the vendored \<open>md5.c\<close>, \<open>sha256.c\<close>, \<open>cJSON.c\<close>, \<open>lzss.c\<close>; the page handlers under \<open>form_src_generic\<close>, which copy
  fields to values of the configuration; the rest of \<open>LINUX\<close>, which drives the board by shell commands and
  \<open>ioctl\<close>, and the daemon and command line around the configuration; of \<open>mib.c\<close> the XML and flash partition
  variants; the tools under \<open>src/util\<close>.
\<close>

end
